(* ===== verification/Prelude.thy ===== *)
theory Prelude
  imports Main "HOL-Library.Word" "HOL-Library.AList" "HOL-Library.List_Lexorder"
    "HOL-Library.Product_Lexorder"
begin

section \<open>Prelude: Rust's types and collections\<close>

text \<open>
  What every component of the engine shares: the machine integers of the source at their
  width, its byte strings with the lexicographic order of \<^verbatim>\<open>Vec<u8>\<close>, the little-endian
  encodings of the standard library, saturating arithmetic, the iterator reductions
  (\<open>max\<close>, \<open>min\<close>, \<open>max_by_key\<close>) and the two map types. A \<^verbatim>\<open>HashMap\<close> is an
  association list with distinct keys (its iteration order is the order of the list, so a
  statement about every such list covers every iteration order); a \<^verbatim>\<open>BTreeMap\<close> is an
  association list kept strictly ascending. Both satisfy the interface \<open>key_map\<close>, in
  which the lemmas about bulk insertion and iteration are proved once.
\<close>

subsection \<open>Machine integers and byte strings\<close>

type_synonym u8 = "8 word"
type_synonym u16 = "16 word"
type_synonym u32 = "32 word"
type_synonym u64 = "64 word"
type_synonym bytes = "u8 list"
type_synonym txn_id = u64

abbreviation u64_max :: u64 where
  "u64_max \<equiv> - 1"

definition u32_max_nat :: nat where
  "u32_max_nat = 2 ^ 32 - 1"

definition saturating_sub :: "'a::len word \<Rightarrow> 'a word \<Rightarrow> 'a word" where
  "saturating_sub a b = (if a < b then 0 else a - b)"

definition saturating_add :: "'a::len word \<Rightarrow> 'a word \<Rightarrow> 'a word" where
  "saturating_add a b = (if unat a + unat b < 2 ^ LENGTH('a) then a + b else - 1)"

subsection \<open>Little-endian encodings\<close>

fun nat_to_le :: "nat \<Rightarrow> nat \<Rightarrow> bytes" where
  "nat_to_le 0 v = []"
| "nat_to_le (Suc n) v = of_nat (v mod 256) # nat_to_le n (v div 256)"

fun le_to_nat :: "bytes \<Rightarrow> nat" where
  "le_to_nat [] = 0"
| "le_to_nat (b # bs) = unat b + 256 * le_to_nat bs"

definition u32_to_le :: "u32 \<Rightarrow> bytes" where
  "u32_to_le w = nat_to_le 4 (unat w)"

definition u32_from_le :: "bytes \<Rightarrow> u32" where
  "u32_from_le bs = of_nat (le_to_nat bs)"

definition u64_to_le :: "u64 \<Rightarrow> bytes" where
  "u64_to_le w = nat_to_le 8 (unat w)"

definition u64_from_le :: "bytes \<Rightarrow> u64" where
  "u64_from_le bs = of_nat (le_to_nat bs)"

definition u16_to_be :: "u16 \<Rightarrow> bytes" where
  "u16_to_be w = rev (nat_to_le 2 (unat w))"

subsection \<open>Iterator reductions\<close>

fun iter_max :: "'a::linorder list \<Rightarrow> 'a option" where
  "iter_max [] = None"
| "iter_max (x # xs) = (case iter_max xs of None \<Rightarrow> Some x | Some m \<Rightarrow> Some (max x m))"

fun iter_min :: "'a::linorder list \<Rightarrow> 'a option" where
  "iter_min [] = None"
| "iter_min (x # xs) = (case iter_min xs of None \<Rightarrow> Some x | Some m \<Rightarrow> Some (min x m))"

definition unwrap_or :: "'a \<Rightarrow> 'a option \<Rightarrow> 'a" where
  "unwrap_or d x = (case x of None \<Rightarrow> d | Some v \<Rightarrow> v)"

text \<open>\<^verbatim>\<open>Iterator::max_by_key\<close> returns the last of several maximal elements.\<close>

fun max_by_key :: "('a \<Rightarrow> 'b::linorder) \<Rightarrow> 'a list \<Rightarrow> 'a option" where
  "max_by_key f [] = None"
| "max_by_key f (x # xs) =
     (case max_by_key f xs of
        None \<Rightarrow> Some x
      | Some y \<Rightarrow> if f x \<le> f y then Some y else Some x)"

subsection \<open>Maps\<close>

type_synonym ('k, 'v) hmap = "('k \<times> 'v) list"
type_synonym ('k, 'v) btmap = "('k \<times> 'v) list"

abbreviation hm_get :: "('k, 'v) hmap \<Rightarrow> 'k \<Rightarrow> 'v option" where
  "hm_get \<equiv> map_of"

abbreviation hm_contains :: "('k, 'v) hmap \<Rightarrow> 'k \<Rightarrow> bool" where
  "hm_contains m k \<equiv> k \<in> fst ` set m"

abbreviation hm_wf :: "('k, 'v) hmap \<Rightarrow> bool" where
  "hm_wf m \<equiv> distinct (map fst m)"

definition hm_insert :: "'k \<Rightarrow> 'v \<Rightarrow> ('k, 'v) hmap \<Rightarrow> ('k, 'v) hmap" where
  "hm_insert k v m = AList.update k v m"

definition hm_remove :: "'k \<Rightarrow> ('k, 'v) hmap \<Rightarrow> ('k, 'v) hmap" where
  "hm_remove k m = filter (\<lambda>p. fst p \<noteq> k) m"

fun bt_insert :: "'k::linorder \<Rightarrow> 'v \<Rightarrow> ('k, 'v) btmap \<Rightarrow> ('k, 'v) btmap" where
  "bt_insert k v [] = [(k, v)]"
| "bt_insert k v (p # m) =
     (if k < fst p then (k, v) # p # m
      else if k = fst p then (k, v) # m
      else p # bt_insert k v m)"

abbreviation bt_wf :: "('k::linorder, 'v) btmap \<Rightarrow> bool" where
  "bt_wf m \<equiv> sorted_wrt (<) (map fst m)"

named_theorems map_laws \<open>lookup and well-formedness laws of the two map models\<close>

subsubsection \<open>The map interface\<close>

locale key_map =
  fixes insert :: "'k \<Rightarrow> 'v \<Rightarrow> ('k \<times> 'v) list \<Rightarrow> ('k \<times> 'v) list"
    and invar :: "('k \<times> 'v) list \<Rightarrow> bool"
  assumes get_insert: "invar m \<Longrightarrow> map_of (insert k v m) = (map_of m)(k \<mapsto> v)"
    and invar_empty: "invar []"
    and invar_insert: "invar m \<Longrightarrow> invar (insert k v m)"
    and invar_filter: "invar m \<Longrightarrow> invar (filter P m)"
    and invar_distinct: "invar m \<Longrightarrow> distinct (map fst m)"
begin

lemma invar_insert_all:
  "invar m \<Longrightarrow> invar (fold (\<lambda>x. insert (f x) (g x)) xs m)"
  by (induction xs arbitrary: m) (auto intro: invar_insert)

lemma get_insert_all:
  "invar m \<Longrightarrow>
    map_of (fold (\<lambda>x. insert (f x) (g x)) xs m) =
    map_of m ++ map_of (rev (map (\<lambda>x. (f x, g x)) xs))"
proof (induction xs arbitrary: m)
  case Nil
  then show ?case by simp
next
  case (Cons x xs)
  then have "map_of (fold (\<lambda>x. insert (f x) (g x)) xs (insert (f x) (g x) m)) =
      map_of (insert (f x) (g x) m) ++ map_of (rev (map (\<lambda>x. (f x, g x)) xs))"
    by (simp add: invar_insert)
  with Cons.prems show ?case by (simp add: get_insert)
qed

lemma set_insert:
  assumes "invar m"
  shows "set (insert k v m) = {p \<in> set m. fst p \<noteq> k} \<union> {(k, v)}"
proof -
  have "(a, b) \<in> set (insert k v m) \<longleftrightarrow> (a, b) \<in> {p \<in> set m. fst p \<noteq> k} \<union> {(k, v)}" for a b
    using map_of_eq_Some_iff [OF invar_distinct [OF invar_insert [OF assms, of k v]], of a b]
      map_of_eq_Some_iff [OF invar_distinct [OF assms], of a b]
    by (simp add: get_insert [OF assms]) (smt (verit, best) option.inject)
  then show ?thesis by auto
qed

lemma set_insert_all_subset:
  "invar m \<Longrightarrow>
    set (fold (\<lambda>x. insert (f x) (g x)) xs m) \<subseteq> set m \<union> (\<lambda>x. (f x, g x)) ` set xs"
proof (induction xs arbitrary: m)
  case Nil
  then show ?case by simp
next
  case (Cons x xs)
  then have "set (fold (\<lambda>x. insert (f x) (g x)) xs (insert (f x) (g x) m)) \<subseteq>
      set (insert (f x) (g x) m) \<union> (\<lambda>x. (f x, g x)) ` set xs"
    by (simp add: invar_insert)
  with Cons.prems show ?case by (fastforce simp: set_insert)
qed

end

subsubsection \<open>Both map models satisfy it\<close>

lemma map_of_filter_fst: "map_of (filter (\<lambda>p. P (fst p)) m) k = (if P k then map_of m k else None)"
  by (induction m) auto

lemma map_of_hm_insert [map_laws]: "map_of (hm_insert k v m) = (map_of m)(k \<mapsto> v)"
  by (simp add: hm_insert_def AList.update_conv')

lemma map_of_hm_remove [map_laws]: "map_of (hm_remove k m) = (map_of m)(k := None)"
  by (rule ext) (simp add: hm_remove_def map_of_filter_fst [where P = "\<lambda>a. a \<noteq> k"])

lemma hm_wf_filter [map_laws]: "hm_wf m \<Longrightarrow> hm_wf (filter P m)"
  by (rule distinct_map_filter)

lemma hm_wf_insert [map_laws]: "hm_wf m \<Longrightarrow> hm_wf (hm_insert k v m)"
  by (simp add: hm_insert_def AList.distinct_update)

lemma hm_wf_remove [map_laws]: "hm_wf m \<Longrightarrow> hm_wf (hm_remove k m)"
  by (simp add: hm_remove_def hm_wf_filter)

interpretation hm: key_map hm_insert hm_wf
  by unfold_locales (simp_all add: map_laws)

lemma keys_bt_insert: "fst ` set (bt_insert k v m) = insert k (fst ` set m)"
  by (induction m) auto

lemma bt_wf_insert [map_laws]: "bt_wf m \<Longrightarrow> bt_wf (bt_insert k v m)"
proof (induction m)
  case Nil
  then show ?case by simp
next
  case (Cons p m)
  then show ?case
    using keys_bt_insert [of k v m] by (auto simp: sorted_wrt_append image_iff)
qed

lemma bt_wf_distinct [map_laws]: "bt_wf m \<Longrightarrow> hm_wf m"
  by (rule strict_sorted_iff [THEN iffD1, THEN conjunct2])

lemma bt_wf_filter [map_laws]: "bt_wf m \<Longrightarrow> bt_wf (filter P m)"
  by (induction m) auto

lemma map_of_bt_insert [map_laws]: "bt_wf m \<Longrightarrow> map_of (bt_insert k v m) = (map_of m)(k \<mapsto> v)"
proof (induction m)
  case Nil
  then show ?case by simp
next
  case (Cons p m)
  have "map_of m k = None" if "k < fst p"
    using Cons.prems that by (fastforce simp: map_of_eq_None_iff)
  with Cons show ?case by (cases p) (auto simp: fun_upd_twist)
qed

interpretation bt: key_map bt_insert bt_wf
  by unfold_locales (simp_all add: map_laws)

subsection \<open>Facts about the encodings\<close>

named_theorems byte_eval \<open>evaluation of encodings on concrete values\<close>

lemma nat_to_le_numeral [byte_eval]:
  "nat_to_le (numeral k) v = of_nat (v mod 256) # nat_to_le (pred_numeral k) (v div 256)"
  by (simp only: numeral_eq_Suc [of k] nat_to_le.simps)

lemma length_nat_to_le [simp]: "length (nat_to_le n v) = n"
  by (induction n arbitrary: v) auto

lemma le_to_nat_append: "le_to_nat (xs @ ys) = le_to_nat xs + 256 ^ length xs * le_to_nat ys"
  by (induction xs) (auto simp: algebra_simps)

lemma take_nat_to_le: "take i (nat_to_le n v) = nat_to_le (min i n) v"
proof (induction n arbitrary: i v)
  case 0
  then show ?case by simp
next
  case (Suc n)
  then show ?case by (cases i) auto
qed

lemma le_nat_to_le: "le_to_nat (nat_to_le n v) = v mod 256 ^ n"
proof (induction n arbitrary: v)
  case 0
  then show ?case by simp
next
  case (Suc n)
  have "v mod 256 + 256 * (v div 256 mod 256 ^ n) = v mod (256 * 256 ^ n)"
    by (simp add: mod_mult2_eq)
  then show ?case by (simp add: Suc unat_of_nat)
qed

lemma u32_le_roundtrip [simp]: "u32_from_le (u32_to_le w) = w"
proof -
  have "unat w < 2 ^ LENGTH(32)" by (rule unsigned_less)
  then have "unat w < 256 ^ 4" by simp
  then show ?thesis by (simp add: u32_from_le_def u32_to_le_def le_nat_to_le)
qed

lemma u64_le_roundtrip [simp]: "u64_from_le (u64_to_le w) = w"
proof -
  have "unat w < 2 ^ LENGTH(64)" by (rule unsigned_less)
  then have "unat w < 256 ^ 8" by simp
  then show ?thesis by (simp add: u64_from_le_def u64_to_le_def le_nat_to_le)
qed

lemma length_u32_to_le [simp]: "length (u32_to_le w) = 4"
  by (simp add: u32_to_le_def)

lemma length_u64_to_le [simp]: "length (u64_to_le w) = 8"
  by (simp add: u64_to_le_def)

lemma le_to_nat_replicate_0 [simp]: "le_to_nat (replicate n 0) = 0"
  by (induction n) auto

lemma le_to_nat_bound: "le_to_nat bs < 256 ^ length bs"
proof (induction bs)
  case Nil
  then show ?case by simp
next
  case (Cons b bs)
  have "unat b < 2 ^ LENGTH(8)" by (rule unsigned_less)
  with Cons show ?case by simp
qed

lemma nat_to_le_inj: "nat_to_le n v = nat_to_le n w \<Longrightarrow> v < 256 ^ n \<Longrightarrow> w < 256 ^ n \<Longrightarrow> v = w"
  by (metis le_nat_to_le mod_less)

lemma u16_to_be_inj [simp]: "u16_to_be a = u16_to_be b \<longleftrightarrow> a = b"
proof
  assume eq: "u16_to_be a = u16_to_be b"
  have "unat a < 2 ^ LENGTH(16)" "unat b < 2 ^ LENGTH(16)" by (rule unsigned_less)+
  then have "unat a < 256 ^ 2" "unat b < 256 ^ 2" by simp_all
  with eq have "unat a = unat b"
    by (auto simp: u16_to_be_def dest: nat_to_le_inj)
  then show "a = b" by (rule word_unat_eq_iff [THEN iffD2])
qed simp

lemma length_u16_to_be [simp]: "length (u16_to_be w) = 2"
  by (simp add: u16_to_be_def)

subsection \<open>Facts about the reductions\<close>

lemma iter_max_None [simp]: "iter_max xs = None \<longleftrightarrow> xs = []"
  by (cases xs) (auto split: option.splits)

lemma iter_min_None [simp]: "iter_min xs = None \<longleftrightarrow> xs = []"
  by (cases xs) (auto split: option.splits)

lemma iter_max_Max: "xs \<noteq> [] \<Longrightarrow> iter_max xs = Some (Max (set xs))"
proof (induction xs)
  case (Cons x xs)
  then show ?case by (cases "xs = []") auto
qed simp

lemma iter_min_Min: "xs \<noteq> [] \<Longrightarrow> iter_min xs = Some (Min (set xs))"
proof (induction xs)
  case (Cons x xs)
  then show ?case by (cases "xs = []") auto
qed simp

lemma iter_max_Some: "iter_max xs = Some m \<longleftrightarrow> m \<in> set xs \<and> (\<forall>x \<in> set xs. x \<le> m)"
  by (cases "xs = []") (auto simp: iter_max_Max intro: Max_eqI [symmetric] Max_eqI)

lemma iter_min_Some: "iter_min xs = Some m \<longleftrightarrow> m \<in> set xs \<and> (\<forall>x \<in> set xs. m \<le> x)"
  by (cases "xs = []") (auto simp: iter_min_Min intro: Min_eqI [symmetric] Min_eqI)

lemma unwrap_or_simps [simp]: "unwrap_or d None = d" "unwrap_or d (Some v) = v"
  by (simp_all add: unwrap_or_def)

lemma le_unwrap_iter_max:
  assumes "x \<in> set xs"
  shows "x \<le> unwrap_or d (iter_max xs)"
  using assms iter_max_Some [of xs] by (cases "iter_max xs") auto

lemma unwrap_iter_min_le:
  assumes "x \<in> set xs"
  shows "unwrap_or d (iter_min xs) \<le> x"
  using assms iter_min_Some [of xs] by (cases "iter_min xs") auto

lemma max_by_key_None [simp]: "max_by_key f xs = None \<longleftrightarrow> xs = []"
  by (cases xs) (auto split: option.splits)

lemma max_by_key_SomeD:
  "max_by_key f xs = Some y \<Longrightarrow> y \<in> set xs \<and> (\<forall>x \<in> set xs. f x \<le> f y)"
proof (induction xs arbitrary: y)
  case Nil
  then show ?case by simp
next
  case (Cons x xs)
  then show ?case
    by (cases "max_by_key f xs") (fastforce split: if_splits)+
qed

lemma max_by_key_eqI:
  assumes "y \<in> set xs" and "\<And>x. x \<in> set xs \<Longrightarrow> f x \<le> f y"
    and "\<And>x. x \<in> set xs \<Longrightarrow> f x = f y \<Longrightarrow> x = y"
  shows "max_by_key f xs = Some y"
proof -
  from assms(1) obtain z where z: "max_by_key f xs = Some z"
    by (cases "max_by_key f xs") auto
  then have "z \<in> set xs" and "f y \<le> f z"
    using assms(1) max_by_key_SomeD [OF z] by auto
  with assms(2) have "f z = f y" by (simp add: order.antisym)
  with assms(3) \<open>z \<in> set xs\<close> z show ?thesis by simp
qed

lemma saturating_sub_le [simp]: "saturating_sub a b \<le> a"
  by (auto simp: saturating_sub_def word_sub_le_iff not_less)

lemma u64_less_succ: "w < w + 1" if "w < u64_max" for w :: u64
proof -
  have "1 + w \<noteq> 0" using that by (metis add.commute add_eq_0_iff less_irrefl)
  then have "unat (1 + w) = Suc (unat w)" by (rule unatSuc)
  then show ?thesis by (simp add: word_less_nat_alt add.commute)
qed

end
