(* ===== verification/Errors.thy ===== *)
theory Errors
  imports Prelude
begin

section \<open>Errors, severities and degradation metrics\<close>

text \<open>
  Models \<^verbatim>\<open>src/src/error.rs\<close> and \<^verbatim>\<open>src/src/metrics.rs\<close>. The variants of
  \<^verbatim>\<open>Z1Error\<close> are constructors of \<open>z1error\<close>. The source builds their messages with
  \<^verbatim>\<open>format!\<close>; the model keeps what is formatted as a value of \<open>err_detail\<close> (one
  constructor per message), so a caller that inspects the text, such as the retry of
  \<^verbatim>\<open>begin_txn\<close>, inspects the constructor. The global counter table of the metrics module
  is passed explicitly.
\<close>

datatype io_kind = NotFound | PermissionDenied | AlreadyExists | UnexpectedEof | OtherIo

datatype err_detail =
    PostcardEncode
  | PayloadTooLarge nat
  | TooShort nat
  | MagicMismatch
  | UnsupportedVersion u32
  | PayloadLenOverflow
  | TruncatedFile nat nat
  | CrcMismatch u32 u32
  | PostcardDecode
  | WalRecordTooLarge nat
  | WalTruncatedHeader
  | WalLengthOverLimit nat
  | WalTruncatedPayload
  | UnflushedQueue nat
  | AlreadyActive txn_id
  | AlreadyCommitted txn_id
  | NotActive txn_id
  | SsiConflict txn_id txn_id bool bool
  | EmptyProtocol
  | TxnCounterOverflow
  | BeginRetriesExhausted
  | MissingParent
  | LockHeld
  | Described string
  | Wrapped z1error
and z1error =
    Io io_kind
  | Serialization err_detail
  | Deserialize err_detail
  | Internal err_detail
  | Wal err_detail
  | MvccConflict err_detail
  | TxnNotFound txn_id
  | Degraded string err_detail

type_synonym 'a z1result = "z1error + 'a"

datatype severity =
    Fatal
  | Degrade string bool
  | Warn string

fun is_fatal :: "severity \<Rightarrow> bool" where
  "is_fatal Fatal = True"
| "is_fatal _ = False"

fun is_degrade :: "severity \<Rightarrow> bool" where
  "is_degrade (Degrade _ _) = True"
| "is_degrade _ = False"

fun severity_with_strict_mode :: "severity \<Rightarrow> bool \<Rightarrow> severity" where
  "severity_with_strict_mode (Degrade _ _) True = Fatal"
| "severity_with_strict_mode other _ = other"

fun metric :: "severity \<Rightarrow> string option" where
  "metric Fatal = None"
| "metric (Degrade m _) = Some m"
| "metric (Warn m) = Some m"

definition degrade :: "string \<Rightarrow> err_detail \<Rightarrow> z1error" where
  "degrade m context = Degraded m context"

definition unrecoverable_metrics :: "string list" where
  "unrecoverable_metrics =
     [''vis_data_unavailable'', ''wal_record_corrupt'', ''version_chain_broken'',
      ''gc_snapshot_violation'']"

fun severity_of :: "z1error \<Rightarrow> severity" where
  "severity_of (Degraded m _) = Degrade m (m \<notin> set unrecoverable_metrics)"
| "severity_of _ = Fatal"

subsection \<open>Metrics\<close>

datatype control_flow = Continue | Break

type_synonym degrade_counts = "(string, u64) hmap"

definition increment_degrade :: "string \<Rightarrow> degrade_counts \<Rightarrow> degrade_counts" where
  "increment_degrade m counts = hm_insert m (unwrap_or 0 (hm_get counts m) + 1) counts"

definition handle_degrade :: "z1error \<Rightarrow> bool \<Rightarrow> degrade_counts \<Rightarrow> control_flow \<times> degrade_counts" where
  "handle_degrade err strict_mode counts =
     (let sev = severity_with_strict_mode (severity_of err) strict_mode;
          counts' = (case metric sev of Some m \<Rightarrow> increment_degrade m counts | None \<Rightarrow> counts)
      in (case sev of Fatal \<Rightarrow> Break | _ \<Rightarrow> Continue, counts'))"

definition metrics_snapshot :: "degrade_counts \<Rightarrow> (string \<times> u64) list" where
  "metrics_snapshot counts = sort_key (\<lambda>p. u64_max - snd p) counts"

subsection \<open>Properties\<close>

lemma fatal_with_strict_mode [simp]: "severity_with_strict_mode Fatal b = Fatal"
  by (cases b) simp_all

lemma non_degraded_is_fatal: "(\<nexists>m c. e = Degraded m c) \<Longrightarrow> severity_of e = Fatal"
  by (cases e) auto

lemma hm_wf_increment: "hm_wf counts \<Longrightarrow> hm_wf (increment_degrade m counts)"
  by (simp add: increment_degrade_def map_laws)

text \<open>
  Degradation handling. A degraded error breaks exactly when strict mode is on, every
  other error always breaks; the metric is counted exactly when the degradation stands (in
  strict mode the escalated error carries no metric, so nothing is counted).
\<close>

lemma handle_degrade_spec:
  "handle_degrade e strict counts =
     (case e of
        Degraded m _ \<Rightarrow>
          (if strict then (Break, counts) else (Continue, increment_degrade m counts))
      | _ \<Rightarrow> (Break, counts))"
  by (cases strict; cases e) (simp_all add: handle_degrade_def)

end
