(* ===== verification/Codec.thy ===== *)
theory Codec
  imports Errors
begin

section \<open>The on-disk format framework and the clock\<close>

text \<open>
  Models \<^verbatim>\<open>src/src/codec/disk_format.rs\<close> and \<^verbatim>\<open>src/src/codec/timestamp.rs\<close>. The
  associated constants of the trait \<^verbatim>\<open>DiskFormat\<close> are a record. The crates the trait
  calls are parameters: \<open>crc\<close> is \<^verbatim>\<open>crc32fast::hash\<close>, \<open>ser\<close> and \<open>de\<close> are
  \<^verbatim>\<open>postcard::to_allocvec\<close> and \<^verbatim>\<open>postcard::from_bytes\<close> at the type at hand, with
  \<open>None\<close> for an error. What the engine relies on is \<open>serde_ok\<close>: decoding what was
  encoded gives the value back.
\<close>

definition serde_ok :: "('a \<Rightarrow> bytes option) \<Rightarrow> (bytes \<Rightarrow> 'a option) \<Rightarrow> bool" where
  "serde_ok ser de \<longleftrightarrow> (\<forall>x b. ser x = Some b \<longrightarrow> de b = Some x)"

record disk_format =
  df_magic :: bytes
  df_version :: u32
  df_min_readable_version :: u32

definition header_size :: nat where
  "header_size = 6 + 4 + 4 + 4"

definition checked_add_usize :: "nat \<Rightarrow> nat \<Rightarrow> nat option" where
  "checked_add_usize a b = (if a + b < 2 ^ 64 then Some (a + b) else None)"

definition to_disk_bytes ::
    "disk_format \<Rightarrow> (bytes \<Rightarrow> u32) \<Rightarrow> ('a \<Rightarrow> bytes option) \<Rightarrow> 'a \<Rightarrow> bytes z1result" where
  "to_disk_bytes fmt crc ser x =
     (case ser x of
        None \<Rightarrow> Inl (Serialization PostcardEncode)
      | Some payload \<Rightarrow>
          if length payload > u32_max_nat
          then Inl (Serialization (PayloadTooLarge (length payload)))
          else Inr (df_magic fmt @ u32_to_le (df_version fmt) @ u32_to_le (crc payload)
                    @ u32_to_le (of_nat (length payload)) @ payload))"

definition from_disk_bytes ::
    "disk_format \<Rightarrow> (bytes \<Rightarrow> u32) \<Rightarrow> (bytes \<Rightarrow> 'a option) \<Rightarrow> bytes \<Rightarrow> 'a z1result" where
  "from_disk_bytes fmt crc de bs =
     (if length bs < header_size then Inl (Deserialize (TooShort (length bs)))
      else if take 6 bs \<noteq> df_magic fmt then Inl (Deserialize MagicMismatch)
      else
        let version = u32_from_le (take 4 (drop 6 bs)) in
        if version < df_min_readable_version fmt \<or> version > df_version fmt
        then Inl (Deserialize (UnsupportedVersion version))
        else
          let stored_crc = u32_from_le (take 4 (drop 10 bs));
              payload_len = unat (u32_from_le (take 4 (drop 14 bs))) in
          case checked_add_usize header_size payload_len of
            None \<Rightarrow> Inl (Deserialize PayloadLenOverflow)
          | Some total_expected \<Rightarrow>
              if length bs < total_expected
              then Inl (Deserialize (TruncatedFile total_expected (length bs)))
              else
                let payload = take payload_len (drop header_size bs);
                    actual_crc = crc payload in
                if actual_crc \<noteq> stored_crc
                then Inl (Deserialize (CrcMismatch stored_crc actual_crc))
                else case de payload of
                       None \<Rightarrow> Inl (Deserialize PostcardDecode)
                     | Some x \<Rightarrow> Inr x)"

definition matches_magic :: "disk_format \<Rightarrow> bytes \<Rightarrow> bool" where
  "matches_magic fmt bs \<longleftrightarrow> length bs \<ge> 6 \<and> take 6 bs = df_magic fmt"

definition disk_format_wf :: "disk_format \<Rightarrow> bool" where
  "disk_format_wf fmt \<longleftrightarrow>
     length (df_magic fmt) = 6 \<and> df_min_readable_version fmt \<le> df_version fmt"

subsection \<open>The clock\<close>

text \<open>
  The argument is what \<^verbatim>\<open>SystemTime::now().duration_since(UNIX_EPOCH)\<close> gives (the
  milliseconds, or \<open>None\<close> before the epoch) and the static
  \<^verbatim>\<open>LAST_VALID_TS_MILLIS\<close>, which is returned updated.
\<close>

definition current_timestamp_millis :: "nat option \<Rightarrow> u64 \<Rightarrow> u64 \<times> u64" where
  "current_timestamp_millis since_epoch last_valid =
     (case since_epoch of
        Some d \<Rightarrow> (of_nat d, of_nat d)
      | None \<Rightarrow> (last_valid, last_valid))"

subsection \<open>Facts\<close>

lemma header_size_eq [simp]: "header_size = 18"
  by (simp add: header_size_def)

lemma u32_le_of_len:
  "n \<le> u32_max_nat \<Longrightarrow> unat (of_nat n :: u32) = n"
  by (simp add: u32_max_nat_def unat_of_nat)

lemma checked_add_u32:
  "checked_add_usize 18 (unat (w :: u32)) = Some (18 + unat w)"
proof -
  have "unat w < 2 ^ LENGTH(32)" by (rule unsigned_less)
  then show ?thesis by (simp add: checked_add_usize_def)
qed

lemma to_disk_bytes_Inr:
  assumes "to_disk_bytes fmt crc ser x = Inr bs"
  obtains payload where "ser x = Some payload" "length payload \<le> u32_max_nat"
    "bs = df_magic fmt @ u32_to_le (df_version fmt) @ u32_to_le (crc payload)
          @ u32_to_le (of_nat (length payload)) @ payload"
  using assms by (auto simp: to_disk_bytes_def split: option.splits if_splits)

lemma take_drop_fields:
  assumes "length m = 6" "length v = 4" "length c = 4" "length l = 4"
  shows "take 6 (m @ v @ c @ l @ r) = m" "take 4 (drop 6 (m @ v @ c @ l @ r)) = v"
    "take 4 (drop 10 (m @ v @ c @ l @ r)) = c" "take 4 (drop 14 (m @ v @ c @ l @ r)) = l"
    "drop 18 (m @ v @ c @ l @ r) = r"
  using assms by simp_all

lemma length_to_disk_bytes:
  "disk_format_wf fmt \<Longrightarrow> to_disk_bytes fmt crc ser x = Inr bs \<Longrightarrow> ser x = Some payload \<Longrightarrow>
     length bs = 18 + length payload"
  by (auto simp: disk_format_wf_def elim!: to_disk_bytes_Inr)

text \<open>The reader on any byte string that has the four header fields.\<close>

lemma from_disk_bytes_fields:
  assumes "length m = 6" "length v = 4" "length c = 4" "length l = 4"
  shows "from_disk_bytes fmt crc de (m @ v @ c @ l @ r) =
     (if m \<noteq> df_magic fmt then Inl (Deserialize MagicMismatch)
      else if u32_from_le v < df_min_readable_version fmt \<or> u32_from_le v > df_version fmt
      then Inl (Deserialize (UnsupportedVersion (u32_from_le v)))
      else let n = unat (u32_from_le l) in
        if length r < n
        then Inl (Deserialize (TruncatedFile (18 + n) (18 + length r)))
        else if crc (take n r) \<noteq> u32_from_le c
        then Inl (Deserialize (CrcMismatch (u32_from_le c) (crc (take n r))))
        else case de (take n r) of None \<Rightarrow> Inl (Deserialize PostcardDecode) | Some x \<Rightarrow> Inr x)"
proof -
  have len: "length (m @ v @ c @ l @ r) = 18 + length r" using assms by simp
  have ge: "\<not> 18 + length r < 18" and lt: "18 + length r < 18 + n \<longleftrightarrow> length r < n" for n
    by simp_all
  show ?thesis
    unfolding from_disk_bytes_def Let_def checked_add_u32 len header_size_eq
      take_drop_fields [OF assms] option.case lt
    by (simp only: ge if_False not_not)
qed

lemma from_to_disk_bytes:
  assumes "disk_format_wf fmt" "serde_ok ser de" "to_disk_bytes fmt crc ser x = Inr bs"
  shows "from_disk_bytes fmt crc de (bs @ extra) = Inr x"
proof -
  from assms(3) obtain payload where p: "ser x = Some payload" "length payload \<le> u32_max_nat"
    "bs = df_magic fmt @ u32_to_le (df_version fmt) @ u32_to_le (crc payload)
          @ u32_to_le (of_nat (length payload)) @ payload"
    by (rule to_disk_bytes_Inr)
  with assms(1,2) show ?thesis
    by (simp add: from_disk_bytes_fields disk_format_wf_def serde_ok_def u32_le_of_len not_less)
qed

text \<open>
  C23. Round trip of the file format. Whatever the writer produces, the reader with the
  same format constants gives the value back, also when further bytes follow the payload.
\<close>

theorem disk_format_roundtrip:
  assumes "disk_format_wf fmt" and "serde_ok ser de"
    and "to_disk_bytes fmt crc ser x = Inr bs"
  shows "from_disk_bytes fmt crc de (bs @ extra) = Inr x"
  using assms by (rule from_to_disk_bytes)

theorem disk_format_roundtrip_witness:
  "from_disk_bytes \<lparr>df_magic = [68, 76, 84, 48, 48, 52], df_version = 4,
       df_min_readable_version = 4\<rparr> (\<lambda>_. 7) Some
     ([68, 76, 84, 48, 48, 52, 4, 0, 0, 0, 7, 0, 0, 0, 2, 0, 0, 0, 1, 2] @ [9]) = Inr [1, 2]"
  by (rule disk_format_roundtrip [where ser = Some])
     (simp_all add: disk_format_wf_def serde_ok_def to_disk_bytes_def u32_max_nat_def
        u32_to_le_def byte_eval)

text \<open>
  Half-written files. Every proper prefix of what the writer produces is rejected with
  a deserialisation error: too short inside the header, truncated inside the payload.
\<close>

lemma disk_format_prefix_rejected:
  assumes "disk_format_wf fmt" and "to_disk_bytes fmt crc ser x = Inr bs" and "n < length bs"
  shows "from_disk_bytes fmt crc de (take n bs) =
    Inl (Deserialize (if n < header_size then TooShort n else TruncatedFile (length bs) n))"
proof (cases "n < header_size")
  case True
  with assms(3) show ?thesis by (simp add: from_disk_bytes_def)
next
  case False
  from assms(2) obtain payload where p: "ser x = Some payload" "length payload \<le> u32_max_nat"
    and bs: "bs = df_magic fmt @ u32_to_le (df_version fmt) @ u32_to_le (crc payload)
          @ u32_to_le (of_nat (length payload)) @ payload"
    by (rule to_disk_bytes_Inr)
  have "take n bs = df_magic fmt @ u32_to_le (df_version fmt) @ u32_to_le (crc payload)
          @ u32_to_le (of_nat (length payload)) @ take (n - 18) payload"
    using False assms(1) by (simp add: bs disk_format_wf_def)
  moreover have "n - 18 < length payload"
    using False assms(1,3) by (simp add: bs disk_format_wf_def)
  ultimately show ?thesis
    using False assms(1) p
    by (simp add: from_disk_bytes_fields disk_format_wf_def u32_le_of_len bs not_less)
qed

lemma disk_format_prefix_rejected_example:
  "from_disk_bytes \<lparr>df_magic = [68, 76, 84, 48, 48, 52], df_version = 4,
       df_min_readable_version = 4\<rparr> (\<lambda>_. 7) (Some :: bytes \<Rightarrow> bytes option)
     (take 19 [68, 76, 84, 48, 48, 52, 4, 0, 0, 0, 7, 0, 0, 0, 2, 0, 0, 0, 1, 2]) =
   Inl (Deserialize (TruncatedFile 20 19))"
  using disk_format_prefix_rejected
    [of "\<lparr>df_magic = [68, 76, 84, 48, 48, 52], df_version = 4, df_min_readable_version = 4\<rparr>"
        "\<lambda>_. 7" Some "[1, 2]"
        "[68, 76, 84, 48, 48, 52, 4, 0, 0, 0, 7, 0, 0, 0, 2, 0, 0, 0, 1, 2]" 19 Some]
  by (simp add: disk_format_wf_def to_disk_bytes_def u32_max_nat_def
        u32_to_le_def byte_eval)

text \<open>
  Corrupted payloads. A file with an intact header whose payload was replaced by other
  bytes of the same length is rejected with a checksum error whenever the checksums differ.
\<close>

lemma disk_format_corruption_rejected:
  assumes "disk_format_wf fmt" and "to_disk_bytes fmt crc ser x = Inr (hdr @ payload)"
    and "ser x = Some payload" and "length payload' = length payload"
    and "crc payload' \<noteq> crc payload"
  shows "from_disk_bytes fmt crc de (hdr @ payload') =
    Inl (Deserialize (CrcMismatch (crc payload) (crc payload')))"
proof -
  have hdr: "hdr = df_magic fmt @ u32_to_le (df_version fmt) @ u32_to_le (crc payload)
          @ u32_to_le (of_nat (length payload))" and len: "length payload \<le> u32_max_nat"
    using assms(2,3) by (auto elim!: to_disk_bytes_Inr)
  show ?thesis
    using assms(1,4,5) len
    by (simp add: hdr from_disk_bytes_fields disk_format_wf_def u32_le_of_len not_less)
qed

lemma disk_format_corruption_rejected_witness:
  "from_disk_bytes \<lparr>df_magic = [68, 76, 84, 48, 48, 52], df_version = 4,
       df_min_readable_version = 4\<rparr> (\<lambda>b. of_nat (le_to_nat b)) (Some :: bytes \<Rightarrow> bytes option)
     ([68, 76, 84, 48, 48, 52, 4, 0, 0, 0, 1, 0, 0, 0, 1, 0, 0, 0] @ [2]) =
   Inl (Deserialize (CrcMismatch 1 2))"
  using disk_format_corruption_rejected
    [of "\<lparr>df_magic = [68, 76, 84, 48, 48, 52], df_version = 4, df_min_readable_version = 4\<rparr>"
        "\<lambda>b. of_nat (le_to_nat b)" Some "[1]"
        "[68, 76, 84, 48, 48, 52, 4, 0, 0, 0, 1, 0, 0, 0, 1, 0, 0, 0]" "[1]" "[2]" Some]
  by (simp add: disk_format_wf_def to_disk_bytes_def u32_max_nat_def
        u32_to_le_def byte_eval)

text \<open>
  The clock is not clamped. The fallback to the last valid timestamp is taken only when
  the wall clock is before the epoch; a wall clock that goes backwards after it is returned
  as it is, below the timestamp handed out before.
\<close>

lemma current_timestamp_goes_backwards:
  "\<exists>before after last. fst (current_timestamp_millis (Some after) (snd (current_timestamp_millis (Some before) last)))
      < fst (current_timestamp_millis (Some before) last)"
  by (rule exI [of _ 9], rule exI [of _ 5]) (simp add: current_timestamp_millis_def)

end
