(* ===== verification/Types.thy ===== *)
theory Types
  imports Codec
begin

section \<open>Versions, patches and their order\<close>

text \<open>
  Models \<^verbatim>\<open>src/src/store/types.rs\<close>. A version of a key is a \<open>z1_entry\<close>
  (\<^verbatim>\<open>value: None\<close> is the tombstone). \<^verbatim>\<open>Z1Key\<close> derives \<^verbatim>\<open>Ord\<close>: column family
  first, then the key bytes in lexicographic order; the type class instance below is that
  order. A patch is a sorted list of \<open>patch_entry\<close>s.
\<close>

datatype z1_key = Z1Key (cf_of: u16) (key_of: bytes)

instantiation z1_key :: linorder
begin

definition less_eq_z1_key :: "z1_key \<Rightarrow> z1_key \<Rightarrow> bool" where
  "less_eq_z1_key a b \<longleftrightarrow> cf_of a < cf_of b \<or> cf_of a = cf_of b \<and> key_of a \<le> key_of b"

definition less_z1_key :: "z1_key \<Rightarrow> z1_key \<Rightarrow> bool" where
  "less_z1_key a b \<longleftrightarrow> cf_of a < cf_of b \<or> cf_of a = cf_of b \<and> key_of a < key_of b"

instance
  by standard
    (auto simp: less_eq_z1_key_def less_z1_key_def intro: z1_key.expand dest: order.antisym)

end

record z1_entry =
  e_key :: z1_key
  e_txn_id :: txn_id
  e_value :: "bytes option"
  e_ts :: u64

definition entry_tombstone :: "z1_key \<Rightarrow> txn_id \<Rightarrow> u64 \<Rightarrow> z1_entry" where
  "entry_tombstone k t ts = \<lparr>e_key = k, e_txn_id = t, e_value = None, e_ts = ts\<rparr>"

definition entry_put :: "z1_key \<Rightarrow> txn_id \<Rightarrow> bytes \<Rightarrow> u64 \<Rightarrow> z1_entry" where
  "entry_put k t v ts = \<lparr>e_key = k, e_txn_id = t, e_value = Some v, e_ts = ts\<rparr>"

definition is_tombstone :: "z1_entry \<Rightarrow> bool" where
  "is_tombstone e \<longleftrightarrow> e_value e = None"

definition is_visible_at_commit ::
    "z1_entry \<Rightarrow> txn_id \<Rightarrow> (txn_id, u64) hmap \<Rightarrow> txn_id set \<Rightarrow> bool" where
  "is_visible_at_commit e snapshot_txn commit_ts_by_txn active_txns =
     (if e_txn_id e > snapshot_txn then False
      else if e_txn_id e \<in> active_txns then False
      else case hm_get commit_ts_by_txn (e_txn_id e) of
             Some commit_ts \<Rightarrow> commit_ts \<le> snapshot_txn
           | None \<Rightarrow> False)"

record patch_entry =
  pe_key :: bytes
  pe_value :: "bytes option"
  pe_txn_id :: txn_id

record patch_zone_map =
  min_txn :: txn_id
  max_txn :: txn_id
  zm_entry_count :: nat
  min_key :: "bytes option"
  max_key :: "bytes option"

datatype z1_patch_format = Sparse (sparse_entries: "patch_entry list")

definition patch_order :: "patch_entry \<Rightarrow> bytes \<times> txn_id" where
  "patch_order e = (pe_key e, pe_txn_id e)"

definition sparse :: "patch_entry list \<Rightarrow> z1_patch_format" where
  "sparse entries = Sparse (sort_key patch_order entries)"

fun entry_count :: "z1_patch_format \<Rightarrow> nat" where
  "entry_count (Sparse entries) = length entries"

fun max_txn_id :: "z1_patch_format \<Rightarrow> txn_id option" where
  "max_txn_id (Sparse entries) = iter_max (map pe_txn_id entries)"

fun min_txn_id :: "z1_patch_format \<Rightarrow> txn_id option" where
  "min_txn_id (Sparse entries) = iter_min (map pe_txn_id entries)"

fun key_bounds :: "z1_patch_format \<Rightarrow> bytes option \<times> bytes option" where
  "key_bounds (Sparse entries) =
     (if entries = [] then (None, None)
      else (Some (pe_key (hd entries)), Some (pe_key (last entries))))"

definition patch_v4 :: disk_format where
  "patch_v4 = \<lparr>df_magic = [68, 76, 84, 48, 48, 52], df_version = 4, df_min_readable_version = 4\<rparr>"

record z1_patch =
  patch_id :: u64
  txn_range :: "txn_id \<times> txn_id"
  pformat :: z1_patch_format
  zone_map :: patch_zone_map

subsection \<open>Facts\<close>

lemma patch_v4_wf [simp]: "disk_format_wf patch_v4"
  by (simp add: disk_format_wf_def patch_v4_def)

lemma is_visible_iff:
  "is_visible_at_commit e s c a \<longleftrightarrow>
     e_txn_id e \<le> s \<and> e_txn_id e \<notin> a \<and> (\<exists>ts. map_of c (e_txn_id e) = Some ts \<and> ts \<le> s)"
  by (auto simp: is_visible_at_commit_def not_less split: option.splits)

lemma set_sparse [simp]: "set (sparse_entries (sparse es)) = set es"
  by (simp add: sparse_def)

lemma sparse_Nil_iff [simp]: "sparse_entries (sparse es) = [] \<longleftrightarrow> es = []"
  by (metis set_sparse set_empty)

lemma sorted_sparse: "sorted (map patch_order (sparse_entries (sparse es)))"
  by (simp add: sparse_def)

lemma sorted_hd_last:
  assumes "sorted (map f xs)" "x \<in> set xs"
  shows "f (hd xs) \<le> f x \<and> f x \<le> f (last xs)"
proof -
  from assms(2) obtain i where i: "i < length xs" "xs ! i = x" by (auto simp: in_set_conv_nth)
  then have ne: "xs \<noteq> []" by auto
  have "map f xs ! 0 \<le> map f xs ! i" and "map f xs ! i \<le> map f xs ! (length xs - 1)"
    using assms(1) i by (intro sorted_nth_mono; simp)+
  with i ne show ?thesis by (simp add: hd_conv_nth last_conv_nth)
qed

text \<open>The key bounds a patch is indexed under cover every key it stores.\<close>

lemma key_bounds_sparse:
  assumes "e \<in> set es"
  obtains lo hi where "key_bounds (sparse es) = (Some lo, Some hi)" "lo \<le> pe_key e" "pe_key e \<le> hi"
proof -
  let ?s = "sort_key patch_order es"
  have "?s \<noteq> []" using assms by (auto simp flip: set_empty)
  moreover have "patch_order (hd ?s) \<le> patch_order e" "patch_order e \<le> patch_order (last ?s)"
    using sorted_hd_last [of patch_order ?s e] assms by simp_all
  ultimately show ?thesis
    by (intro that) (auto simp: sparse_def patch_order_def less_eq_prod_def)
qed

text \<open>
  Pruning bounds. Every entry of a patch lies within the transaction and key bounds
  recorded for it, so skipping a patch by its bounds never skips a stored version.
\<close>

lemma patch_bounds_cover:
  assumes "e \<in> set es"
  shows "\<exists>lo hi a b. key_bounds (sparse es) = (Some lo, Some hi) \<and> lo \<le> pe_key e \<and> pe_key e \<le> hi \<and>
     min_txn_id (sparse es) = Some a \<and> max_txn_id (sparse es) = Some b \<and>
     a \<le> pe_txn_id e \<and> pe_txn_id e \<le> b"
proof -
  have ne: "map pe_txn_id (sparse_entries (sparse es)) \<noteq> []"
    using assms by auto
  have txn: "pe_txn_id e \<in> set (map pe_txn_id (sparse_entries (sparse es)))"
    using assms by simp
  obtain a where a: "iter_min (map pe_txn_id (sparse_entries (sparse es))) = Some a"
    using ne by (cases "iter_min (map pe_txn_id (sparse_entries (sparse es)))") auto
  obtain b where b: "iter_max (map pe_txn_id (sparse_entries (sparse es))) = Some b"
    using ne by (cases "iter_max (map pe_txn_id (sparse_entries (sparse es)))") auto
  have "a \<le> pe_txn_id e" "pe_txn_id e \<le> b"
    using txn a b by (auto simp: iter_min_Some iter_max_Some simp del: set_sparse)
  moreover have "min_txn_id (sparse es) = Some a" "max_txn_id (sparse es) = Some b"
    using a b by (simp_all add: sparse_def)
  ultimately show ?thesis
    using key_bounds_sparse [OF assms] by metis
qed

lemma patch_bounds_cover_example:
  "\<exists>lo hi a b. key_bounds (sparse [\<lparr>pe_key = [2], pe_value = None, pe_txn_id = 3\<rparr>,
        \<lparr>pe_key = [1], pe_value = Some [7], pe_txn_id = 9\<rparr>]) = (Some lo, Some hi) \<and>
     lo \<le> [2] \<and> [2] \<le> hi \<and>
     min_txn_id (sparse [\<lparr>pe_key = [2], pe_value = None, pe_txn_id = 3\<rparr>,
        \<lparr>pe_key = [1], pe_value = Some [7], pe_txn_id = 9\<rparr>]) = Some a \<and>
     max_txn_id (sparse [\<lparr>pe_key = [2], pe_value = None, pe_txn_id = 3\<rparr>,
        \<lparr>pe_key = [1], pe_value = Some [7], pe_txn_id = 9\<rparr>]) = Some b \<and> a \<le> 3 \<and> 3 \<le> b"
  using patch_bounds_cover [of "\<lparr>pe_key = [2], pe_value = None, pe_txn_id = 3\<rparr>"
     "[\<lparr>pe_key = [2], pe_value = None, pe_txn_id = 3\<rparr>, \<lparr>pe_key = [1], pe_value = Some [7], pe_txn_id = 9\<rparr>]"]
  by simp

end
