(* ===== verification/Version_Layer.thy ===== *)
theory Version_Layer
  imports Types
begin

section \<open>Layers of versions\<close>

text \<open>
  What the engine asks of every storage layer: a layer holds versions, and looking up a key
  gives exactly the versions of that key. The interface is the locale \<open>version_layer\<close>; the
  version buffers, the memory store and the recent-flush cache provide it. In the locale the
  client's view is derived: the best visible version among the candidates of a layer is the
  best visible version of what the layer holds.
\<close>

subsection \<open>The best version\<close>

text \<open>One version per key and transaction.\<close>

definition single_valued_versions :: "z1_entry set \<Rightarrow> bool" where
  "single_valued_versions V \<longleftrightarrow>
     (\<forall>a \<in> V. \<forall>b \<in> V. e_key a = e_key b \<and> e_txn_id a = e_txn_id b \<longrightarrow> e_value a = e_value b)"

definition best_in :: "z1_entry set \<Rightarrow> z1_entry \<Rightarrow> bool" where
  "best_in V e \<longleftrightarrow> e \<in> V \<and> (\<forall>x \<in> V. e_txn_id x \<le> e_txn_id e)"

lemma best_in_max_by_key: "max_by_key e_txn_id xs = Some e \<Longrightarrow> best_in (set xs) e"
  by (auto simp: best_in_def dest: max_by_key_SomeD)

lemma best_in_value:
  assumes "single_valued_versions V" "\<forall>x \<in> V. e_key x = k" "best_in V a" "best_in V b"
  shows "e_value a = e_value b"
proof -
  have ab: "a \<in> V" "b \<in> V" "e_txn_id a \<le> e_txn_id b" "e_txn_id b \<le> e_txn_id a"
    using assms(3,4) by (simp_all add: best_in_def)
  have "e_txn_id a = e_txn_id b" using ab(3,4) by (rule order.antisym)
  moreover have "e_key a = e_key b" using ab(1,2) assms(2) by simp
  ultimately show ?thesis
    using assms(1) ab(1,2) unfolding single_valued_versions_def by blast
qed

text \<open>The value a point read returns: the best visible version, tombstones as absent.\<close>

definition read_value :: "z1_entry list \<Rightarrow> bytes option" where
  "read_value candidates =
     (case max_by_key e_txn_id candidates of
        Some e \<Rightarrow> if is_tombstone e then None else e_value e
      | None \<Rightarrow> None)"

lemma read_value_best: "read_value xs = (case max_by_key e_txn_id xs of Some e \<Rightarrow> e_value e | None \<Rightarrow> None)"
  by (auto simp: read_value_def is_tombstone_def split: option.splits)

text \<open>Reads depend on the candidates as a set of values only.\<close>

lemma read_value_cong:
  assumes "(\<lambda>e. (e_txn_id e, e_value e)) ` set xs = (\<lambda>e. (e_txn_id e, e_value e)) ` set ys"
    and "single_valued_versions (set ys)" "\<forall>x \<in> set ys. e_key x = k"
  shows "read_value xs = read_value ys"
proof (cases "max_by_key e_txn_id xs")
  case None
  with assms(1) show ?thesis by (simp add: read_value_best)
next
  case (Some a)
  then have a: "a \<in> set xs" "\<forall>x \<in> set xs. e_txn_id x \<le> e_txn_id a" by (auto dest: max_by_key_SomeD)
  have "(e_txn_id a, e_value a) \<in> (\<lambda>e. (e_txn_id e, e_value e)) ` set ys"
    unfolding assms(1) [symmetric] using a(1) by (rule imageI)
  then obtain b where b: "b \<in> set ys" "e_txn_id b = e_txn_id a" "e_value b = e_value a" by auto
  have "e_txn_id y \<le> e_txn_id b" if "y \<in> set ys" for y
  proof -
    have "(e_txn_id y, e_value y) \<in> (\<lambda>e. (e_txn_id e, e_value e)) ` set xs"
      unfolding assms(1) using that by (rule imageI)
    then obtain x where "x \<in> set xs" "e_txn_id x = e_txn_id y" by auto
    with a(2) b(2) show ?thesis by metis
  qed
  with b(1) have bb: "best_in (set ys) b" by (simp add: best_in_def)
  obtain c where c: "max_by_key e_txn_id ys = Some c"
    using b(1) by (cases "max_by_key e_txn_id ys") auto
  have "e_value c = e_value b"
    using best_in_value [OF assms(2,3) best_in_max_by_key [OF c] bb] .
  with Some c b(3) show ?thesis by (simp add: read_value_best)
qed

subsection \<open>Range reads\<close>

definition in_range :: "bytes \<Rightarrow> bytes option \<Rightarrow> bytes \<Rightarrow> bool" where
  "in_range start end_key k \<longleftrightarrow> \<not> k < start \<and> (case end_key of Some e \<Rightarrow> \<not> k \<ge> e | None \<Rightarrow> True)"

text \<open>Keep the version with the higher transaction id; a tie keeps the one already there.\<close>

definition keep_newer :: "z1_entry \<Rightarrow> (bytes, z1_entry) btmap \<Rightarrow> (bytes, z1_entry) btmap" where
  "keep_newer e best =
     (case hm_get best (key_of (e_key e)) of
        Some cur \<Rightarrow> if e_txn_id cur \<ge> e_txn_id e then best else bt_insert (key_of (e_key e)) e best
      | None \<Rightarrow> bt_insert (key_of (e_key e)) e best)"

lemma bt_wf_keep_newer: "bt_wf best \<Longrightarrow> bt_wf (keep_newer e best)"
  by (simp add: keep_newer_def map_laws split: option.splits)

lemma get_keep_newer:
  "bt_wf best \<Longrightarrow> hm_get (keep_newer e best) k =
     (if k = key_of (e_key e)
      then (case hm_get best k of None \<Rightarrow> Some e | Some b \<Rightarrow> if e_txn_id e > e_txn_id b then Some e else Some b)
      else hm_get best k)"
  by (cases "hm_get best (key_of (e_key e))")
    (simp_all add: keep_newer_def map_of_bt_insert not_le del: map_of_eq_Some_iff)

subsection \<open>The interface\<close>

locale version_layer =
  fixes holds :: "'l \<Rightarrow> z1_entry set"
    and lookup :: "'l \<Rightarrow> z1_key \<Rightarrow> z1_entry list"
    and invar :: "'l \<Rightarrow> bool"
  assumes lookup_holds: "invar l \<Longrightarrow> set (lookup l k) = {e \<in> holds l. e_key e = k}"
begin

definition candidates :: "(z1_entry \<Rightarrow> bool) \<Rightarrow> 'l \<Rightarrow> z1_key \<Rightarrow> z1_entry list" where
  "candidates vis l k = filter vis (lookup l k)"

lemma candidates_holds: "invar l \<Longrightarrow> set (candidates vis l k) = {e \<in> holds l. e_key e = k \<and> vis e}"
  by (auto simp: candidates_def lookup_holds)

lemma candidates_mono:
  "invar l \<Longrightarrow> invar l' \<Longrightarrow> holds l \<subseteq> holds l' \<Longrightarrow> set (candidates vis l k) \<subseteq> set (candidates vis l' k)"
  by (auto simp: candidates_holds)

lemma no_candidates: "invar l \<Longrightarrow> candidates vis l k = [] \<longleftrightarrow> (\<forall>e \<in> holds l. e_key e = k \<longrightarrow> \<not> vis e)"
  by (auto simp: candidates_holds simp flip: set_empty)

end

subsection \<open>Buffers of versions\<close>

text \<open>The three buffers of the memory store and the recent-flush cache are B-tree maps from a
  key and a transaction to the version.\<close>

type_synonym version_buffer = "(z1_key \<times> txn_id, z1_entry) btmap"

definition version_id :: "z1_entry \<Rightarrow> z1_key \<times> txn_id" where
  "version_id e = (e_key e, e_txn_id e)"

definition buffer_insert :: "z1_entry \<Rightarrow> version_buffer \<Rightarrow> version_buffer" where
  "buffer_insert e b = bt_insert (version_id e) e b"

definition buffer_ok :: "version_buffer \<Rightarrow> bool" where
  "buffer_ok b \<longleftrightarrow> bt_wf b \<and> (\<forall>p \<in> set b. fst p = version_id (snd p))"

abbreviation buffer_versions :: "version_buffer \<Rightarrow> z1_entry set" where
  "buffer_versions b \<equiv> snd ` set b"

definition buffer_lookup :: "version_buffer \<Rightarrow> z1_key \<Rightarrow> z1_entry list" where
  "buffer_lookup b k = filter (\<lambda>e. e_key e = k) (map snd b)"

lemma buffer_ok_empty [simp]: "buffer_ok []"
  by (simp add: buffer_ok_def)

lemma buffer_ok_insert: "buffer_ok b \<Longrightarrow> buffer_ok (buffer_insert e b)"
  by (auto simp: buffer_ok_def buffer_insert_def map_laws bt.set_insert)

text \<open>An insertion replaces the version with the same key and transaction.\<close>

lemma versions_insert:
  assumes "buffer_ok b"
  shows "buffer_versions (buffer_insert e b) = {x \<in> buffer_versions b. version_id x \<noteq> version_id e} \<union> {e}"
proof -
  have "set (buffer_insert e b) = {p \<in> set b. fst p \<noteq> version_id e} \<union> {(version_id e, e)}"
    unfolding buffer_insert_def using assms by (intro bt.set_insert) (simp add: buffer_ok_def)
  moreover have "{p \<in> set b. fst p \<noteq> version_id e} = {p \<in> set b. version_id (snd p) \<noteq> version_id e}"
    using assms by (auto simp: buffer_ok_def)
  ultimately show ?thesis by auto
qed

lemma buffer_single_valued: "buffer_ok b \<Longrightarrow> single_valued_versions (buffer_versions b)"
proof (unfold single_valued_versions_def, intro ballI impI)
  fix x y
  assume b: "buffer_ok b" and xy: "x \<in> buffer_versions b" "y \<in> buffer_versions b"
    and eq: "e_key x = e_key y \<and> e_txn_id x = e_txn_id y"
  have "(version_id x, x) \<in> set b" "(version_id y, y) \<in> set b"
    using b xy by (fastforce simp: buffer_ok_def)+
  moreover have "version_id x = version_id y" using eq by (simp add: version_id_def)
  moreover have "hm_wf b" using b by (simp add: buffer_ok_def bt_wf_distinct)
  ultimately show "e_value x = e_value y" by (metis eq_key_imp_eq_value)
qed

lemma set_buffer_lookup: "set (buffer_lookup b k) = {e \<in> buffer_versions b. e_key e = k}"
  by (auto simp: buffer_lookup_def)

lemma buffer_ok_insert_all: "buffer_ok b \<Longrightarrow> buffer_ok (fold buffer_insert es b)"
  by (induction es arbitrary: b) (auto intro: buffer_ok_insert)

text \<open>Inserting into a buffer whose versions agree with the new ones loses nothing.\<close>

lemma versions_insert_all:
  assumes "buffer_ok b" "\<And>x y. x \<in> buffer_versions b \<union> set es \<Longrightarrow> y \<in> buffer_versions b \<union> set es \<Longrightarrow>
    version_id x = version_id y \<Longrightarrow> x = y"
  shows "buffer_versions (fold buffer_insert es b) = buffer_versions b \<union> set es"
  using assms
proof (induction es arbitrary: b)
  case (Cons e es)
  have v: "buffer_versions (buffer_insert e b) = insert e (buffer_versions b)"
    unfolding versions_insert [OF Cons.prems(1)] using Cons.prems(2) [of _ e] by auto
  have "buffer_versions (fold buffer_insert es (buffer_insert e b)) =
      buffer_versions (buffer_insert e b) \<union> set es"
    by (rule Cons.IH [OF buffer_ok_insert [OF Cons.prems(1)]], rule Cons.prems(2)) (auto simp only: v set_simps Un_iff insert_iff)
  then show ?case by (simp add: v)
qed simp

interpretation buffer: version_layer buffer_versions buffer_lookup buffer_ok
  by unfold_locales (rule set_buffer_lookup)

end
