(* ===== verification/File_System.thy ===== *)
theory File_System
  imports Errors
begin

section \<open>The file system the engine runs on\<close>

text \<open>
  A model of what the engine uses of \<^verbatim>\<open>std::fs\<close>. The paths under the data directory are
  the constructors of \<open>path\<close>, one per file name pattern of the source. A file has its
  contents and the contents of its last \<^verbatim>\<open>fsync\<close>; a name that was created, renamed or
  removed keeps its previous file until its directory is synced. Every call first consumes
  one outcome of \<open>script\<close>: when it is a failure the call fails (a write after the given
  number of bytes); when the script is used up, calls succeed. A statement about every
  script therefore covers every pattern of I/O errors, and also a crash at every point: from
  that point on all calls fail and change nothing. What a reader may find after a crash is
  \<open>crash_view\<close>. The field \<open>mono_clock\<close> is what \<^verbatim>\<open>Instant::now()\<close> reads, in milliseconds;
  it stands still within one call of the engine.
\<close>

datatype layer = L2 | L3

datatype path =
    WalSegment u64
  | ReplayFailure
  | PatchFile layer u16 u64
  | CheckpointFile u64
  | LatestPointer
  | LockFile
  | TempFile path nat

datatype dir = DataDir | WalDir | LayerDir layer | CfDir layer u16 | CheckpointDir

fun parent_dir :: "path \<Rightarrow> dir" where
  "parent_dir (WalSegment _) = WalDir"
| "parent_dir ReplayFailure = WalDir"
| "parent_dir (PatchFile l cf _) = CfDir l cf"
| "parent_dir (CheckpointFile _) = CheckpointDir"
| "parent_dir LatestPointer = CheckpointDir"
| "parent_dir LockFile = DataDir"
| "parent_dir (TempFile p _) = parent_dir p"

fun with_ancestors :: "dir \<Rightarrow> dir list" where
  "with_ancestors DataDir = [DataDir]"
| "with_ancestors WalDir = [WalDir, DataDir]"
| "with_ancestors (LayerDir l) = [LayerDir l, DataDir]"
| "with_ancestors (CfDir l cf) = [CfDir l cf, LayerDir l, DataDir]"
| "with_ancestors CheckpointDir = [CheckpointDir, DataDir]"

datatype io_outcome = IoDone | IoFail io_kind nat

record fnode =
  fdata :: bytes
  fdurable :: bytes

record fs =
  files :: "(path, fnode) hmap"
  unsynced :: "(path, fnode option) hmap"
  dirs :: "dir list"
  script :: "io_outcome list"
  mono_clock :: nat

subsection \<open>Calls\<close>

definition next_io :: "fs \<Rightarrow> io_outcome \<times> fs" where
  "next_io s = (case script s of [] \<Rightarrow> (IoDone, s) | x # xs \<Rightarrow> (x, s\<lparr>script := xs\<rparr>))"

definition name_changes :: "path \<Rightarrow> fs \<Rightarrow> fs" where
  "name_changes p s =
     (if hm_contains (unsynced s) p then s
      else s\<lparr>unsynced := hm_insert p (hm_get (files s) p) (unsynced s)\<rparr>)"

definition sys_create_dir_all :: "dir \<Rightarrow> fs \<Rightarrow> unit z1result \<times> fs" where
  "sys_create_dir_all d s =
     (case next_io s of
        (IoFail k _, s') \<Rightarrow> (Inl (Io k), s')
      | (IoDone, s') \<Rightarrow> (Inr (), s'\<lparr>dirs := fold List.insert (with_ancestors d) (dirs s')\<rparr>))"

text \<open>Open with \<^verbatim>\<open>create(true).truncate(true)\<close>.\<close>

definition sys_create :: "path \<Rightarrow> fs \<Rightarrow> unit z1result \<times> fs" where
  "sys_create p s =
     (case next_io s of
        (IoFail k _, s') \<Rightarrow> (Inl (Io k), s')
      | (IoDone, s') \<Rightarrow>
          if parent_dir p \<notin> set (dirs s') then (Inl (Io NotFound), s')
          else case hm_get (files s') p of
                 None \<Rightarrow> (Inr (), (name_changes p s')\<lparr>files := hm_insert p \<lparr>fdata = [], fdurable = []\<rparr> (files s')\<rparr>)
               | Some n \<Rightarrow> (Inr (), s'\<lparr>files := hm_insert p (n\<lparr>fdata := []\<rparr>) (files s')\<rparr>))"

text \<open>Open an existing file.\<close>

definition sys_open :: "path \<Rightarrow> fs \<Rightarrow> unit z1result \<times> fs" where
  "sys_open p s =
     (case next_io s of
        (IoFail k _, s') \<Rightarrow> (Inl (Io k), s')
      | (IoDone, s') \<Rightarrow> (if hm_contains (files s') p then (Inr (), s') else (Inl (Io NotFound), s')))"

definition write_at :: "nat \<Rightarrow> bytes \<Rightarrow> bytes \<Rightarrow> bytes" where
  "write_at pos bs d = take pos d @ replicate (pos - length d) 0 @ bs @ drop (pos + length bs) d"

definition put_bytes :: "path \<Rightarrow> nat \<Rightarrow> bytes \<Rightarrow> fs \<Rightarrow> fs" where
  "put_bytes p pos bs s =
     (case hm_get (files s) p of
        None \<Rightarrow> s
      | Some n \<Rightarrow> s\<lparr>files := hm_insert p (n\<lparr>fdata := write_at pos bs (fdata n)\<rparr>) (files s)\<rparr>)"

text \<open>\<^verbatim>\<open>write_all\<close> through a handle at a position; the number of bytes written is
  returned also when it fails.\<close>

definition sys_write_all :: "path \<Rightarrow> nat \<Rightarrow> bytes \<Rightarrow> fs \<Rightarrow> unit z1result \<times> nat \<times> fs" where
  "sys_write_all p pos bs s =
     (case next_io s of
        (IoFail k n, s') \<Rightarrow>
          (Inl (Io k), length (take n bs), put_bytes p pos (take n bs) s')
      | (IoDone, s') \<Rightarrow> (Inr (), length bs, put_bytes p pos bs s'))"

definition sys_sync :: "path \<Rightarrow> fs \<Rightarrow> unit z1result \<times> fs" where
  "sys_sync p s =
     (case next_io s of
        (IoFail k _, s') \<Rightarrow> (Inl (Io k), s')
      | (IoDone, s') \<Rightarrow>
          (Inr (), case hm_get (files s') p of
                     None \<Rightarrow> s'
                   | Some n \<Rightarrow> s'\<lparr>files := hm_insert p (n\<lparr>fdurable := fdata n\<rparr>) (files s')\<rparr>))"

definition sys_rename :: "path \<Rightarrow> path \<Rightarrow> fs \<Rightarrow> unit z1result \<times> fs" where
  "sys_rename a b s =
     (case next_io s of
        (IoFail k _, s') \<Rightarrow> (Inl (Io k), s')
      | (IoDone, s') \<Rightarrow>
          (case hm_get (files s') a of
             None \<Rightarrow> (Inl (Io NotFound), s')
           | Some n \<Rightarrow>
               let s1 = name_changes b (name_changes a s')
               in (Inr (), s1\<lparr>files := hm_insert b n (hm_remove a (files s1))\<rparr>)))"

definition sys_sync_dir :: "dir \<Rightarrow> fs \<Rightarrow> unit z1result \<times> fs" where
  "sys_sync_dir d s =
     (case next_io s of
        (IoFail k _, s') \<Rightarrow> (Inl (Io k), s')
      | (IoDone, s') \<Rightarrow>
          if d \<notin> set (dirs s') then (Inl (Io NotFound), s')
          else (Inr (), s'\<lparr>unsynced := filter (\<lambda>q. parent_dir (fst q) \<noteq> d) (unsynced s')\<rparr>))"

definition sys_read :: "path \<Rightarrow> fs \<Rightarrow> bytes z1result \<times> fs" where
  "sys_read p s =
     (case next_io s of
        (IoFail k _, s') \<Rightarrow> (Inl (Io k), s')
      | (IoDone, s') \<Rightarrow>
          (case hm_get (files s') p of
             None \<Rightarrow> (Inl (Io NotFound), s')
           | Some n \<Rightarrow> (Inr (fdata n), s')))"

definition sys_remove :: "path \<Rightarrow> fs \<Rightarrow> unit z1result \<times> fs" where
  "sys_remove p s =
     (case next_io s of
        (IoFail k _, s') \<Rightarrow> (Inl (Io k), s')
      | (IoDone, s') \<Rightarrow>
          if hm_contains (files s') p
          then (Inr (), (name_changes p s')\<lparr>files := hm_remove p (files s')\<rparr>)
          else (Inl (Io NotFound), s'))"

definition dir_files :: "dir \<Rightarrow> fs \<Rightarrow> path list" where
  "dir_files d s = filter (\<lambda>p. parent_dir p = d) (map fst (files s))"

definition sys_read_dir :: "dir \<Rightarrow> fs \<Rightarrow> path list z1result \<times> fs" where
  "sys_read_dir d s =
     (case next_io s of
        (IoFail k _, s') \<Rightarrow> (Inl (Io k), s')
      | (IoDone, s') \<Rightarrow>
          if d \<in> set (dirs s') then (Inr (dir_files d s'), s') else (Inl (Io NotFound), s'))"

definition sys_remove_dir_all :: "dir \<Rightarrow> fs \<Rightarrow> unit z1result \<times> fs" where
  "sys_remove_dir_all d s =
     (case next_io s of
        (IoFail k _, s') \<Rightarrow> (Inl (Io k), s')
      | (IoDone, s') \<Rightarrow>
          if d \<in> set (dirs s')
          then (Inr (), (fold name_changes (dir_files d s') s')
                  \<lparr>files := filter (\<lambda>q. parent_dir (fst q) \<noteq> d) (files s'),
                   dirs := removeAll d (dirs s')\<rparr>)
          else (Inl (Io NotFound), s'))"

lemmas sys_defs = sys_create_dir_all_def sys_create_def sys_open_def sys_write_all_def sys_sync_def
  sys_rename_def sys_sync_dir_def sys_read_def sys_remove_def sys_read_dir_def sys_remove_dir_all_def

subsection \<open>Crashes\<close>

definition is_prefix :: "bytes \<Rightarrow> bytes \<Rightarrow> bool" where
  "is_prefix a b \<longleftrightarrow> take (length a) b = a"

text \<open>After a crash a file holds at least what was synced; of bytes appended since then some
  prefix survives, and if synced bytes were overwritten nothing is known.\<close>

definition crash_node :: "fnode \<Rightarrow> bytes \<Rightarrow> bool" where
  "crash_node n b \<longleftrightarrow>
     (is_prefix (fdurable n) (fdata n) \<longrightarrow>
        (\<exists>i. length (fdurable n) \<le> i \<and> i \<le> length (fdata n) \<and> b = take i (fdata n)))"

definition crash_entry :: "fnode option \<Rightarrow> bytes option \<Rightarrow> bool" where
  "crash_entry e r \<longleftrightarrow>
     (case e of None \<Rightarrow> r = None | Some n \<Rightarrow> \<exists>b. r = Some b \<and> crash_node n b)"

definition crash_view :: "fs \<Rightarrow> path \<Rightarrow> bytes option \<Rightarrow> bool" where
  "crash_view s p r \<longleftrightarrow>
     crash_entry (hm_get (files s) p) r \<or>
     (\<exists>old. hm_get (unsynced s) p = Some old \<and> crash_entry old r)"

subsection \<open>Facts\<close>

lemma next_io_frame [simp]:
  "files (snd (next_io s)) = files s" "unsynced (snd (next_io s)) = unsynced s"
  "dirs (snd (next_io s)) = dirs s"
  by (simp_all add: next_io_def split: list.splits)

lemma next_io_no_faults [simp]: "script s = [] \<Longrightarrow> next_io s = (IoDone, s)"
  by (simp add: next_io_def)

text \<open>Two states that differ in the script only.\<close>

definition same_files :: "fs \<Rightarrow> fs \<Rightarrow> bool" where
  "same_files s s' \<longleftrightarrow> files s' = files s \<and> unsynced s' = unsynced s \<and> dirs s' = dirs s"

lemma same_files_next_io: "next_io s = (x, s') \<Longrightarrow> same_files s s'"
  using next_io_frame [of s] by (simp add: same_files_def)

lemma same_files_refl [simp]: "same_files s s"
  by (simp add: same_files_def)

lemma same_files_trans: "same_files a b \<Longrightarrow> same_files b c \<Longrightarrow> same_files a c"
  by (simp add: same_files_def)

lemma crash_view_same: "same_files s s' \<Longrightarrow> crash_view s' p r = crash_view s p r"
  by (simp add: same_files_def crash_view_def)

lemma name_changes_frame [simp]:
  "files (name_changes p s) = files s" "dirs (name_changes p s) = dirs s"
  "script (name_changes p s) = script s"
  by (simp_all add: name_changes_def)

lemma unsynced_name_changes:
  "hm_get (unsynced (name_changes p s)) q =
     (if q = p then Some (case hm_get (unsynced s) p of None \<Rightarrow> hm_get (files s) p | Some old \<Rightarrow> old)
      else hm_get (unsynced s) q)"
proof -
  have "hm_contains (unsynced s) p \<longleftrightarrow> hm_get (unsynced s) p \<noteq> None"
    by (simp add: map_of_eq_None_iff)
  then show ?thesis by (auto simp: name_changes_def map_laws)
qed

lemma crash_node_synced [simp]: "crash_node \<lparr>fdata = d, fdurable = d\<rparr> b \<longleftrightarrow> b = d"
  by (auto simp: crash_node_def is_prefix_def)

text \<open>The old file of a name stays a possible outcome, and no new outcome appears at names a
  call does not touch.\<close>

lemma crash_view_name_changes: "crash_view (name_changes p s) q r \<longleftrightarrow> crash_view s q r"
  by (cases "hm_get (unsynced s) p") (auto simp: crash_view_def unsynced_name_changes)

lemma io_frame:
  assumes "next_io s = (x, s')"
  shows "files s' = files s" "dirs s' = dirs s" "unsynced s' = unsynced s" "mono_clock s' = mono_clock s"
  using assms by (auto simp: next_io_def split: list.splits)

lemma create_dir_Inr:
  assumes "sys_create_dir_all d s = (Inr x, s')"
  shows "files s' = files s" "d \<in> set (dirs s')" "set (dirs s) \<subseteq> set (dirs s')"
proof -
  obtain y s1 where io: "next_io s = (y, s1)" by fastforce
  have s': "s' = s1\<lparr>dirs := fold List.insert (with_ancestors d) (dirs s1)\<rparr>"
    using assms by (auto simp: sys_create_dir_all_def io split: io_outcome.splits)
  show "files s' = files s" by (simp add: s' io_frame [OF io])
  show "d \<in> set (dirs s')" "set (dirs s) \<subseteq> set (dirs s')"
    unfolding s' by (cases d; auto simp: io_frame [OF io])+
qed

lemma read_dir_Inr:
  assumes "sys_read_dir d s = (Inr ps, s')"
  shows "ps = dir_files d s" "files s' = files s" "dirs s' = dirs s" "d \<in> set (dirs s)"
proof -
  obtain y s1 where io: "next_io s = (y, s1)" by fastforce
  have "ps = dir_files d s1" "s' = s1" "d \<in> set (dirs s1)"
    using assms by (auto simp: sys_read_dir_def io split: io_outcome.splits if_splits)
  then show "ps = dir_files d s" "files s' = files s" "dirs s' = dirs s" "d \<in> set (dirs s)"
    by (simp_all add: dir_files_def io_frame [OF io])
qed

lemma create_new_Inr:
  assumes "sys_create p s = (Inr x, s')" "hm_get (files s) p = None"
  shows "files s' = hm_insert p \<lparr>fdata = [], fdurable = []\<rparr> (files s)" "dirs s' = dirs s"
proof -
  obtain y s1 where io: "next_io s = (y, s1)" by fastforce
  have "s' = (name_changes p s1)\<lparr>files := hm_insert p \<lparr>fdata = [], fdurable = []\<rparr> (files s1)\<rparr>"
    using assms by (auto simp: sys_create_def io io_frame [OF io] split: io_outcome.splits if_splits)
  then show "files s' = hm_insert p \<lparr>fdata = [], fdurable = []\<rparr> (files s)" "dirs s' = dirs s"
    by (simp_all add: io_frame [OF io])
qed

lemma read_Inr:
  assumes "sys_read p s = (Inr d, s')"
  shows "map_option fdata (hm_get (files s) p) = Some d" "same_files s s'"
proof -
  obtain y s1 where io: "next_io s = (y, s1)" by fastforce
  show "map_option fdata (hm_get (files s) p) = Some d" "same_files s s'"
    using assms same_files_next_io [OF io]
    by (auto simp: sys_read_def io io_frame [OF io] split: io_outcome.splits option.splits)
qed

end
