(* ===== verification/Wal.thy ===== *)
theory Wal
  imports File_System Codec "HOL-Library.Sublist"
begin

section \<open>The write-ahead log\<close>

text \<open>
  Models \<^verbatim>\<open>src/src/wal/mod.rs\<close> as compiled for Unix (\<open>cfg_windows\<close> is false, and the
  exemption of some sync errors is empty). A segment is a file \<^verbatim>\<open>WalSegment seq\<close>; the
  writer holds the segment's handle as its sequence number and the position of the file
  cursor. Byte counts are natural numbers (they stay far below the 64-bit range), sequence
  numbers are 64-bit. The postcard encoding of an entry and the checksum are the parameters
  of type \<open>wal_codec\<close>. Reads of a regular file return all available bytes up to the
  buffer size.
\<close>

definition cfg_windows :: bool where
  "cfg_windows = False"

datatype wal_record =
    WalPut u16 bytes "bytes option"
  | WalBegin
  | WalCommit u64 u64
  | WalRollback
  | WalCheckpoint u64

record wal_entry =
  we_txn_id :: txn_id
  we_record :: wal_record

datatype sync_policy = SyncEach | GroupCommitStrict | FlushOnly

record group_commit_config =
  max_batch_size :: nat
  max_wait_ms :: u64
  policy :: sync_policy

definition default_group_commit_config :: group_commit_config where
  "default_group_commit_config =
     \<lparr>max_batch_size = 100, max_wait_ms = 50, policy = GroupCommitStrict\<rparr>"

record wal_config =
  max_file_size :: nat
  enabled :: bool
  group_commit :: "group_commit_config option"
  cfg_write_through :: bool

definition default_wal_config :: wal_config where
  "default_wal_config =
     \<lparr>max_file_size = 128 * 1024 * 1024, enabled = True,
      group_commit = Some default_group_commit_config, cfg_write_through = cfg_windows\<rparr>"

definition sync_policy_of :: "wal_config \<Rightarrow> sync_policy" where
  "sync_policy_of cfg = unwrap_or GroupCommitStrict (map_option policy (group_commit cfg))"

record wal_codec =
  wc_ser :: "wal_entry \<Rightarrow> bytes option"
  wc_de :: "bytes \<Rightarrow> wal_entry option"
  wc_crc :: "bytes \<Rightarrow> u32"

record wal_writer =
  w_seq :: u64
  w_pos :: nat
  w_write_through :: bool
  prev_segments_bytes :: nat
  segment_bytes :: nat
  queue :: "wal_entry list"
  w_max_file_size :: nat
  last_flush :: nat
  w_config :: wal_config

definition max_wal_record_len :: nat where
  "max_wal_record_len = 64 * 1024 * 1024"

subsection \<open>Writing\<close>

definition encode_record :: "wal_codec \<Rightarrow> wal_entry \<Rightarrow> bytes z1result" where
  "encode_record c entry =
     (case wc_ser c entry of
        None \<Rightarrow> Inl (Serialization PostcardEncode)
      | Some payload \<Rightarrow>
          if length payload > max_wal_record_len
          then Inl (Serialization (WalRecordTooLarge (length payload)))
          else Inr (u32_to_le (of_nat (length payload)) @ u32_to_le (wc_crc c payload) @ payload))"

text \<open>Without Windows, write-through opening is a plain open of an existing file.\<close>

definition open_write_through :: "path \<Rightarrow> fs \<Rightarrow> unit z1result \<times> fs" where
  "open_write_through p s = sys_open p s"

definition rotate_open :: "bool \<Rightarrow> path \<Rightarrow> fs \<Rightarrow> unit z1result \<times> fs" where
  "rotate_open write_through p s =
     (if write_through then open_write_through p s else sys_create p s)"

definition wal_rotate :: "wal_writer \<Rightarrow> fs \<Rightarrow> unit z1result \<times> wal_writer \<times> fs" where
  "wal_rotate w s =
     (case (if w_write_through w then (Inr (), s) else sys_sync (WalSegment (w_seq w)) s) of
        (Inl e, s1) \<Rightarrow> (Inl e, w, s1)
      | (Inr _, s1) \<Rightarrow>
          (let w1 = w\<lparr>prev_segments_bytes := prev_segments_bytes w + segment_bytes w\<rparr>;
               next_seq = w_seq w + 1
           in case rotate_open (w_write_through w) (WalSegment next_seq) s1 of
                (Inl e, s2) \<Rightarrow> (Inl e, w1, s2)
              | (Inr _, s2) \<Rightarrow> (Inr (), w1\<lparr>w_seq := next_seq, w_pos := 0, segment_bytes := 0\<rparr>, s2)))"

definition append_encoded :: "bytes \<Rightarrow> wal_writer \<Rightarrow> fs \<Rightarrow> unit z1result \<times> wal_writer \<times> fs" where
  "append_encoded bs w s =
     (case (if segment_bytes w + length bs > w_max_file_size w \<and> segment_bytes w > 0
            then wal_rotate w s else (Inr (), w, s)) of
        (Inl e, w1, s1) \<Rightarrow> (Inl e, w1, s1)
      | (Inr _, w1, s1) \<Rightarrow>
          (case sys_write_all (WalSegment (w_seq w1)) (w_pos w1) bs s1 of
             (Inl e, n, s2) \<Rightarrow> (Inl e, w1\<lparr>w_pos := w_pos w1 + n\<rparr>, s2)
           | (Inr _, n, s2) \<Rightarrow>
               (Inr (), w1\<lparr>w_pos := w_pos w1 + n, segment_bytes := segment_bytes w1 + length bs\<rparr>, s2)))"

definition inner_flush_and_sync :: "wal_writer \<Rightarrow> fs \<Rightarrow> unit z1result \<times> wal_writer \<times> fs" where
  "inner_flush_and_sync w s =
     (if w_write_through w then (Inr (), w\<lparr>last_flush := mono_clock s\<rparr>, s)
      else case next_io s of
             (IoFail k _, s1) \<Rightarrow> (Inl (Io k), w, s1)
           | (IoDone, s1) \<Rightarrow>
               (case sys_sync (WalSegment (w_seq w)) s1 of
                  (Inl e, s2) \<Rightarrow> (Inl e, w, s2)
                | (Inr _, s2) \<Rightarrow> (Inr (), w\<lparr>last_flush := mono_clock s2\<rparr>, s2)))"

fun append_entries ::
    "wal_codec \<Rightarrow> wal_entry list \<Rightarrow> wal_writer \<Rightarrow> fs \<Rightarrow> unit z1result \<times> wal_writer \<times> fs" where
  "append_entries c [] w s = (Inr (), w, s)"
| "append_entries c (e # es) w s =
     (case encode_record c e of
        Inl err \<Rightarrow> (Inl err, w, s)
      | Inr bs \<Rightarrow>
          (case append_encoded bs w s of
             (Inl err, w1, s1) \<Rightarrow> (Inl err, w1, s1)
           | (Inr _, w1, s1) \<Rightarrow> append_entries c es w1 s1))"

text \<open>The queue is moved out before it is encoded.\<close>

definition flush_queue :: "wal_codec \<Rightarrow> wal_writer \<Rightarrow> fs \<Rightarrow> unit z1result \<times> wal_writer \<times> fs" where
  "flush_queue c w s =
     (if queue w = [] then (Inr (), w, s)
      else case append_entries c (queue w) (w\<lparr>queue := []\<rparr>) s of
             (Inl e, w1, s1) \<Rightarrow> (Inl e, w1, s1)
           | (Inr _, w1, s1) \<Rightarrow> inner_flush_and_sync w1 s1)"

definition wal_append ::
    "wal_codec \<Rightarrow> txn_id \<Rightarrow> wal_record \<Rightarrow> wal_writer \<Rightarrow> fs \<Rightarrow> unit z1result \<times> wal_writer \<times> fs" where
  "wal_append c t r w s =
     (if \<not> enabled (w_config w) then (Inr (), w, s)
      else case encode_record c \<lparr>we_txn_id = t, we_record = r\<rparr> of
             Inl e \<Rightarrow> (Inl e, w, s)
           | Inr bs \<Rightarrow> append_encoded bs w s)"

definition append_durable ::
    "wal_codec \<Rightarrow> txn_id \<Rightarrow> wal_record \<Rightarrow> wal_writer \<Rightarrow> fs \<Rightarrow> unit z1result \<times> wal_writer \<times> fs" where
  "append_durable c t r w s =
     (if \<not> enabled (w_config w) then (Inr (), w, s)
      else
        let entry = \<lparr>we_txn_id = t, we_record = r\<rparr> in
        case sync_policy_of (w_config w) of
          GroupCommitStrict \<Rightarrow>
            (let batch_size = unwrap_or 100 (map_option max_batch_size (group_commit (w_config w)));
                 w1 = w\<lparr>queue := queue w @ [entry]\<rparr>
             in if length (queue w1) \<ge> batch_size then flush_queue c w1 s else (Inr (), w1, s))
        | _ \<Rightarrow>
            (case encode_record c entry of
               Inl e \<Rightarrow> (Inl e, w, s)
             | Inr bs \<Rightarrow>
                 (case append_encoded bs w s of
                    (Inl e, w1, s1) \<Rightarrow> (Inl e, w1, s1)
                  | (Inr _, w1, s1) \<Rightarrow> inner_flush_and_sync w1 s1)))"

definition flush_pending :: "wal_codec \<Rightarrow> wal_writer \<Rightarrow> fs \<Rightarrow> nat z1result \<times> wal_writer \<times> fs" where
  "flush_pending c w s =
     (case flush_queue c w s of
        (Inl e, w1, s1) \<Rightarrow> (Inl e, w1, s1)
      | (Inr _, w1, s1) \<Rightarrow> (Inr (length (queue w)), w1, s1))"

definition flush_and_sync :: "wal_codec \<Rightarrow> wal_writer \<Rightarrow> fs \<Rightarrow> unit z1result \<times> wal_writer \<times> fs" where
  "flush_and_sync c w s =
     (case flush_queue c w s of
        (Inl e, w1, s1) \<Rightarrow> (Inl e, w1, s1)
      | (Inr _, w1, s1) \<Rightarrow> inner_flush_and_sync w1 s1)"

text \<open>Dropping the writer flushes a non-empty queue and ignores errors.\<close>

definition wal_drop :: "wal_codec \<Rightarrow> wal_writer \<Rightarrow> fs \<Rightarrow> fs" where
  "wal_drop c w s = (if queue w = [] then s else snd (snd (flush_queue c w s)))"

subsection \<open>Segments\<close>

fun segment_seq :: "path \<Rightarrow> u64 option" where
  "segment_seq (WalSegment q) = Some q"
| "segment_seq _ = None"

fun highest_segment :: "path list \<Rightarrow> u64 option \<Rightarrow> u64 option" where
  "highest_segment [] best = best"
| "highest_segment (p # ps) best =
     highest_segment ps
       (case segment_seq p of
          None \<Rightarrow> best
        | Some q \<Rightarrow> (case best of None \<Rightarrow> Some q | Some b \<Rightarrow> if q > b then Some q else best))"

text \<open>The sequence number and size of the segment; its handle starts at position 0.\<close>

definition open_latest_segment :: "bool \<Rightarrow> fs \<Rightarrow> (u64 \<times> nat) z1result \<times> fs" where
  "open_latest_segment write_through s =
     (case sys_read_dir WalDir s of
        (Inl e, s1) \<Rightarrow> (Inl e, s1)
      | (Inr ps, s1) \<Rightarrow>
          (case highest_segment ps None of
             Some q \<Rightarrow>
               (case (if write_through then open_write_through (WalSegment q) s1
                      else sys_open (WalSegment q) s1) of
                  (Inl e, s2) \<Rightarrow> (Inl e, s2)
                | (Inr _, s2) \<Rightarrow>
                    (case sys_read (WalSegment q) s2 of
                       (Inl e, s3) \<Rightarrow> (Inl e, s3)
                     | (Inr d, s3) \<Rightarrow> (Inr (q, length d), s3)))
           | None \<Rightarrow>
               (case rotate_open write_through (WalSegment 0) s1 of
                  (Inl e, s2) \<Rightarrow> (Inl e, s2)
                | (Inr _, s2) \<Rightarrow> (Inr (0, 0), s2))))"

definition wal_open :: "wal_config \<Rightarrow> fs \<Rightarrow> wal_writer z1result \<times> fs" where
  "wal_open cfg s =
     (case sys_create_dir_all WalDir s of
        (Inl e, s1) \<Rightarrow> (Inl e, s1)
      | (Inr _, s1) \<Rightarrow>
          (let write_through = (cfg_windows \<and> cfg_write_through cfg) in
           case open_latest_segment write_through s1 of
             (Inl e, s2) \<Rightarrow> (Inl e, s2)
           | (Inr (q, len), s2) \<Rightarrow>
               (Inr \<lparr>w_seq = q, w_pos = 0, w_write_through = write_through, prev_segments_bytes = 0,
                     segment_bytes = len, queue = [], w_max_file_size = max_file_size cfg,
                     last_flush = mono_clock s2, w_config = cfg\<rparr>, s2)))"

definition wal_size_bytes :: "wal_writer \<Rightarrow> fs \<Rightarrow> nat \<times> fs" where
  "wal_size_bytes w s =
     (if w_write_through w then (segment_bytes w + prev_segments_bytes w, s)
      else case sys_read_dir WalDir s of
             (Inl _, s1) \<Rightarrow> (0, s1)
           | (Inr ps, s1) \<Rightarrow>
               (sum_list (map (\<lambda>p. case hm_get (files s1) p of None \<Rightarrow> 0 | Some n \<Rightarrow> length (fdata n)) ps), s1))"

fun remove_segments :: "u64 \<Rightarrow> path list \<Rightarrow> nat \<Rightarrow> fs \<Rightarrow> nat z1result \<times> fs" where
  "remove_segments pos [] removed s = (Inr removed, s)"
| "remove_segments pos (p # ps) removed s =
     (case segment_seq p of
        Some q \<Rightarrow>
          if q < pos then
            (case sys_remove p s of
               (Inl e, s1) \<Rightarrow> (Inl e, s1)
             | (Inr _, s1) \<Rightarrow> remove_segments pos ps (removed + 1) s1)
          else remove_segments pos ps removed s
      | None \<Rightarrow> remove_segments pos ps removed s)"

definition truncate_before :: "u64 \<Rightarrow> wal_writer \<Rightarrow> fs \<Rightarrow> nat z1result \<times> fs" where
  "truncate_before pos w s =
     (if queue w \<noteq> [] then (Inl (Wal (UnflushedQueue (length (queue w)))), s)
      else case sys_read_dir WalDir s of
             (Inl e, s1) \<Rightarrow> (Inl e, s1)
           | (Inr ps, s1) \<Rightarrow> remove_segments pos ps 0 s1)"

definition wal_position :: "wal_writer \<Rightarrow> u64" where
  "wal_position w = w_seq w"

definition ms_since_last_flush :: "wal_writer \<Rightarrow> fs \<Rightarrow> nat" where
  "ms_since_last_flush w s = mono_clock s - last_flush w"

subsection \<open>Replay\<close>

text \<open>Reading one record from the rest of a segment; the rest after the record is returned.\<close>

definition read_one_record ::
    "wal_codec \<Rightarrow> bytes \<Rightarrow> fs \<Rightarrow> (wal_entry \<times> bytes) option z1result \<times> fs" where
  "read_one_record c bs s =
     (case next_io s of
        (IoFail k _, s1) \<Rightarrow> (Inl (Io k), s1)
      | (IoDone, s1) \<Rightarrow>
          (let header = take 8 bs; read = length header in
           if read = 0 then (Inr None, s1)
           else if read \<noteq> 8 then (Inl (Deserialize WalTruncatedHeader), s1)
           else
             let len = unat (u32_from_le (take 4 header));
                 stored_crc = u32_from_le (drop 4 header) in
             if len > max_wal_record_len then (Inl (Deserialize (WalLengthOverLimit len)), s1)
             else
               case next_io s1 of
                 (IoFail k _, s2) \<Rightarrow>
                   (Inl (if k = UnexpectedEof then Deserialize WalTruncatedPayload else Io k), s2)
               | (IoDone, s2) \<Rightarrow>
                   if length (drop 8 bs) < len then (Inl (Deserialize WalTruncatedPayload), s2)
                   else
                     let payload = take len (drop 8 bs); actual_crc = wc_crc c payload in
                     if actual_crc \<noteq> stored_crc
                     then (Inl (Deserialize (CrcMismatch stored_crc actual_crc)), s2)
                     else case wc_de c payload of
                            None \<Rightarrow> (Inl (Deserialize PostcardDecode), s2)
                          | Some e \<Rightarrow> (Inr (Some (e, drop (8 + len) bs)), s2)))"

definition structurally_truncated :: "bytes \<Rightarrow> bool" where
  "structurally_truncated bs \<longleftrightarrow>
     (let header_read = length (take 8 bs);
          header = take 8 bs @ replicate (8 - header_read) 0;
          declared_len = unat (u32_from_le (take 4 header));
          beyond_end = 8 + declared_len > length bs;
          over_limit = declared_len > max_wal_record_len
      in (header_read < 8 \<or> beyond_end) \<and> \<not> over_limit)"

lemma read_one_record_shorter:
  "read_one_record c bs s = (Inr (Some (e, rest)), s') \<Longrightarrow> length rest < length bs"
  by (auto simp: read_one_record_def Let_def split: prod.splits io_outcome.splits if_splits option.splits)

text \<open>The record loop over the rest of a segment. The first outcome is that of the calls that
  look at the position, the size and the header before the record is read.\<close>

function replay_segment ::
    "wal_codec \<Rightarrow> bool \<Rightarrow> bytes \<Rightarrow> wal_entry list \<Rightarrow> fs \<Rightarrow> wal_entry list z1result \<times> fs" where
  "replay_segment c is_last bs out s =
     (case next_io s of
        (IoFail k _, s1) \<Rightarrow> (Inl (Io k), s1)
      | (IoDone, s1) \<Rightarrow>
          (case read_one_record c bs s1 of
             (Inr (Some (e, rest)), s2) \<Rightarrow> replay_segment c is_last rest (out @ [e]) s2
           | (Inr None, s2) \<Rightarrow> (Inr out, s2)
           | (Inl err, s2) \<Rightarrow>
               if is_last \<and> structurally_truncated bs then (Inr out, s2) else (Inl err, s2)))"
  by pat_completeness auto

termination
  by (relation "measure (\<lambda>(_, _, bs, _, _). length bs)") (auto dest!: read_one_record_shorter [OF sym])

declare replay_segment.simps [simp del]

fun replay_segments ::
    "wal_codec \<Rightarrow> u64 list \<Rightarrow> wal_entry list \<Rightarrow> fs \<Rightarrow> wal_entry list z1result \<times> fs" where
  "replay_segments c [] out s = (Inr out, s)"
| "replay_segments c (q # qs) out s =
     (case sys_read (WalSegment q) s of
        (Inl e, s1) \<Rightarrow> (Inl e, s1)
      | (Inr d, s1) \<Rightarrow>
          (case replay_segment c (qs = []) d out s1 of
             (Inl e, s2) \<Rightarrow> (Inl e, s2)
           | (Inr out', s2) \<Rightarrow> replay_segments c qs out' s2))"

definition replay_all :: "wal_codec \<Rightarrow> fs \<Rightarrow> wal_entry list z1result \<times> fs" where
  "replay_all c s =
     (case sys_read_dir WalDir s of
        (Inl e, s1) \<Rightarrow> (Inl e, s1)
      | (Inr ps, s1) \<Rightarrow> replay_segments c (sort (List.map_filter segment_seq ps)) [] s1)"

subsection \<open>Writing touches segments only\<close>

definition wal_only :: "fs \<Rightarrow> fs \<Rightarrow> bool" where
  "wal_only s s' \<longleftrightarrow> dirs s' = dirs s \<and> (\<forall>p. segment_seq p = None \<longrightarrow> hm_get (files s') p = hm_get (files s) p)"

lemma wal_only_refl [simp]: "wal_only s s"
  by (simp add: wal_only_def)

lemma wal_only_trans [trans]: "wal_only a b \<Longrightarrow> wal_only b c \<Longrightarrow> wal_only a c"
  by (simp add: wal_only_def)

lemma wal_only_io: "next_io s = (x, s') \<Longrightarrow> wal_only s s'"
  by (auto simp: wal_only_def next_io_def split: list.splits)

lemma wal_only_write: "sys_write_all (WalSegment q) pos bs s = (r, n, s') \<Longrightarrow> wal_only s s'"
  by (auto simp: sys_write_all_def put_bytes_def wal_only_def next_io_def map_laws
      split: prod.splits io_outcome.splits option.splits list.splits)

lemma wal_only_sync: "sys_sync (WalSegment q) s = (r, s') \<Longrightarrow> wal_only s s'"
  by (auto simp: sys_sync_def wal_only_def next_io_def map_laws
      split: prod.splits io_outcome.splits option.splits list.splits)

lemma wal_only_rotate_open: "rotate_open wt (WalSegment q) s = (r, s') \<Longrightarrow> wal_only s s'"
  by (auto simp: rotate_open_def open_write_through_def sys_open_def sys_create_def wal_only_def next_io_def map_laws
      split: prod.splits io_outcome.splits option.splits list.splits if_splits)

lemma wal_only_rotate: "wal_rotate w s = (r, w', s') \<Longrightarrow> wal_only s s'"
  by (auto simp: wal_rotate_def Let_def split: if_splits prod.splits sum.splits
      dest!: wal_only_sync wal_only_rotate_open intro: wal_only_trans)

lemma wal_only_append_encoded: "append_encoded bs w s = (r, w', s') \<Longrightarrow> wal_only s s'"
  by (auto simp: append_encoded_def split: if_splits prod.splits sum.splits
      dest!: wal_only_rotate wal_only_write intro: wal_only_trans)

lemma wal_only_inner_sync: "inner_flush_and_sync w s = (r, w', s') \<Longrightarrow> wal_only s s'"
  by (auto simp: inner_flush_and_sync_def split: if_splits prod.splits sum.splits io_outcome.splits
      dest!: wal_only_io wal_only_sync intro: wal_only_trans)

lemma wal_only_append_entries: "append_entries c es w s = (r, w', s') \<Longrightarrow> wal_only s s'"
  by (induction es arbitrary: w s)
    (auto split: sum.splits prod.splits dest!: wal_only_append_encoded intro: wal_only_trans)

lemma wal_only_flush_queue: "flush_queue c w s = (r, w', s') \<Longrightarrow> wal_only s s'"
  by (auto simp: flush_queue_def split: if_splits prod.splits sum.splits
      dest!: wal_only_append_entries wal_only_inner_sync intro: wal_only_trans)

lemma wal_only_calls:
  "wal_append c t rec w s = (r, w', s') \<Longrightarrow> wal_only s s'"
  "append_durable c t rec w s = (r, w', s') \<Longrightarrow> wal_only s s'"
  "flush_and_sync c w s = (r, w', s') \<Longrightarrow> wal_only s s'"
  by (auto simp: wal_append_def append_durable_def flush_and_sync_def Let_def
      split: if_splits prod.splits sum.splits sync_policy.splits
      dest!: wal_only_append_encoded wal_only_inner_sync wal_only_flush_queue intro: wal_only_trans)

end
