(* ===== verification/Mem.thy ===== *)
theory Mem
  imports Version_Layer Wal
begin

section \<open>The memory store\<close>

text \<open>
  Models \<^verbatim>\<open>src/src/store/mem.rs\<close> and \<^verbatim>\<open>src/src/store/config.rs\<close>. The three buffers
  (hot, cold and the snapshot kept for readers during a flush) are maps from a key and a
  transaction to the version; \<open>cold\<close> is never filled by the current code. The attached WAL
  writer is shared with the engine and is passed along with the file system. The traces
  printed for one particular transaction id are output only and left out.
\<close>

datatype sync_level = Immediate | Batch u64 nat | Async

record mem_store =
  hot :: version_buffer
  cold :: version_buffer
  snap_buf :: version_buffer
  hot_size_bytes :: u64
  flush_threshold :: nat
  mem_sync_level :: sync_level
  batch_pending :: u64

definition mem_new :: "nat \<Rightarrow> sync_level \<Rightarrow> mem_store" where
  "mem_new threshold level =
     \<lparr>hot = [], cold = [], snap_buf = [], hot_size_bytes = 0, flush_threshold = threshold,
      mem_sync_level = level, batch_pending = 0\<rparr>"

definition mem_default :: mem_store where
  "mem_default = mem_new (64 * 1024 * 1024) (Batch 100 1000)"

definition estimate_size :: "z1_entry \<Rightarrow> u64" where
  "estimate_size e =
     (let key_size = of_nat (length (key_of (e_key e))) + 2;
          value_size = (case e_value e of Some v \<Rightarrow> of_nat (length v) | None \<Rightarrow> 0)
      in key_size + value_size + 32)"

definition mem_insert :: "z1_entry \<Rightarrow> mem_store \<Rightarrow> mem_store" where
  "mem_insert e m = m\<lparr>hot := buffer_insert e (hot m), hot_size_bytes := hot_size_bytes m + estimate_size e\<rparr>"

definition put_record :: "z1_entry \<Rightarrow> wal_record" where
  "put_record e =
     (case e_value e of
        Some v \<Rightarrow> WalPut (cf_of (e_key e)) (key_of (e_key e)) (Some v)
      | None \<Rightarrow> WalPut (cf_of (e_key e)) (key_of (e_key e)) None)"

text \<open>Writing to the log before memory, by synchronisation level. The asynchronous level
  ignores the result of the append.\<close>

definition put_wal ::
    "wal_codec \<Rightarrow> z1_entry \<Rightarrow> mem_store \<Rightarrow> wal_writer \<Rightarrow> fs \<Rightarrow>
     unit z1result \<times> mem_store \<times> wal_writer \<times> fs" where
  "put_wal c e m w s =
     (case mem_sync_level m of
        Immediate \<Rightarrow>
          (case append_durable c (e_txn_id e) (put_record e) w s of (r, w1, s1) \<Rightarrow> (r, m, w1, s1))
      | Batch ms max_pending \<Rightarrow>
          (let m1 = m\<lparr>batch_pending := batch_pending m + 1\<rparr> in
           case wal_append c (e_txn_id e) (put_record e) w s of
             (Inl err, w1, s1) \<Rightarrow> (Inl err, m1, w1, s1)
           | (Inr _, w1, s1) \<Rightarrow>
               if batch_pending m1 \<ge> of_nat max_pending \<or> of_nat (ms_since_last_flush w1 s1) \<ge> ms then
                 (case flush_and_sync c w1 s1 of
                    (Inl err, w2, s2) \<Rightarrow> (Inl err, m1, w2, s2)
                  | (Inr _, w2, s2) \<Rightarrow> (Inr (), m1\<lparr>batch_pending := 0\<rparr>, w2, s2))
               else (Inr (), m1, w1, s1))
      | Async \<Rightarrow>
          (case wal_append c (e_txn_id e) (put_record e) w s of (_, w1, s1) \<Rightarrow> (Inr (), m, w1, s1)))"

definition mem_put ::
    "wal_codec \<Rightarrow> z1_entry \<Rightarrow> mem_store \<Rightarrow> wal_writer option \<Rightarrow> fs \<Rightarrow>
     unit z1result \<times> mem_store \<times> wal_writer option \<times> fs" where
  "mem_put c e m wal s =
     (case wal of
        None \<Rightarrow> (Inr (), mem_insert e m, None, s)
      | Some w \<Rightarrow>
          (case put_wal c e m w s of
             (Inl err, m1, w1, s1) \<Rightarrow> (Inl err, m1, Some w1, s1)
           | (Inr _, m1, w1, s1) \<Rightarrow> (Inr (), mem_insert e m1, Some w1, s1)))"

definition replay_put :: "z1_entry \<Rightarrow> mem_store \<Rightarrow> mem_store" where
  "replay_put e m = mem_insert e m"

definition should_flush :: "mem_store \<Rightarrow> bool" where
  "should_flush m \<longleftrightarrow> unat (hot_size_bytes m) > flush_threshold m"

definition swap_and_drain :: "mem_store \<Rightarrow> z1_entry list \<times> mem_store" where
  "swap_and_drain m =
     (map snd (hot m), m\<lparr>hot := [], hot_size_bytes := 0, snap_buf := hot m\<rparr>)"

subsection \<open>Reading\<close>

definition mem_chain :: "mem_store \<Rightarrow> z1_entry list" where
  "mem_chain m = map snd (hot m) @ map snd (cold m) @ map snd (snap_buf m)"

fun best_visible ::
    "z1_key \<Rightarrow> txn_id \<Rightarrow> (txn_id, u64) hmap \<Rightarrow> txn_id set \<Rightarrow> z1_entry list \<Rightarrow> z1_entry option \<Rightarrow>
     z1_entry option" where
  "best_visible zk snap ctm active [] best = best"
| "best_visible zk snap ctm active (e # es) best =
     (if e_key e \<noteq> zk then best_visible zk snap ctm active es best
      else if \<not> is_visible_at_commit e snap ctm active then best_visible zk snap ctm active es best
      else best_visible zk snap ctm active es
             (case best of
                None \<Rightarrow> Some e
              | Some b \<Rightarrow> if e_txn_id e > e_txn_id b then Some e else Some b))"

definition mem_get_visible ::
    "u16 \<Rightarrow> bytes \<Rightarrow> txn_id \<Rightarrow> (txn_id, u64) hmap \<Rightarrow> txn_id set \<Rightarrow> mem_store \<Rightarrow> z1_entry option" where
  "mem_get_visible cf k snap ctm active m = best_visible (Z1Key cf k) snap ctm active (mem_chain m) None"

definition mem_get_versions ::
    "u16 \<Rightarrow> bytes \<Rightarrow> txn_id \<Rightarrow> (txn_id, u64) hmap \<Rightarrow> txn_id set \<Rightarrow> mem_store \<Rightarrow> z1_entry list" where
  "mem_get_versions cf k snap ctm active m =
     sort_key e_txn_id
       (filter (\<lambda>e. is_visible_at_commit e snap ctm active)
         (filter (\<lambda>e. e_key e = Z1Key cf k) (mem_chain m)))"

fun range_loop ::
    "u16 \<Rightarrow> bytes \<Rightarrow> bytes option \<Rightarrow> txn_id \<Rightarrow> (txn_id, u64) hmap \<Rightarrow> txn_id set \<Rightarrow> z1_entry list \<Rightarrow>
     (bytes, z1_entry) btmap \<Rightarrow> (bytes, z1_entry) btmap" where
  "range_loop cf start end_key snap ctm active [] best = best"
| "range_loop cf start end_key snap ctm active (e # es) best =
     (if cf_of (e_key e) \<noteq> cf then range_loop cf start end_key snap ctm active es best
      else if \<not> in_range start end_key (key_of (e_key e)) then range_loop cf start end_key snap ctm active es best
      else if \<not> is_visible_at_commit e snap ctm active then range_loop cf start end_key snap ctm active es best
      else range_loop cf start end_key snap ctm active es (keep_newer e best))"

definition mem_range_visible ::
    "u16 \<Rightarrow> bytes \<Rightarrow> bytes option \<Rightarrow> txn_id \<Rightarrow> (txn_id, u64) hmap \<Rightarrow> txn_id set \<Rightarrow> mem_store \<Rightarrow>
     (bytes \<times> z1_entry) list" where
  "mem_range_visible cf start end_key snap ctm active m =
     range_loop cf start end_key snap ctm active (mem_chain m) []"

definition mem_len :: "mem_store \<Rightarrow> nat" where
  "mem_len m = length (hot m)"

definition mem_is_empty :: "mem_store \<Rightarrow> bool" where
  "mem_is_empty m \<longleftrightarrow> hot m = []"

definition mem_size_bytes :: "mem_store \<Rightarrow> u64" where
  "mem_size_bytes m = hot_size_bytes m"

subsection \<open>The store is a layer\<close>

definition mem_ok :: "mem_store \<Rightarrow> bool" where
  "mem_ok m \<longleftrightarrow> buffer_ok (hot m) \<and> buffer_ok (cold m) \<and> buffer_ok (snap_buf m)"

definition mem_versions :: "mem_store \<Rightarrow> z1_entry set" where
  "mem_versions m = buffer_versions (hot m) \<union> buffer_versions (cold m) \<union> buffer_versions (snap_buf m)"

definition mem_lookup :: "mem_store \<Rightarrow> z1_key \<Rightarrow> z1_entry list" where
  "mem_lookup m k = filter (\<lambda>e. e_key e = k) (mem_chain m)"

lemma set_mem_chain: "set (mem_chain m) = mem_versions m"
  by (auto simp: mem_chain_def mem_versions_def)

interpretation mem: version_layer mem_versions mem_lookup mem_ok
  by unfold_locales (auto simp: mem_lookup_def set_mem_chain)

lemma mem_get_versions_candidates:
  "mem_get_versions cf k snap ctm active m =
     sort_key e_txn_id (mem.candidates (\<lambda>e. is_visible_at_commit e snap ctm active) m (Z1Key cf k))"
  by (simp add: mem_get_versions_def mem.candidates_def mem_lookup_def)

lemma mem_ok_ops:
  "mem_ok (mem_new n l)" "mem_ok m \<Longrightarrow> mem_ok (mem_insert e m)" "mem_ok m \<Longrightarrow> mem_ok (snd (swap_and_drain m))"
  by (simp_all add: mem_ok_def mem_new_def mem_insert_def swap_and_drain_def buffer_ok_insert)

lemma put_wal_frame:
  "put_wal c e m w s = (r, m', w', s') \<Longrightarrow> hot m' = hot m \<and> cold m' = cold m \<and> snap_buf m' = snap_buf m"
  by (auto simp: put_wal_def Let_def split: sync_level.splits prod.splits sum.splits if_splits)

lemma mem_put_files: "mem_put c e m wal s = (r, m', wal', s') \<Longrightarrow> wal_only s s'"
  by (auto simp: mem_put_def put_wal_def Let_def split: option.splits sync_level.splits prod.splits sum.splits if_splits
      dest!: wal_only_calls intro: wal_only_trans)

subsection \<open>Point reads\<close>

lemma best_visible_filter:
  "best_visible zk snap ctm active es best =
     fold (\<lambda>e b. case b of None \<Rightarrow> Some e | Some x \<Rightarrow> if e_txn_id e > e_txn_id x then Some e else Some x)
       (filter (\<lambda>e. e_key e = zk \<and> is_visible_at_commit e snap ctm active) es) best"
  by (induction zk snap ctm active es best rule: best_visible.induct) auto

lemma fold_best_Some:
  "fold (\<lambda>e b. case b of None \<Rightarrow> Some e | Some x \<Rightarrow> if e_txn_id e > e_txn_id x then Some e else Some x) es (Some b)
   = Some r \<Longrightarrow> r \<in> insert b (set es) \<and> (\<forall>x \<in> insert b (set es). e_txn_id x \<le> e_txn_id r)"
proof (induction es arbitrary: b)
  case (Cons e es)
  show ?case
  proof (cases "e_txn_id e > e_txn_id b")
    case True
    with Cons.prems Cons.IH [of e] show ?thesis by (auto intro: order_trans [OF less_imp_le])
  next
    case False
    with Cons.prems Cons.IH [of b] show ?thesis by (auto simp: not_less intro: order_trans)
  qed
qed simp

lemma fold_best_total:
  "\<exists>r. fold (\<lambda>e b. case b of None \<Rightarrow> Some e | Some x \<Rightarrow> if e_txn_id e > e_txn_id x then Some e else Some x) es (Some b)
   = Some r"
  by (induction es arbitrary: b) auto

lemma best_visible_None:
  "best_visible zk snap ctm active es None = None \<longleftrightarrow>
     filter (\<lambda>e. e_key e = zk \<and> is_visible_at_commit e snap ctm active) es = []"
proof (cases "filter (\<lambda>e. e_key e = zk \<and> is_visible_at_commit e snap ctm active) es")
  case Nil
  then show ?thesis by (simp only: best_visible_filter fold.simps id_apply simp_thms)
next
  case (Cons e xs)
  then show ?thesis
    using fold_best_total [of xs e] by (simp only: best_visible_filter) auto
qed

lemma best_visible_best:
  assumes "best_visible zk snap ctm active es None = Some r"
  shows "best_in {e \<in> set es. e_key e = zk \<and> is_visible_at_commit e snap ctm active} r"
proof (cases "filter (\<lambda>e. e_key e = zk \<and> is_visible_at_commit e snap ctm active) es")
  case Nil
  with assms best_visible_None [of zk snap ctm active es] show ?thesis by simp
next
  case (Cons e xs)
  have set: "{e \<in> set es. e_key e = zk \<and> is_visible_at_commit e snap ctm active} = insert e (set xs)"
    using arg_cong [OF Cons, of set] by simp
  show ?thesis
    unfolding set best_in_def using assms Cons fold_best_Some [of xs e r]
    by (simp add: best_visible_filter)
qed

text \<open>
  Point reads of the memory store. The single-pass search returns a version exactly when
  the store holds a visible version of the key, it is one with the highest transaction id,
  and it is the transaction the list of all visible versions ends with.
\<close>

lemma mem_get_visible_best:
  "(mem_get_visible cf k snap ctm active m = None \<longleftrightarrow> mem_get_versions cf k snap ctm active m = []) \<and>
   (\<forall>e. mem_get_visible cf k snap ctm active m = Some e \<longrightarrow>
      best_in {x \<in> mem_versions m. e_key x = Z1Key cf k \<and> is_visible_at_commit x snap ctm active} e \<and>
      e_txn_id e = e_txn_id (last (mem_get_versions cf k snap ctm active m)))"
proof (intro conjI allI impI)
  let ?vs = "mem_get_versions cf k snap ctm active m"
  have set: "set ?vs = {x \<in> mem_versions m. e_key x = Z1Key cf k \<and> is_visible_at_commit x snap ctm active}"
    by (auto simp: mem_get_versions_def set_mem_chain)
  have fil: "filter (\<lambda>e. e_key e = Z1Key cf k \<and> is_visible_at_commit e snap ctm active) (mem_chain m) = [] \<longleftrightarrow>
      ?vs = []"
    unfolding set_empty [symmetric] set by (auto simp: set_mem_chain)
  show "mem_get_visible cf k snap ctm active m = None \<longleftrightarrow> ?vs = []"
    unfolding mem_get_visible_def best_visible_None fil ..
  fix e
  assume e: "mem_get_visible cf k snap ctm active m = Some e"
  then show best: "best_in {x \<in> mem_versions m. e_key x = Z1Key cf k \<and> is_visible_at_commit x snap ctm active} e"
    using best_visible_best [of "Z1Key cf k" snap ctm active "mem_chain m" e]
    by (simp add: mem_get_visible_def set_mem_chain)
  then have mem: "e \<in> set ?vs" unfolding set by (simp add: best_in_def)
  then have ne: "?vs \<noteq> []" by auto
  have "sorted (map e_txn_id ?vs)" by (simp add: mem_get_versions_def)
  then have "e_txn_id e \<le> e_txn_id (last ?vs)" using mem by (auto dest: sorted_hd_last)
  moreover have "e_txn_id (last ?vs) \<le> e_txn_id e"
    using best last_in_set [OF ne] unfolding set best_in_def by blast
  ultimately show "e_txn_id e = e_txn_id (last ?vs)" by (rule order.antisym)
qed

lemma mem_get_visible_best_witness:
  "best_in {x \<in> mem_versions (mem_insert (entry_put (Z1Key 0 [1]) 3 [9] 0) (mem_new 10 Async)).
      e_key x = Z1Key 0 [1] \<and> is_visible_at_commit x 5 [(3, 4)] {}} (entry_put (Z1Key 0 [1]) 3 [9] 0)"
proof -
  let ?m = "mem_insert (entry_put (Z1Key 0 [1]) 3 [9] 0) (mem_new 10 Async)"
  have "mem_get_visible 0 [1] 5 [(3, 4)] {} ?m = Some (entry_put (Z1Key 0 [1]) 3 [9] 0)"
    by (simp add: mem_get_visible_def mem_chain_def mem_insert_def mem_new_def buffer_insert_def
        entry_put_def is_visible_at_commit_def)
  with mem_get_visible_best [of 0 "[1]" 5 "[(3, 4)]" "{}" ?m] show ?thesis by blast
qed

subsection \<open>Range reads\<close>

lemma range_loop_point:
  "bt_wf best \<Longrightarrow> bt_wf (range_loop cf start end_key snap ctm active es best) \<and>
     hm_get (range_loop cf start end_key snap ctm active es best) k =
       (if in_range start end_key k then best_visible (Z1Key cf k) snap ctm active es (hm_get best k)
        else hm_get best k)"
proof (induction cf start end_key snap ctm active es best rule: range_loop.induct)
  case (2 cf start end_key snap ctm active e es best)
  have key: "e_key e = Z1Key cf k \<longleftrightarrow> cf_of (e_key e) = cf \<and> key_of (e_key e) = k"
    by (cases "e_key e") auto
  show ?case
    using 2 by (auto simp: key bt_wf_keep_newer get_keep_newer)
qed simp

text \<open>
  Range reads of the memory store. The scan returns its keys in strictly ascending order,
  and for every key inside the range exactly what the point read of that key returns.
\<close>

lemma mem_range_visible_point:
  "bt_wf (mem_range_visible cf start end_key snap ctm active m) \<and>
   hm_get (mem_range_visible cf start end_key snap ctm active m) k =
     (if in_range start end_key k then mem_get_visible cf k snap ctm active m else None)"
  using range_loop_point [of "[]" cf start end_key snap ctm active "mem_chain m" k]
  by (simp add: mem_range_visible_def mem_get_visible_def)

subsection \<open>Writing\<close>

text \<open>
  Writes of the memory store. A put either fails and leaves all buffers as they were, or
  stores the version under its key and transaction and keeps every other version; at the
  asynchronous level it never fails, even when appending to the log did.
\<close>

lemma mem_put_spec:
  assumes "mem_ok m" and "mem_put c e m wal s = (r, m', wal', s')"
  shows "mem_ok m' \<and>
    (case r of
       Inl _ \<Rightarrow> mem_versions m' = mem_versions m
     | Inr _ \<Rightarrow> hm_get (hot m') (version_id e) = Some e \<and>
         (\<forall>i. i \<noteq> version_id e \<longrightarrow> hm_get (hot m') i = hm_get (hot m) i) \<and>
         cold m' = cold m \<and> snap_buf m' = snap_buf m) \<and>
    (mem_sync_level m = Async \<longrightarrow> r = Inr ())"
proof -
  have get: "hm_get (buffer_insert e b) = (hm_get b)(version_id e \<mapsto> e)" if "buffer_ok b" for b
    using that by (simp add: buffer_insert_def buffer_ok_def map_laws)
  show ?thesis
  proof (cases wal)
    case None
    with assms show ?thesis
      by (auto simp: mem_put_def mem_ok_ops mem_insert_def get mem_ok_def buffer_ok_insert)
  next
    case (Some w)
    obtain r1 m1 w1 s1 where p: "put_wal c e m w s = (r1, m1, w1, s1)" by (metis prod.exhaust)
    note f = put_wal_frame [OF p]
    have ok: "mem_ok m1" "mem_versions m1 = mem_versions m"
      using assms(1) f by (simp_all add: mem_ok_def mem_versions_def)
    have "r1 = Inr ()" if "mem_sync_level m = Async"
      using p that by (auto simp: put_wal_def split: prod.splits)
    moreover have "m' = (case r1 of Inl _ \<Rightarrow> m1 | Inr _ \<Rightarrow> mem_insert e m1)" "r = r1"
      using assms(2) by (auto simp: mem_put_def Some p split: sum.splits)
    ultimately show ?thesis
      using ok f assms(1) by (auto simp: mem_ok_ops mem_insert_def get mem_ok_def buffer_ok_insert split: sum.splits)
  qed
qed

lemma mem_put_spec_example:
  "hm_get (hot (fst (snd (mem_put \<lparr>wc_ser = (\<lambda>_. None), wc_de = (\<lambda>_. None), wc_crc = (\<lambda>_. 0)\<rparr>
     (entry_put (Z1Key 0 [1]) 3 [9] 0) (mem_new 10 Async) None
     \<lparr>files = [], unsynced = [], dirs = [], script = [], mono_clock = 0\<rparr>)))) (Z1Key 0 [1], 3)
   = Some (entry_put (Z1Key 0 [1]) 3 [9] 0)"
  using mem_put_spec [OF mem_ok_ops(1), of "\<lparr>wc_ser = (\<lambda>_. None), wc_de = (\<lambda>_. None), wc_crc = (\<lambda>_. 0)\<rparr>"
     "entry_put (Z1Key 0 [1]) 3 [9] 0" 10 Async None
     "\<lparr>files = [], unsynced = [], dirs = [], script = [], mono_clock = 0\<rparr>" "Inr ()"]
  by (auto simp: mem_put_def version_id_def entry_put_def)

end
