(* ===== verification/Recent_Flush.thy ===== *)
theory Recent_Flush
  imports Version_Layer
begin

section \<open>The recent-flush cache\<close>

text \<open>
  Models \<^verbatim>\<open>src/src/store/recent_flush_cache.rs\<close>: the versions that have left the memory
  store and are not yet durably written. The migration gate is a lock without data; a flush
  and a gated read are therefore single steps of the model.
\<close>

record recent_flush_cache =
  rf_cache :: version_buffer
  rf_flush_epoch :: u64

definition rf_new :: recent_flush_cache where
  "rf_new = \<lparr>rf_cache = [], rf_flush_epoch = 0\<rparr>"

definition cache_entries :: "z1_entry list \<Rightarrow> recent_flush_cache \<Rightarrow> recent_flush_cache" where
  "cache_entries es c = c\<lparr>rf_cache := fold buffer_insert es []\<rparr>"

definition rf_get_all :: "recent_flush_cache \<Rightarrow> z1_entry list" where
  "rf_get_all c = map snd (rf_cache c)"

definition cache_merge :: "z1_entry list \<Rightarrow> recent_flush_cache \<Rightarrow> recent_flush_cache" where
  "cache_merge es c = c\<lparr>rf_cache := fold buffer_insert es (rf_cache c)\<rparr>"

definition rf_get_for_key :: "u16 \<Rightarrow> bytes \<Rightarrow> recent_flush_cache \<Rightarrow> z1_entry list" where
  "rf_get_for_key cf k c = filter (\<lambda>e. e_key e = Z1Key cf k) (map snd (rf_cache c))"

definition rf_get_filtered :: "(z1_entry \<Rightarrow> bool) \<Rightarrow> recent_flush_cache \<Rightarrow> z1_entry list" where
  "rf_get_filtered P c = filter P (map snd (rf_cache c))"

definition rf_clear :: "recent_flush_cache \<Rightarrow> recent_flush_cache" where
  "rf_clear c = c\<lparr>rf_cache := []\<rparr>"

definition increment_epoch :: "recent_flush_cache \<Rightarrow> recent_flush_cache" where
  "increment_epoch c = c\<lparr>rf_flush_epoch := rf_flush_epoch c + 1\<rparr>"

subsection \<open>The cache is a layer\<close>

abbreviation rf_ok :: "recent_flush_cache \<Rightarrow> bool" where
  "rf_ok c \<equiv> buffer_ok (rf_cache c)"

abbreviation rf_versions :: "recent_flush_cache \<Rightarrow> z1_entry set" where
  "rf_versions c \<equiv> buffer_versions (rf_cache c)"

definition rf_lookup :: "recent_flush_cache \<Rightarrow> z1_key \<Rightarrow> z1_entry list" where
  "rf_lookup c k = rf_get_for_key (cf_of k) (key_of k) c"

interpretation rf: version_layer rf_versions rf_lookup rf_ok
  by unfold_locales (auto simp: rf_lookup_def rf_get_for_key_def)

lemma rf_ok_ops:
  "rf_ok rf_new" "rf_ok (cache_entries es c)" "rf_ok (rf_clear c)"
  "rf_ok c \<Longrightarrow> rf_ok (cache_merge es c)" "rf_ok c \<Longrightarrow> rf_ok (increment_epoch c)"
  by (simp_all add: rf_new_def cache_entries_def rf_clear_def cache_merge_def increment_epoch_def
      buffer_ok_insert_all)

lemma set_rf_get_all: "set (rf_get_all c) = rf_versions c"
  by (simp add: rf_get_all_def)

text \<open>Merging accumulates: of the versions with the same key and transaction the last one
  merged stays, every other version stays as it was.\<close>

lemma versions_cache_merge:
  assumes "rf_ok c" "\<And>x y. x \<in> rf_versions c \<union> set es \<Longrightarrow> y \<in> rf_versions c \<union> set es \<Longrightarrow>
    version_id x = version_id y \<Longrightarrow> x = y"
  shows "rf_versions (cache_merge es c) = rf_versions c \<union> set es"
  using versions_insert_all [OF assms(1)] assms(2) by (simp add: cache_merge_def)

lemma fold_insert_last:
  assumes "buffer_ok b"
  shows "map_of (fold buffer_insert es b) i =
    (case find (\<lambda>e. version_id e = i) (rev es) of Some e \<Rightarrow> Some e | None \<Rightarrow> map_of b i)"
proof -
  have "map_of (fold buffer_insert es b) = map_of b ++ map_of (rev (map (\<lambda>e. (version_id e, e)) es))"
    unfolding buffer_insert_def using assms by (intro bt.get_insert_all) (simp add: buffer_ok_def)
  moreover have "map_of (map (\<lambda>e. (version_id e, e)) xs) i = find (\<lambda>e. version_id e = i) xs" for xs
    by (induction xs) auto
  ultimately show ?thesis by (simp add: rev_map map_add_def)
qed

text \<open>
  The cache never drops unwritten data. After merging a batch, looking up a version finds
  the last version merged under that key and transaction, and any version not touched by the
  batch is still there.
\<close>

lemma cache_merge_keeps:
  assumes "rf_ok c"
  shows "hm_get (rf_cache (cache_merge es c)) i =
      (case find (\<lambda>e. version_id e = i) (rev es) of Some e \<Rightarrow> Some e | None \<Rightarrow> hm_get (rf_cache c) i) \<and>
    set (rf_get_for_key cf k (cache_merge es c)) = {e \<in> rf_versions (cache_merge es c). e_key e = Z1Key cf k}"
proof -
  have "set (rf_lookup (cache_merge es c) (Z1Key cf k)) =
      {e \<in> rf_versions (cache_merge es c). e_key e = Z1Key cf k}"
    by (rule rf.lookup_holds [OF rf_ok_ops(4) [OF assms]])
  then show ?thesis
    using fold_insert_last [OF assms] by (simp add: cache_merge_def rf_lookup_def)
qed

lemma cache_merge_keeps_witness:
  "hm_get (rf_cache (cache_merge [entry_put (Z1Key 0 [1]) 2 [5] 0] (cache_merge [entry_put (Z1Key 0 [1]) 1 [4] 0] rf_new)))
     (Z1Key 0 [1], 1) = Some (entry_put (Z1Key 0 [1]) 1 [4] 0)"
proof -
  let ?c = "cache_merge [entry_put (Z1Key 0 [1]) 1 [4] 0] rf_new"
  have "rf_ok ?c" by (intro rf_ok_ops)
  from cache_merge_keeps [OF this, of "[entry_put (Z1Key 0 [1]) 2 [5] 0]" "(Z1Key 0 [1], 1)" 0 "[1]"]
  show ?thesis
    by (simp add: cache_merge_def rf_new_def buffer_insert_def version_id_def entry_put_def)
qed

end
