(* ===== verification/Durable_Writer.thy ===== *)
theory Durable_Writer
  imports File_System
begin

section \<open>Crash-safe file replacement\<close>

text \<open>
  Models \<^verbatim>\<open>src/src/durable_writer.rs\<close>: the trait \<^verbatim>\<open>DurableWriter\<close> with its retry
  loop and the implementation \<^verbatim>\<open>SimpleFileWriter\<close>, on Unix. The random part of a
  temporary file's name is an argument (one per attempt).
\<close>

record temp_handle =
  temp_path :: path
  final_path :: path

definition fsync_file :: "path \<Rightarrow> fs \<Rightarrow> unit z1result \<times> fs" where
  "fsync_file p s =
     (case sys_open p s of
        (Inl e, s1) \<Rightarrow> (Inl e, s1)
      | (Inr _, s1) \<Rightarrow> sys_sync p s1)"

text \<open>Opening a directory for reading and syncing it.\<close>

definition fsync_parent_dir :: "dir \<Rightarrow> fs \<Rightarrow> unit z1result \<times> fs" where
  "fsync_parent_dir d s =
     (case next_io s of
        (IoFail k _, s1) \<Rightarrow> (Inl (Io k), s1)
      | (IoDone, s1) \<Rightarrow> sys_sync_dir d s1)"

definition atomic_rename :: "path \<Rightarrow> path \<Rightarrow> fs \<Rightarrow> unit z1result \<times> fs" where
  "atomic_rename a b s = sys_rename a b s"

definition write_to_temp :: "nat \<Rightarrow> path \<Rightarrow> bytes \<Rightarrow> fs \<Rightarrow> temp_handle z1result \<times> fs" where
  "write_to_temp uuid final d s =
     (case sys_create_dir_all (parent_dir final) s of
        (Inl e, s1) \<Rightarrow> (Inl e, s1)
      | (Inr _, s1) \<Rightarrow>
          (let temp = TempFile final uuid in
           case sys_create temp s1 of
             (Inl e, s2) \<Rightarrow> (Inl e, s2)
           | (Inr _, s2) \<Rightarrow>
               (case sys_write_all temp 0 d s2 of
                  (Inl e, _, s3) \<Rightarrow> (Inl e, s3)
                | (Inr _, _, s3) \<Rightarrow> (Inr \<lparr>temp_path = temp, final_path = final\<rparr>, s3))))"

definition fsync_data :: "temp_handle \<Rightarrow> fs \<Rightarrow> unit z1result \<times> fs" where
  "fsync_data h s = fsync_file (temp_path h) s"

text \<open>The error of the rename is rebuilt with its kind, so that the retry can inspect it.\<close>

definition keep_io_kind :: "z1error \<Rightarrow> z1error" where
  "keep_io_kind e = (case e of Io k \<Rightarrow> Io k | _ \<Rightarrow> Io OtherIo)"

definition writer_commit :: "temp_handle \<Rightarrow> fs \<Rightarrow> path z1result \<times> fs" where
  "writer_commit h s =
     (case atomic_rename (temp_path h) (final_path h) s of
        (Inl e, s1) \<Rightarrow> (Inl (keep_io_kind e), s1)
      | (Inr _, s1) \<Rightarrow>
          (case fsync_parent_dir (parent_dir (final_path h)) s1 of
             (Inl e, s2) \<Rightarrow> (Inl e, s2)
           | (Inr _, s2) \<Rightarrow> (Inr (final_path h), s2)))"

definition write_durable_once :: "nat \<Rightarrow> path \<Rightarrow> bytes \<Rightarrow> fs \<Rightarrow> path z1result \<times> fs" where
  "write_durable_once uuid final d s =
     (case write_to_temp uuid final d s of
        (Inl e, s1) \<Rightarrow> (Inl e, s1)
      | (Inr h, s1) \<Rightarrow>
          (case fsync_data h s1 of
             (Inl e, s2) \<Rightarrow> (Inl e, s2)
           | (Inr _, s2) \<Rightarrow> writer_commit h s2))"

definition retryable :: "z1error \<Rightarrow> bool" where
  "retryable e \<longleftrightarrow> (case e of Io NotFound \<Rightarrow> True | Io PermissionDenied \<Rightarrow> True | _ \<Rightarrow> False)"

text \<open>The loop with the remaining attempts; the last error is returned.\<close>

fun write_durable_loop :: "nat list \<Rightarrow> z1error \<Rightarrow> path \<Rightarrow> bytes \<Rightarrow> fs \<Rightarrow> path z1result \<times> fs" where
  "write_durable_loop [] last_err final d s = (Inl last_err, s)"
| "write_durable_loop (uuid # rest) last_err final d s =
     (case write_durable_once uuid final d s of
        (Inr fp, s1) \<Rightarrow> (Inr fp, s1)
      | (Inl e, s1) \<Rightarrow>
          if retryable e then write_durable_loop rest e final d s1 else (Inl e, s1))"

definition write_durable :: "nat \<times> nat \<times> nat \<Rightarrow> path \<Rightarrow> bytes \<Rightarrow> fs \<Rightarrow> path z1result \<times> fs" where
  "write_durable uuids final d s =
     (case uuids of (a, b, c) \<Rightarrow> write_durable_loop [a, b, c] (Internal MissingParent) final d s)"

subsection \<open>Effect of the calls on other names\<close>

text \<open>A call that leaves a name alone: its file is the same and no new outcome of a crash
  appears there. No directory is removed.\<close>

definition undisturbed :: "path \<Rightarrow> fs \<Rightarrow> fs \<Rightarrow> bool" where
  "undisturbed q s s' \<longleftrightarrow>
     hm_get (files s') q = hm_get (files s) q \<and> (\<forall>r. crash_view s' q r \<longrightarrow> crash_view s q r) \<and> set (dirs s) \<subseteq> set (dirs s')"

lemma undisturbed_refl [simp]: "undisturbed q s s"
  by (simp add: undisturbed_def)

lemma undisturbed_trans [trans]: "undisturbed q a b \<Longrightarrow> undisturbed q b c \<Longrightarrow> undisturbed q a c"
  by (auto simp: undisturbed_def)

lemma undisturbed_same: "same_files s s' \<Longrightarrow> undisturbed q s s'"
  by (simp add: undisturbed_def same_files_def crash_view_def)

lemma undisturbed_io: "next_io s = (x, s') \<Longrightarrow> undisturbed q s s'"
  by (rule undisturbed_same [OF same_files_next_io])

lemma undisturbed_name_changes: "undisturbed q s (name_changes p s)"
  by (simp add: undisturbed_def crash_view_name_changes)

lemma undisturbed_files:
  "map_of f q = map_of (files s) q \<Longrightarrow> undisturbed q s (s\<lparr>files := f\<rparr>)"
  by (simp add: undisturbed_def crash_view_def)

lemma undisturbed_unsynced:
  "(\<And>old. map_of u q = Some old \<Longrightarrow> map_of (unsynced s) q = Some old) \<Longrightarrow> undisturbed q s (s\<lparr>unsynced := u\<rparr>)"
  by (auto simp: undisturbed_def crash_view_def)

lemma set_insert_dirs: "set (fold List.insert ds xs) = set ds \<union> set xs"
  by (induction ds arbitrary: xs) auto

lemma undisturbed_create_dir: "sys_create_dir_all d s = (r, s') \<Longrightarrow> undisturbed q s s'"
  using same_files_next_io [of s]
  by (auto simp: sys_create_dir_all_def same_files_def undisturbed_def crash_view_def set_insert_dirs
      split: prod.splits io_outcome.splits)

lemma undisturbed_create:
  assumes "sys_create p s = (r, s')" "q \<noteq> p"
  shows "undisturbed q s s'"
proof -
  obtain x s1 where io: "next_io s = (x, s1)" by fastforce
  have "undisturbed q s1 s'"
    using assms undisturbed_name_changes [of q s1 p]
    by (auto simp: sys_create_def io map_laws split: io_outcome.splits if_splits option.splits
        intro: undisturbed_files undisturbed_trans [OF undisturbed_name_changes undisturbed_files])
  with undisturbed_io [OF io] show ?thesis by (rule undisturbed_trans)
qed

lemma undisturbed_put_bytes: "q \<noteq> p \<Longrightarrow> undisturbed q s (put_bytes p pos bs s)"
  by (auto simp: put_bytes_def map_laws split: option.splits intro: undisturbed_files)

lemma undisturbed_write:
  assumes "sys_write_all p pos bs s = (r, n, s')" "q \<noteq> p"
  shows "undisturbed q s s'"
  using assms
  by (auto simp: sys_write_all_def split: prod.splits io_outcome.splits
      intro: undisturbed_trans [OF undisturbed_io undisturbed_put_bytes])

lemma undisturbed_sync:
  assumes "sys_sync p s = (r, s')" "q \<noteq> p"
  shows "undisturbed q s s'"
  using assms
  by (auto simp: sys_sync_def map_laws split: prod.splits io_outcome.splits option.splits
      intro: undisturbed_io undisturbed_trans [OF undisturbed_io undisturbed_files])

lemma undisturbed_open: "sys_open p s = (r, s') \<Longrightarrow> undisturbed q s s'"
  by (auto simp: sys_open_def split: prod.splits io_outcome.splits if_splits intro: undisturbed_io)

lemma undisturbed_fsync_file: "fsync_file p s = (r, s') \<Longrightarrow> q \<noteq> p \<Longrightarrow> undisturbed q s s'"
  by (auto simp: fsync_file_def split: prod.splits sum.splits
      intro: undisturbed_open undisturbed_trans [OF undisturbed_open undisturbed_sync])

lemma undisturbed_rename:
  assumes "sys_rename a b s = (r, s')" "q \<noteq> a" "q \<noteq> b"
  shows "undisturbed q s s'"
proof -
  obtain x s1 where io: "next_io s = (x, s1)" by fastforce
  let ?n = "name_changes b (name_changes a s1)"
  have "undisturbed q s1 ?n"
    by (rule undisturbed_trans [OF undisturbed_name_changes undisturbed_name_changes])
  then have "undisturbed q s1 s'"
    using assms by (auto simp: sys_rename_def io Let_def map_laws split: io_outcome.splits option.splits
        intro: undisturbed_trans [OF _ undisturbed_files])
  with undisturbed_io [OF io] show ?thesis by (rule undisturbed_trans)
qed

lemma undisturbed_sync_dir: "sys_sync_dir d s = (r, s') \<Longrightarrow> undisturbed q s s'"
  by (auto simp: sys_sync_dir_def map_of_filter_fst [where P = "\<lambda>a. parent_dir a \<noteq> d"]
      split: prod.splits io_outcome.splits if_splits
      intro: undisturbed_io undisturbed_trans [OF undisturbed_io undisturbed_unsynced])

lemma undisturbed_fsync_parent: "fsync_parent_dir d s = (r, s') \<Longrightarrow> undisturbed q s s'"
  by (auto simp: fsync_parent_dir_def split: prod.splits io_outcome.splits
      intro: undisturbed_io undisturbed_trans [OF undisturbed_io undisturbed_sync_dir])

lemmas undisturbed_calls = undisturbed_create_dir undisturbed_create undisturbed_write
  undisturbed_sync undisturbed_open undisturbed_fsync_file undisturbed_rename undisturbed_sync_dir
  undisturbed_fsync_parent

lemma undisturbed_write_to_temp:
  assumes "write_to_temp u final d s = (r, s')" "q \<noteq> TempFile final u"
  shows "undisturbed q s s'"
proof -
  obtain r1 s1 where 1: "sys_create_dir_all (parent_dir final) s = (r1, s1)" by fastforce
  obtain r2 s2 where 2: "sys_create (TempFile final u) s1 = (r2, s2)" by fastforce
  obtain r3 n s3 where 3: "sys_write_all (TempFile final u) 0 d s2 = (r3, n, s3)" by (metis prod.exhaust)
  note u = undisturbed_create_dir [OF 1, of q] undisturbed_create [OF 2 assms(2)]
    undisturbed_write [OF 3 assms(2)]
  show ?thesis
    using assms(1) u undisturbed_trans [OF u(1,2)] undisturbed_trans [OF undisturbed_trans [OF u(1,2)] u(3)]
    by (auto simp: write_to_temp_def Let_def 1 2 3 split: sum.splits)
qed

lemma undisturbed_once:
  assumes "write_durable_once u p d s = (r, s')" "q \<noteq> p" "q \<noteq> TempFile p u"
  shows "undisturbed q s s'"
proof -
  obtain r1 s1 where 1: "write_to_temp u p d s = (r1, s1)" by fastforce
  note u1 = undisturbed_write_to_temp [OF 1 assms(3)]
  show ?thesis
  proof (cases r1)
    case (Inl e)
    with assms(1) u1 show ?thesis by (simp add: write_durable_once_def 1)
  next
    case (Inr h)
    then have h: "temp_path h = TempFile p u" "final_path h = p"
      using 1 by (auto simp: write_to_temp_def Let_def split: prod.splits sum.splits)
    obtain r2 s2 where 2: "fsync_file (TempFile p u) s1 = (r2, s2)" by fastforce
    obtain r3 s3 where 3: "sys_rename (TempFile p u) p s2 = (r3, s3)" by fastforce
    obtain r4 s4 where 4: "fsync_parent_dir (parent_dir p) s3 = (r4, s4)" by fastforce
    note u2 = undisturbed_trans [OF u1 undisturbed_fsync_file [OF 2 assms(3)]]
    note u3 = undisturbed_trans [OF u2 undisturbed_rename [OF 3 assms(3,2)]]
    note u4 = undisturbed_trans [OF u3 undisturbed_fsync_parent [OF 4]]
    show ?thesis
      using assms(1) u2 u3 u4
      by (auto simp: write_durable_once_def 1 Inr fsync_data_def h 2 writer_commit_def atomic_rename_def 3 4
          split: sum.splits)
  qed
qed

lemma undisturbed_loop:
  "write_durable_loop us e p d s = (r, s') \<Longrightarrow> q \<noteq> p \<Longrightarrow> q \<notin> TempFile p ` set us \<Longrightarrow> undisturbed q s s'"
proof (induction us e p d s rule: write_durable_loop.induct)
  case (2 u rest e p d s)
  obtain r1 s1 where 1: "write_durable_once u p d s = (r1, s1)" by fastforce
  have u1: "undisturbed q s s1" using undisturbed_once [OF 1] 2(3,4) by simp
  show ?case
  proof (cases "\<exists>e1. r1 = Inl e1 \<and> retryable e1")
    case True
    then obtain e1 where e1: "r1 = Inl e1" "retryable e1" by blast
    with 2(2) 1 have "write_durable_loop rest e1 p d s1 = (r, s')" by simp
    with 2 1 e1 have "undisturbed q s1 s'" by auto
    with u1 show ?thesis by (rule undisturbed_trans)
  next
    case False
    with 2(2) 1 u1 show ?thesis by (auto split: sum.splits)
  qed
qed simp

text \<open>Replacing a file leaves every other name alone, apart from the temporary ones.\<close>

lemma undisturbed_write_durable:
  assumes "write_durable (a, b, c) p d s = (r, s')" "q \<noteq> p" "q \<notin> TempFile p ` {a, b, c}"
  shows "undisturbed q s s'"
proof (rule undisturbed_loop)
  show "write_durable_loop [a, b, c] (Internal MissingParent) p d s = (r, s')"
    using assms(1) by (simp add: write_durable_def)
qed (use assms(2,3) in auto)

subsection \<open>Effect on the temporary and the final name\<close>

lemma create_empty:
  "sys_create p s = (Inr x, s') \<Longrightarrow> \<exists>n. hm_get (files s') p = Some n \<and> fdata n = []"
  by (auto simp: sys_create_def map_laws split: prod.splits io_outcome.splits if_splits option.splits)

lemma write_all_fresh:
  assumes "sys_write_all p 0 d s = (Inr x, n, s')" "hm_get (files s) p = Some nd" "fdata nd = []"
  shows "\<exists>nd'. hm_get (files s') p = Some nd' \<and> fdata nd' = d"
proof -
  obtain x s1 where io: "next_io s = (x, s1)" by fastforce
  have "files s1 = files s" using same_files_next_io [OF io] by (simp add: same_files_def)
  with assms show ?thesis
    by (auto simp: sys_write_all_def io put_bytes_def write_at_def map_laws split: io_outcome.splits)
qed

lemma write_to_temp_Inr:
  assumes "write_to_temp u final d s = (Inr h, s')"
  shows "h = \<lparr>temp_path = TempFile final u, final_path = final\<rparr>"
    "\<exists>n. hm_get (files s') (TempFile final u) = Some n \<and> fdata n = d"
  using assms
  by (auto simp: write_to_temp_def Let_def split: prod.splits sum.splits
      dest!: create_empty dest: write_all_fresh)

lemma fsync_file_Inr:
  assumes "fsync_file p s = (Inr x, s')" "hm_get (files s) p = Some n"
  shows "hm_get (files s') p = Some (n\<lparr>fdurable := fdata n\<rparr>)"
proof -
  obtain x1 s1 where io: "next_io s = (x1, s1)" by fastforce
  have f1: "files s1 = files s" using same_files_next_io [OF io] by (simp add: same_files_def)
  obtain x2 s2 where io2: "next_io s1 = (x2, s2)" by fastforce
  have "files s2 = files s" using same_files_next_io [OF io2] f1 by (simp add: same_files_def)
  with assms f1 show ?thesis
    by (auto simp: fsync_file_def sys_open_def sys_sync_def io io2 map_laws
        split: io_outcome.splits if_splits option.splits)
qed

lemma rename_result:
  assumes "sys_rename a b s = (r, s')" "hm_get (files s) a = Some n" "a \<noteq> b"
  shows "(r = Inr () \<and> hm_get (files s') b = Some n \<and>
      (\<forall>v. crash_view s' b v \<longrightarrow> crash_view s b v \<or> crash_entry (Some n) v)) \<or>
    ((\<exists>k. r = Inl (Io k)) \<and> same_files s s')"
proof -
  obtain x s1 where io: "next_io s = (x, s1)" by fastforce
  note same = same_files_next_io [OF io]
  then have f1: "files s1 = files s" by (simp add: same_files_def)
  show ?thesis
  proof (cases x)
    case (IoFail k m)
    with assms same show ?thesis by (auto simp: sys_rename_def io)
  next
    case IoDone
    let ?n = "name_changes b (name_changes a s1)"
    have s': "r = Inr ()" "s' = ?n\<lparr>files := hm_insert b n (hm_remove a (files s))\<rparr>"
      using assms IoDone by (auto simp: sys_rename_def io f1 Let_def)
    have "crash_view s b v \<or> crash_entry (Some n) v" if "crash_view s' b v" for v
      using that assms(3) crash_view_name_changes [of b "name_changes a s1" b v]
        crash_view_name_changes [of a s1 b v] crash_view_same [OF same, of b v]
      by (auto simp: s'(2) crash_view_def map_laws)
    then show ?thesis using s' by (simp add: map_laws)
  qed
qed

lemma fsync_parent_Inr:
  assumes "fsync_parent_dir (parent_dir p) s = (Inr x, s')" "hm_get (files s) p = Some n"
  shows "hm_get (files s') p = Some n" "crash_view s' p r \<longleftrightarrow> crash_entry (Some n) r"
proof -
  obtain x1 s1 where io: "next_io s = (x1, s1)" by fastforce
  obtain x2 s2 where io2: "next_io s1 = (x2, s2)" by fastforce
  have f: "files s2 = files s"
    using same_files_next_io [OF io] same_files_next_io [OF io2] by (simp add: same_files_def)
  have s': "s' = s2\<lparr>unsynced := filter (\<lambda>q. parent_dir (fst q) \<noteq> parent_dir p) (unsynced s2)\<rparr>"
    using assms(1) by (auto simp: fsync_parent_dir_def sys_sync_dir_def io io2
        split: io_outcome.splits if_splits)
  show "hm_get (files s') p = Some n" using assms(2) by (simp add: s' f)
  then show "crash_view s' p r \<longleftrightarrow> crash_entry (Some n) r"
    by (simp add: crash_view_def s' map_of_filter_fst [where P = "\<lambda>a. parent_dir a \<noteq> parent_dir p"])
qed

lemma temp_neq_final [simp]: "TempFile p u \<noteq> p" "p \<noteq> TempFile p u"
  by (induction p) auto

text \<open>What one attempt guarantees about a path: either its old file or the complete new
  contents, whichever calls fail; and exactly the new contents once it reports success.\<close>

definition replaces :: "path \<Rightarrow> bytes \<Rightarrow> path z1result \<Rightarrow> fs \<Rightarrow> fs \<Rightarrow> bool" where
  "replaces p d r s s' \<longleftrightarrow>
     (\<forall>v. crash_view s' p v \<longrightarrow> crash_view s p v \<or> v = Some d) \<and>
     (map_option fdata (hm_get (files s') p) = map_option fdata (hm_get (files s) p) \<or>
      map_option fdata (hm_get (files s') p) = Some d) \<and>
     (\<forall>q. r = Inr q \<longrightarrow> q = p \<and> hm_get (files s') p = Some \<lparr>fdata = d, fdurable = d\<rparr> \<and>
        (\<forall>v. crash_view s' p v \<longleftrightarrow> v = Some d))"

lemma replaces_undisturbed: "undisturbed p s s' \<Longrightarrow> replaces p d (Inl e) s s'"
  by (auto simp: replaces_def undisturbed_def)

lemma replaces_trans:
  "replaces p d (Inl e) s s1 \<Longrightarrow> replaces p d r s1 s2 \<Longrightarrow> replaces p d r s s2"
  unfolding replaces_def by (elim conjE, intro conjI) (blast, argo, blast)

lemma replaces_commit:
  assumes c: "writer_commit \<lparr>temp_path = TempFile p u, final_path = p\<rparr> s = (r, s')"
    and n: "hm_get (files s) (TempFile p u) = Some \<lparr>fdata = d, fdurable = d\<rparr>"
  shows "replaces p d r s s'"
proof -
  let ?n = "\<lparr>fdata = d, fdurable = d\<rparr>"
  obtain r1 s1 where 1: "sys_rename (TempFile p u) p s = (r1, s1)" by fastforce
  obtain r2 s2 where 2: "fsync_parent_dir (parent_dir p) s1 = (r2, s2)" by fastforce
  have entry: "crash_entry (Some ?n) v \<longleftrightarrow> v = Some d" for v by (auto simp: crash_entry_def)
  from rename_result [OF 1 n] consider
      (ok) "r1 = Inr ()" "hm_get (files s1) p = Some ?n"
        "\<And>v. crash_view s1 p v \<Longrightarrow> crash_view s p v \<or> crash_entry (Some ?n) v"
    | (failed) "\<exists>k. r1 = Inl (Io k)" "same_files s s1"
    by auto
  then show ?thesis
  proof cases
    case failed
    then have "\<exists>e. r = Inl e" "s' = s1" using c by (auto simp: writer_commit_def atomic_rename_def 1)
    with undisturbed_same [OF failed(2), of p] show ?thesis by (auto intro: replaces_undisturbed)
  next
    case ok
    have u: "undisturbed p s1 s2" by (rule undisturbed_fsync_parent [OF 2])
    have res: "s' = s2" "r = (case r2 of Inl e \<Rightarrow> Inl e | Inr _ \<Rightarrow> Inr p)"
      using c ok(1) by (auto simp: writer_commit_def atomic_rename_def 1 2 split: sum.splits)
    have "\<forall>v. crash_view s2 p v \<longrightarrow> crash_view s p v \<or> v = Some d" "hm_get (files s2) p = Some ?n"
      using u ok(2,3) entry by (auto simp: undisturbed_def)
    moreover have "\<forall>v. crash_view s2 p v \<longleftrightarrow> v = Some d" if "r2 = Inr x" for x
      using fsync_parent_Inr(2) [of p s1 x s2 ?n] 2 that ok(2) entry by simp
    ultimately show ?thesis unfolding replaces_def res by (auto split: sum.splits)
  qed
qed

lemma replaces_once:
  assumes "write_durable_once u p d s = (r, s')"
  shows "replaces p d r s s'"
proof -
  obtain r1 s1 where 1: "write_to_temp u p d s = (r1, s1)" by fastforce
  have u1: "undisturbed p s s1" by (rule undisturbed_write_to_temp [OF 1]) simp
  show ?thesis
  proof (cases r1)
    case (Inl e)
    with assms u1 show ?thesis by (auto simp: write_durable_once_def 1 intro: replaces_undisturbed)
  next
    case (Inr h)
    note h = write_to_temp_Inr [OF 1 [unfolded Inr]]
    obtain n where n: "hm_get (files s1) (TempFile p u) = Some n" "fdata n = d" using h(2) by blast
    obtain r2 s2 where 2: "fsync_file (TempFile p u) s1 = (r2, s2)" by fastforce
    have u2: "undisturbed p s s2"
      by (rule undisturbed_trans [OF u1 undisturbed_fsync_file [OF 2]]) simp
    show ?thesis
    proof (cases r2)
      case (Inl e)
      with assms u2 Inr show ?thesis
        by (auto simp: write_durable_once_def 1 fsync_data_def h(1) 2 intro: replaces_undisturbed)
    next
      case (Inr x)
      have "hm_get (files s2) (TempFile p u) = Some \<lparr>fdata = d, fdurable = d\<rparr>"
        using fsync_file_Inr [OF 2 [unfolded Inr] n(1)] n(2) by (cases n) simp
      moreover have "writer_commit \<lparr>temp_path = TempFile p u, final_path = p\<rparr> s2 = (r, s')"
        using assms \<open>r1 = Inr h\<close> Inr by (simp add: write_durable_once_def 1 fsync_data_def h(1) 2)
      ultimately have "replaces p d r s2 s'" by (intro replaces_commit)
      with replaces_undisturbed [OF u2] show ?thesis by (rule replaces_trans)
    qed
  qed
qed

lemma replaces_loop:
  "write_durable_loop us e p d s = (r, s') \<Longrightarrow> replaces p d r s s'"
proof (induction us e p d s rule: write_durable_loop.induct)
  case (1 e p d s)
  then show ?case by (auto intro: replaces_undisturbed)
next
  case (2 u rest e p d s)
  obtain r1 s1 where 1: "write_durable_once u p d s = (r1, s1)" by fastforce
  note once = replaces_once [OF 1]
  show ?case
  proof (cases "\<exists>e1. r1 = Inl e1 \<and> retryable e1")
    case True
    then obtain e1 where e1: "r1 = Inl e1" "retryable e1" by blast
    with 2 1 have "replaces p d r s1 s'" by (auto simp: prod_eq_iff)
    with once e1 show ?thesis by (auto intro: replaces_trans)
  next
    case False
    with 2(2) 1 once show ?thesis by (auto split: sum.splits)
  qed
qed

subsection \<open>Runs without I/O errors\<close>

text \<open>A call made when the script is used up leaves it used up.\<close>

lemma quiet_calls:
  "sys_create_dir_all d s = (r, s') \<Longrightarrow> script s = [] \<Longrightarrow> script s' = []"
  "sys_create p s = (r, s') \<Longrightarrow> script s = [] \<Longrightarrow> script s' = []"
  "sys_open p s = (r, s') \<Longrightarrow> script s = [] \<Longrightarrow> script s' = []"
  "sys_write_all p pos bs s = (r, n, s') \<Longrightarrow> script s = [] \<Longrightarrow> script s' = []"
  "sys_sync p s = (r, s') \<Longrightarrow> script s = [] \<Longrightarrow> script s' = []"
  "sys_rename p q s = (r, s') \<Longrightarrow> script s = [] \<Longrightarrow> script s' = []"
  "sys_sync_dir d s = (r, s') \<Longrightarrow> script s = [] \<Longrightarrow> script s' = []"
  by (auto simp: sys_defs put_bytes_def Let_def split: option.splits if_splits)

lemma quiet_temp: "write_to_temp u p bs s = (r, s') \<Longrightarrow> script s = [] \<Longrightarrow> script s' = []"
  by (auto simp: write_to_temp_def Let_def split: prod.splits sum.splits dest!: quiet_calls)

lemma quiet_fsync: "fsync_file p s = (r, s') \<Longrightarrow> script s = [] \<Longrightarrow> script s' = []"
  by (auto simp: fsync_file_def split: prod.splits sum.splits dest!: quiet_calls)

lemma quiet_commit: "writer_commit h s = (r, s') \<Longrightarrow> script s = [] \<Longrightarrow> script s' = []"
  by (auto simp: writer_commit_def atomic_rename_def fsync_parent_dir_def next_io_def
      split: prod.splits sum.splits io_outcome.splits list.splits dest!: quiet_calls)

lemma quiet_once: "write_durable_once u p bs s = (r, s') \<Longrightarrow> script s = [] \<Longrightarrow> script s' = []"
  by (auto simp: write_durable_once_def fsync_data_def split: prod.splits sum.splits
      dest!: quiet_temp quiet_fsync quiet_commit)

lemma quiet_loop:
  "script s = [] \<Longrightarrow> write_durable_loop us e p bs s = (r, s') \<Longrightarrow> script s' = []"
  by (induction us e p bs s rule: write_durable_loop.induct)
    (auto split: prod.splits sum.splits if_splits dest: quiet_once)

lemma quiet_write_durable: "script s = [] \<Longrightarrow> write_durable uuids p bs s = (r, s') \<Longrightarrow> script s' = []"
  by (auto simp: write_durable_def simp del: write_durable_loop.simps split: prod.splits dest: quiet_loop)

text \<open>
  C27. Crash-safe replacement. Whatever calls fail and wherever a crash happens, the final path
  afterwards has its old contents or the complete new ones; when the call reports success the
  new contents are in place and survive every crash.
\<close>

theorem write_durable_crash_safe:
  assumes "write_durable uuids p d s = (r, s')"
  shows "(\<forall>v. crash_view s' p v \<longrightarrow> crash_view s p v \<or> v = Some d) \<and>
    (map_option fdata (hm_get (files s') p) = map_option fdata (hm_get (files s) p) \<or>
      map_option fdata (hm_get (files s') p) = Some d) \<and>
    (\<forall>q. r = Inr q \<longrightarrow> q = p \<and> hm_get (files s') p = Some \<lparr>fdata = d, fdurable = d\<rparr> \<and>
       (\<forall>v. crash_view s' p v \<longleftrightarrow> v = Some d))"
proof -
  obtain a b c where u: "uuids = (a, b, c)" by (metis prod.exhaust)
  have "replaces p d r s s'"
    using assms by (auto simp: write_durable_def u simp del: write_durable_loop.simps intro: replaces_loop)
  then show ?thesis unfolding replaces_def .
qed

theorem write_durable_crash_safe_witness:
  "hm_get (files (snd (write_durable (0, 1, 2) LatestPointer [5]
     \<lparr>files = [(LatestPointer, \<lparr>fdata = [4], fdurable = [4]\<rparr>)], unsynced = [], dirs = [],
      script = [IoDone, IoDone, IoFail PermissionDenied 0], mono_clock = 0\<rparr>))) LatestPointer
   = Some \<lparr>fdata = [5], fdurable = [5]\<rparr>"
proof -
  let ?s = "\<lparr>files = [(LatestPointer, \<lparr>fdata = [4], fdurable = [4]\<rparr>)], unsynced = [], dirs = [],
      script = [IoDone, IoDone, IoFail PermissionDenied 0], mono_clock = 0\<rparr>"
  have "fst (write_durable (0, 1, 2) LatestPointer [5] ?s) = Inr LatestPointer"
    by code_simp
  with write_durable_crash_safe [OF prod.collapse [symmetric], of "(0, 1, 2)" LatestPointer "[5]" ?s]
  show ?thesis by blast
qed

end
