(* ===== verification/Disk.thy ===== *)
theory Disk
  imports Version_Layer Durable_Writer
begin

section \<open>The disk layers\<close>

text \<open>
  Models \<^verbatim>\<open>src/src/store/disk.rs\<close>: patch files with their key-range index and the cache
  of decoded patches. The two layers L2 and L3 share the code. The postcard encoding of a
  patch and the checksum are the parameters of type \<open>patch_codec\<close>. A function takes the
  layer and the file system and returns both, since reading fills the cache and drops index
  entries of files that have vanished.
\<close>

record patch_codec =
  pc_ser :: "z1_patch_format \<Rightarrow> bytes option"
  pc_de :: "bytes \<Rightarrow> z1_patch_format option"
  pc_crc :: "bytes \<Rightarrow> u32"

type_synonym range_index_entry = "bytes \<times> bytes \<times> path"

record disk_layer =
  dl_layer :: layer
  dl_index :: "(u16, range_index_entry list) btmap"
  dl_content :: "(path, patch_entry list) hmap"

abbreviation decode_patch :: "patch_codec \<Rightarrow> bytes \<Rightarrow> z1_patch_format z1result" where
  "decode_patch c \<equiv> from_disk_bytes patch_v4 (pc_crc c) (pc_de c)"

subsection \<open>Opening\<close>

definition patch_bounds :: "z1_patch_format \<Rightarrow> bytes \<times> bytes" where
  "patch_bounds f = (unwrap_or [] (fst (key_bounds f)), unwrap_or [] (snd (key_bounds f)))"

text \<open>The patches of one directory; unreadable and corrupt files are skipped.\<close>

fun index_dir :: "patch_codec \<Rightarrow> path list \<Rightarrow> range_index_entry list \<Rightarrow> fs \<Rightarrow> range_index_entry list \<times> fs" where
  "index_dir c [] entries s = (entries, s)"
| "index_dir c (p # ps) entries s =
     (case sys_read p s of
        (Inl _, s1) \<Rightarrow> index_dir c ps entries s1
      | (Inr bs, s1) \<Rightarrow>
          (case decode_patch c bs of
             Inl _ \<Rightarrow> index_dir c ps entries s1
           | Inr f \<Rightarrow> index_dir c ps (entries @ [(fst (patch_bounds f), snd (patch_bounds f), p)]) s1))"

fun index_cfs ::
    "patch_codec \<Rightarrow> layer \<Rightarrow> u16 list \<Rightarrow> (u16, range_index_entry list) btmap \<Rightarrow> fs \<Rightarrow>
     (u16, range_index_entry list) btmap \<times> fs" where
  "index_cfs c l [] idx s = (idx, s)"
| "index_cfs c l (cf # cfs) idx s =
     (case sys_read_dir (CfDir l cf) s of
        (Inl _, s1) \<Rightarrow> index_cfs c l cfs idx s1
      | (Inr ps, s1) \<Rightarrow>
          (case index_dir c ps [] s1 of
             (entries, s2) \<Rightarrow> index_cfs c l cfs (bt_insert cf (sort_key fst entries) idx) s2))"

fun cf_of_dir :: "layer \<Rightarrow> dir \<Rightarrow> u16 option" where
  "cf_of_dir l (CfDir l' cf) = (if l = l' then Some cf else None)"
| "cf_of_dir l _ = None"

definition rebuild_index ::
    "patch_codec \<Rightarrow> layer \<Rightarrow> fs \<Rightarrow> (u16, range_index_entry list) btmap \<times> fs" where
  "rebuild_index c l s =
     (case next_io s of
        (IoFail _ _, s1) \<Rightarrow> ([], s1)
      | (IoDone, s1) \<Rightarrow>
          if LayerDir l \<notin> set (dirs s1) then ([], s1)
          else index_cfs c l (List.map_filter (cf_of_dir l) (dirs s1)) [] s1)"

definition disk_new :: "patch_codec \<Rightarrow> layer \<Rightarrow> fs \<Rightarrow> disk_layer \<times> fs" where
  "disk_new c l s =
     (case sys_create_dir_all (LayerDir l) s of
        (_, s1) \<Rightarrow>
          (case rebuild_index c l s1 of
             (idx, s2) \<Rightarrow> (\<lparr>dl_layer = l, dl_index = idx, dl_content = []\<rparr>, s2)))"

subsection \<open>Patches\<close>

definition load_patch ::
    "patch_codec \<Rightarrow> path \<Rightarrow> disk_layer \<Rightarrow> fs \<Rightarrow> patch_entry list z1result \<times> disk_layer \<times> fs" where
  "load_patch c p d s =
     (case hm_get (dl_content d) p of
        Some hit \<Rightarrow> (Inr hit, d, s)
      | None \<Rightarrow>
          (case sys_read p s of
             (Inl e, s1) \<Rightarrow> (Inl e, d, s1)
           | (Inr bs, s1) \<Rightarrow>
               (case decode_patch c bs of
                  Inl e \<Rightarrow> (Inl e, d, s1)
                | Inr (Sparse entries) \<Rightarrow>
                    (Inr entries, d\<lparr>dl_content := hm_insert p entries (dl_content d)\<rparr>, s1))))"

definition evict_patch :: "path \<Rightarrow> disk_layer \<Rightarrow> disk_layer" where
  "evict_patch p d = d\<lparr>dl_content := hm_remove p (dl_content d)\<rparr>"

definition remove_from_index :: "path \<Rightarrow> disk_layer \<Rightarrow> disk_layer" where
  "remove_from_index p d =
     d\<lparr>dl_index := map (\<lambda>(cf, es). (cf, filter (\<lambda>(_, _, q). q \<noteq> p) es)) (dl_index d)\<rparr>"

definition append_patch ::
    "patch_codec \<Rightarrow> nat \<times> nat \<times> nat \<Rightarrow> u16 \<Rightarrow> patch_entry list \<Rightarrow> u64 \<Rightarrow> disk_layer \<Rightarrow> fs \<Rightarrow>
     unit z1result \<times> disk_layer \<times> fs" where
  "append_patch c uuids cf entries pid d s =
     (if entries = [] then (Inr (), d, s)
      else case sys_create_dir_all (CfDir (dl_layer d) cf) s of
        (Inl e, s1) \<Rightarrow> (Inl e, d, s1)
      | (Inr _, s1) \<Rightarrow>
          (let fmt = sparse entries;
               zm = \<lparr>min_txn = unwrap_or 0 (min_txn_id fmt), max_txn = unwrap_or 0 (max_txn_id fmt),
                     zm_entry_count = entry_count fmt, min_key = fst (key_bounds fmt),
                     max_key = snd (key_bounds fmt)\<rparr>;
               patch = \<lparr>patch_id = pid, txn_range = (min_txn zm, max_txn zm), pformat = fmt, zone_map = zm\<rparr>;
               p = PatchFile (dl_layer d) cf pid
           in case to_disk_bytes patch_v4 (pc_crc c) (pc_ser c) (pformat patch) of
                Inl e \<Rightarrow> (Inl e, d, s1)
              | Inr bs \<Rightarrow>
                  (case write_durable uuids p bs s1 of
                     (Inl e, s2) \<Rightarrow> (Inl e, d, s2)
                   | (Inr _, s2) \<Rightarrow>
                       (let mn = unwrap_or [] (min_key (zone_map patch));
                            mx = unwrap_or [] (max_key (zone_map patch))
                        in (Inr (),
                            d\<lparr>dl_index := bt_insert cf (unwrap_or [] (hm_get (dl_index d) cf) @ [(mn, mx, p)])
                                            (dl_index d)\<rparr>, s2)))))"

subsection \<open>Reading\<close>

definition patch_version :: "u16 \<Rightarrow> patch_entry \<Rightarrow> z1_entry" where
  "patch_version cf pe =
     \<lparr>e_key = Z1Key cf (pe_key pe), e_txn_id = pe_txn_id pe, e_value = pe_value pe, e_ts = 0\<rparr>"

text \<open>The loop all readers share: load each patch; a vanished file is dropped from the index
  and skipped, any other error is returned.\<close>

fun patch_loop ::
    "patch_codec \<Rightarrow> (patch_entry list \<Rightarrow> 'a \<Rightarrow> 'a) \<Rightarrow> path list \<Rightarrow> 'a \<Rightarrow> disk_layer \<Rightarrow> fs \<Rightarrow>
     'a z1result \<times> disk_layer \<times> fs" where
  "patch_loop c f [] acc d s = (Inr acc, d, s)"
| "patch_loop c f (p # ps) acc d s =
     (case load_patch c p d s of
        (Inr entries, d1, s1) \<Rightarrow> patch_loop c f ps (f entries acc) d1 s1
      | (Inl e, d1, s1) \<Rightarrow>
          if e = Io NotFound then patch_loop c f ps acc (evict_patch p (remove_from_index p d1)) s1
          else (Inl e, d1, s1))"

definition index_paths :: "(bytes \<Rightarrow> bytes \<Rightarrow> bool) \<Rightarrow> u16 \<Rightarrow> disk_layer \<Rightarrow> path list" where
  "index_paths P cf d =
     (case hm_get (dl_index d) cf of
        Some es \<Rightarrow> map (\<lambda>(_, _, p). p) (filter (\<lambda>(mn, mx, _). P mn mx) es)
      | None \<Rightarrow> [])"

definition disk_get_versions ::
    "patch_codec \<Rightarrow> u16 \<Rightarrow> bytes \<Rightarrow> disk_layer \<Rightarrow> fs \<Rightarrow> z1_entry list z1result \<times> disk_layer \<times> fs" where
  "disk_get_versions c cf k d s =
     patch_loop c
       (\<lambda>entries out. out @ map (\<lambda>pe. \<lparr>e_key = Z1Key cf k, e_txn_id = pe_txn_id pe, e_value = pe_value pe, e_ts = 0\<rparr>)
                             (filter (\<lambda>pe. pe_key pe = k) entries))
       (index_paths (\<lambda>mn mx. k \<ge> mn \<and> k \<le> mx) cf d) [] d s"

fun range_patch ::
    "u16 \<Rightarrow> bytes \<Rightarrow> bytes option \<Rightarrow> patch_entry list \<Rightarrow> (bytes, z1_entry) btmap \<Rightarrow> (bytes, z1_entry) btmap" where
  "range_patch cf start end_key [] best = best"
| "range_patch cf start end_key (pe # es) best =
     range_patch cf start end_key es
       (if in_range start end_key (pe_key pe) then keep_newer (patch_version cf pe) best else best)"

definition disk_range_visible ::
    "patch_codec \<Rightarrow> u16 \<Rightarrow> bytes \<Rightarrow> bytes option \<Rightarrow> disk_layer \<Rightarrow> fs \<Rightarrow>
     (bytes \<times> z1_entry) list z1result \<times> disk_layer \<times> fs" where
  "disk_range_visible c cf start end_key d s =
     patch_loop c (range_patch cf start end_key)
       (index_paths (\<lambda>mn mx. mx \<ge> start \<and> (case end_key of Some e \<Rightarrow> mn < e | None \<Rightarrow> True)) cf d) [] d s"

definition all_versions ::
    "patch_codec \<Rightarrow> u16 \<Rightarrow> disk_layer \<Rightarrow> fs \<Rightarrow> z1_entry list z1result \<times> disk_layer \<times> fs" where
  "all_versions c cf d s =
     patch_loop c (\<lambda>entries out. out @ map (patch_version cf) entries) (index_paths (\<lambda>_ _. True) cf d) [] d s"

subsection \<open>Bookkeeping\<close>

fun file_patch_id :: "path \<Rightarrow> u64 option" where
  "file_patch_id (PatchFile _ _ pid) = Some pid"
| "file_patch_id _ = None"

definition patch_ids :: "u16 \<Rightarrow> disk_layer \<Rightarrow> fs \<Rightarrow> u64 list \<times> fs" where
  "patch_ids cf d s =
     (if CfDir (dl_layer d) cf \<notin> set (dirs s) then ([], s)
      else case sys_read_dir (CfDir (dl_layer d) cf) s of
             (Inl _, s1) \<Rightarrow> ([], s1)
           | (Inr ps, s1) \<Rightarrow> (List.map_filter file_patch_id ps, s1))"

definition max_patch_id :: "disk_layer \<Rightarrow> u64" where
  "max_patch_id d =
     unwrap_or 0 (iter_max (concat (map (\<lambda>(_, es). List.map_filter (\<lambda>(_, _, p). file_patch_id p) es) (dl_index d))))"

definition drop_cf :: "u16 \<Rightarrow> disk_layer \<Rightarrow> fs \<Rightarrow> unit z1result \<times> disk_layer \<times> fs" where
  "drop_cf cf d s =
     (case (if CfDir (dl_layer d) cf \<in> set (dirs s) then sys_remove_dir_all (CfDir (dl_layer d) cf) s
            else (Inr (), s)) of
        (Inl e, s1) \<Rightarrow> (Inl e, d, s1)
      | (Inr _, s1) \<Rightarrow>
          (Inr (), d\<lparr>dl_index := hm_remove cf (dl_index d),
                     dl_content := filter (\<lambda>q. parent_dir (fst q) \<noteq> CfDir (dl_layer d) cf) (dl_content d)\<rparr>, s1))"

definition list_cfs :: "disk_layer \<Rightarrow> u16 list" where
  "list_cfs d = map fst (dl_index d)"

subsection \<open>What a layer holds\<close>

definition patch_at :: "patch_codec \<Rightarrow> fs \<Rightarrow> path \<Rightarrow> patch_entry list option" where
  "patch_at c s p =
     (case hm_get (files s) p of
        None \<Rightarrow> None
      | Some n \<Rightarrow> (case decode_patch c (fdata n) of Inr (Sparse es) \<Rightarrow> Some es | Inl _ \<Rightarrow> None))"

definition entries_at :: "patch_codec \<Rightarrow> fs \<Rightarrow> range_index_entry list \<Rightarrow> patch_entry list" where
  "entries_at c s es = concat (map (\<lambda>(_, _, p). unwrap_or [] (patch_at c s p)) es)"

definition layer_contents :: "patch_codec \<Rightarrow> disk_layer \<Rightarrow> fs \<Rightarrow> u16 \<Rightarrow> patch_entry list" where
  "layer_contents c d s cf = entries_at c s (unwrap_or [] (hm_get (dl_index d) cf))"

definition index_ok :: "patch_codec \<Rightarrow> fs \<Rightarrow> layer \<Rightarrow> u16 \<Rightarrow> range_index_entry list \<Rightarrow> bool" where
  "index_ok c s l cf es \<longleftrightarrow>
     (\<forall>(mn, mx, p) \<in> set es. parent_dir p = CfDir l cf \<and>
        (\<exists>xs. patch_at c s p = Some xs \<and> (\<forall>e \<in> set xs. mn \<le> pe_key e \<and> pe_key e \<le> mx)))"

text \<open>The layer's invariant: every indexed file is there and decodes to entries within its
  bounds, and the cache agrees with the files.\<close>

definition disk_ok :: "patch_codec \<Rightarrow> disk_layer \<Rightarrow> fs \<Rightarrow> bool" where
  "disk_ok c d s \<longleftrightarrow>
     bt_wf (dl_index d) \<and> (\<forall>(cf, es) \<in> set (dl_index d). index_ok c s (dl_layer d) cf es) \<and>
     (\<forall>p xs. hm_get (dl_content d) p = Some xs \<longrightarrow> patch_at c s p = Some xs)"

lemma disk_ok_index:
  assumes "disk_ok c d s" "hm_get (dl_index d) cf = Some es"
  shows "index_ok c s (dl_layer d) cf es"
  using assms by (auto simp: disk_ok_def dest: map_of_SomeD)

lemma load_patch_ok:
  assumes "disk_ok c d s" "script s = []" "patch_at c s p = Some xs"
  shows "\<exists>d'. load_patch c p d s = (Inr xs, d', s) \<and> disk_ok c d' s \<and>
    dl_index d' = dl_index d \<and> dl_layer d' = dl_layer d"
proof (cases "hm_get (dl_content d) p")
  case None
  from assms(3) obtain n where n: "hm_get (files s) p = Some n" "decode_patch c (fdata n) = Inr (Sparse xs)"
    by (auto simp: patch_at_def split: option.splits sum.splits z1_patch_format.splits)
  have "load_patch c p d s = (Inr xs, d\<lparr>dl_content := hm_insert p xs (dl_content d)\<rparr>, s)"
    using n assms(2) None by (simp add: load_patch_def sys_read_def)
  with assms show ?thesis by (auto simp: disk_ok_def map_laws)
next
  case (Some hit)
  with assms have "hit = xs" by (auto simp: disk_ok_def)
  with Some assms show ?thesis by (simp add: load_patch_def)
qed

lemma patch_loop_ok:
  assumes "disk_ok c d s" "script s = []" "\<forall>p \<in> set ps. patch_at c s p \<noteq> None"
  shows "\<exists>d'. patch_loop c f ps acc d s = (Inr (fold (\<lambda>p. f (unwrap_or [] (patch_at c s p))) ps acc), d', s) \<and>
    disk_ok c d' s \<and> dl_index d' = dl_index d \<and> dl_layer d' = dl_layer d"
  using assms(1,3)
proof (induction ps arbitrary: acc d)
  case (Cons p ps)
  then obtain xs where xs: "patch_at c s p = Some xs" by auto
  obtain d1 where d1: "load_patch c p d s = (Inr xs, d1, s)" "disk_ok c d1 s" "dl_index d1 = dl_index d"
      "dl_layer d1 = dl_layer d"
    using load_patch_ok [OF Cons.prems(1) assms(2) xs] by blast
  from Cons.IH [OF d1(2), of "f xs acc"] Cons.prems(2) d1 xs show ?case by simp
qed simp

text \<open>Skipping patches by their bounds skips no entry of interest.\<close>

lemma fold_append_concat: "fold (\<lambda>p out. out @ g p) ps acc = acc @ concat (map g ps)"
  by (induction ps arbitrary: acc) auto

lemma pruned_concat:
  assumes "index_ok c s l cf es"
    and "\<And>mn mx e. mn \<le> pe_key e \<Longrightarrow> pe_key e \<le> mx \<Longrightarrow> Q e \<Longrightarrow> P mn mx"
  shows "concat (map (\<lambda>p. filter Q (unwrap_or [] (patch_at c s p)))
      (map (\<lambda>(_, _, p). p) (filter (\<lambda>(mn, mx, _). P mn mx) es))) = filter Q (entries_at c s es)"
  using assms(1)
proof (induction es)
  case (Cons e es)
  obtain mn mx p where e: "e = (mn, mx, p)" by (metis prod.exhaust)
  have "filter Q (unwrap_or [] (patch_at c s p)) = []" if "\<not> P mn mx"
  proof -
    obtain xs where "patch_at c s p = Some xs" "\<forall>e \<in> set xs. mn \<le> pe_key e \<and> pe_key e \<le> mx"
      using Cons.prems by (auto simp: index_ok_def e)
    with assms(2) that show ?thesis by (auto simp: filter_empty_conv)
  qed
  moreover have "index_ok c s l cf es" using Cons.prems by (simp add: index_ok_def)
  ultimately show ?case using Cons.IH by (simp add: e entries_at_def)
qed (simp add: entries_at_def)

lemma index_paths_present:
  assumes "disk_ok c d s"
  shows "\<forall>p \<in> set (index_paths P cf d). patch_at c s p \<noteq> None"
proof (cases "hm_get (dl_index d) cf")
  case None
  then show ?thesis by (simp add: index_paths_def)
next
  case (Some es)
  have "index_ok c s (dl_layer d) cf es" by (rule disk_ok_index [OF assms Some])
  then show ?thesis by (auto simp: index_paths_def index_ok_def Some simp del: map_of_eq_Some_iff)
qed

lemma index_paths_contents:
  assumes "disk_ok c d s"
    and "\<And>mn mx e. mn \<le> pe_key e \<Longrightarrow> pe_key e \<le> mx \<Longrightarrow> Q e \<Longrightarrow> P mn mx"
  shows "concat (map (\<lambda>p. filter Q (unwrap_or [] (patch_at c s p))) (index_paths P cf d)) =
    filter Q (layer_contents c d s cf)"
proof (cases "hm_get (dl_index d) cf")
  case None
  then show ?thesis by (simp add: index_paths_def layer_contents_def entries_at_def)
next
  case (Some es)
  then show ?thesis
    using pruned_concat [OF disk_ok_index [OF assms(1) Some] assms(2)]
    by (simp add: index_paths_def layer_contents_def)
qed

lemma concat_map_map: "concat (map (\<lambda>p. map h (g p)) ps) = map h (concat (map g ps))"
  by (induction ps) auto

lemma disk_get_versions_ok:
  assumes "disk_ok c d s" "script s = []"
  shows "\<exists>d'. disk_get_versions c cf k d s =
      (Inr (map (patch_version cf) (filter (\<lambda>pe. pe_key pe = k) (layer_contents c d s cf))), d', s) \<and>
    disk_ok c d' s \<and> dl_index d' = dl_index d \<and> dl_layer d' = dl_layer d"
proof -
  let ?P = "\<lambda>mn mx. k \<ge> mn \<and> k \<le> mx" and ?Q = "\<lambda>pe. pe_key pe = k"
  let ?h = "\<lambda>pe. \<lparr>e_key = Z1Key cf k, e_txn_id = pe_txn_id pe, e_value = pe_value pe, e_ts = 0\<rparr>"
  have "map ?h (filter ?Q xs) = map (patch_version cf) (filter ?Q xs)" for xs
    by (simp add: patch_version_def)
  then have "fold (\<lambda>p out. out @ map ?h (filter ?Q (unwrap_or [] (patch_at c s p)))) (index_paths ?P cf d) [] =
      map (patch_version cf) (filter ?Q (layer_contents c d s cf))"
    using index_paths_contents [OF assms(1), of ?Q ?P cf]
    by (simp add: fold_append_concat concat_map_map)
  then show ?thesis
    unfolding disk_get_versions_def
    using patch_loop_ok [OF assms index_paths_present [OF assms(1)],
        of "\<lambda>entries out. out @ map ?h (filter ?Q entries)" ?P cf "[]"] by simp
qed

lemma all_versions_ok:
  assumes "disk_ok c d s" "script s = []"
  shows "\<exists>d'. all_versions c cf d s = (Inr (map (patch_version cf) (layer_contents c d s cf)), d', s) \<and>
    disk_ok c d' s \<and> dl_index d' = dl_index d \<and> dl_layer d' = dl_layer d"
proof -
  have "fold (\<lambda>p out. out @ map (patch_version cf) (unwrap_or [] (patch_at c s p)))
      (index_paths (\<lambda>_ _. True) cf d) [] = map (patch_version cf) (layer_contents c d s cf)"
    using index_paths_contents [OF assms(1), of "\<lambda>_. True" "\<lambda>_ _. True" cf]
    by (simp add: fold_append_concat concat_map_map)
  then show ?thesis
    unfolding all_versions_def
    using patch_loop_ok [OF assms index_paths_present [OF assms(1)],
        of "\<lambda>entries out. out @ map (patch_version cf) entries" "\<lambda>_ _. True" cf "[]"] by simp
qed

lemma range_patch_append:
  "range_patch cf start end_key (xs @ ys) best = range_patch cf start end_key ys (range_patch cf start end_key xs best)"
  by (induction xs arbitrary: best) auto

lemma range_patch_filter:
  "range_patch cf start end_key es best =
     range_patch cf start end_key (filter (\<lambda>pe. in_range start end_key (pe_key pe)) es) best"
  by (induction es arbitrary: best) auto

lemma fold_range_patch:
  "fold (\<lambda>p. range_patch cf start end_key (g p)) ps best = range_patch cf start end_key (concat (map g ps)) best"
  by (induction ps arbitrary: best) (auto simp: range_patch_append)

lemma disk_range_visible_ok:
  assumes "disk_ok c d s" "script s = []"
  shows "\<exists>d'. disk_range_visible c cf start end_key d s =
      (Inr (range_patch cf start end_key (layer_contents c d s cf) []), d', s) \<and>
    disk_ok c d' s \<and> dl_index d' = dl_index d \<and> dl_layer d' = dl_layer d"
proof -
  let ?P = "\<lambda>mn mx. mx \<ge> start \<and> (case end_key of Some e \<Rightarrow> mn < e | None \<Rightarrow> True)"
  let ?Q = "\<lambda>pe. in_range start end_key (pe_key pe)"
  let ?g = "\<lambda>p. unwrap_or [] (patch_at c s p)"
  have prune: "?P mn mx" if "mn \<le> pe_key e" "pe_key e \<le> mx" "?Q e" for mn mx e
    using that by (auto simp: in_range_def not_less not_le split: option.splits)
  have "fold (\<lambda>p. range_patch cf start end_key (?g p)) (index_paths ?P cf d) [] =
      range_patch cf start end_key (filter ?Q (concat (map ?g (index_paths ?P cf d)))) []"
    unfolding fold_range_patch by (rule range_patch_filter)
  also have "filter ?Q (concat (map ?g (index_paths ?P cf d))) = filter ?Q (layer_contents c d s cf)"
    using index_paths_contents [where Q = ?Q and P = ?P and cf = cf, OF assms(1) prune] by (simp add: filter_concat comp_def)
  finally have "fold (\<lambda>p. range_patch cf start end_key (?g p)) (index_paths ?P cf d) [] =
      range_patch cf start end_key (layer_contents c d s cf) []"
    by (simp flip: range_patch_filter)
  then show ?thesis
    unfolding disk_range_visible_def
    using patch_loop_ok [OF assms index_paths_present [OF assms(1)],
        of "range_patch cf start end_key" ?P cf "[]"] by simp
qed

subsection \<open>Writing\<close>

lemma patch_at_cong: "hm_get (files s') p = hm_get (files s) p \<Longrightarrow> patch_at c s' p = patch_at c s p"
  by (simp add: patch_at_def)

definition indexed_paths :: "disk_layer \<Rightarrow> path set" where
  "indexed_paths d = {p. \<exists>cf es mn mx. (cf, es) \<in> set (dl_index d) \<and> (mn, mx, p) \<in> set es}"

abbreviation layer_paths :: "disk_layer \<Rightarrow> path set" where
  "layer_paths d \<equiv> indexed_paths d \<union> dom (map_of (dl_content d))"

lemma index_ok_cong:
  assumes "index_ok c s l cf es" "\<And>mn mx p. (mn, mx, p) \<in> set es \<Longrightarrow> patch_at c s' p = patch_at c s p"
  shows "index_ok c s' l cf es"
  using assms by (fastforce simp: index_ok_def)

lemma entries_at_cong:
  assumes "\<And>mn mx p. (mn, mx, p) \<in> set es \<Longrightarrow> patch_at c s' p = patch_at c s p"
  shows "entries_at c s' es = entries_at c s es"
  unfolding entries_at_def by (rule arg_cong [of _ _ concat], rule map_cong) (auto simp: assms)

text \<open>A change of the file system that leaves the layer's files alone.\<close>

lemma disk_ok_cong:
  assumes "disk_ok c d s" "\<And>p. p \<in> layer_paths d \<Longrightarrow> hm_get (files s') p = hm_get (files s) p"
  shows "disk_ok c d s'" "layer_contents c d s' cf = layer_contents c d s cf"
proof -
  have same: "patch_at c s' p = patch_at c s p" if "(cf, es) \<in> set (dl_index d)" "(mn, mx, p) \<in> set es" for cf es mn mx p
    using that by (intro patch_at_cong assms(2)) (auto simp: indexed_paths_def)
  have "\<forall>(cf, es) \<in> set (dl_index d). index_ok c s' (dl_layer d) cf es"
    using assms(1) same by (auto simp: disk_ok_def intro: index_ok_cong)
  moreover have "patch_at c s' p = Some xs" if "hm_get (dl_content d) p = Some xs" for p xs
  proof -
    have "patch_at c s' p = patch_at c s p" using that by (intro patch_at_cong assms(2)) auto
    with assms(1) that show ?thesis by (simp add: disk_ok_def)
  qed
  ultimately show "disk_ok c d s'" using assms(1) by (simp add: disk_ok_def)
  show "layer_contents c d s' cf = layer_contents c d s cf"
    unfolding layer_contents_def
    by (cases "hm_get (dl_index d) cf") (auto intro!: entries_at_cong same dest: map_of_SomeD)
qed

definition fresh_for :: "disk_layer \<Rightarrow> path \<Rightarrow> nat \<times> nat \<times> nat \<Rightarrow> bool" where
  "fresh_for d p uuids \<longleftrightarrow>
     (case uuids of (a, b, e) \<Rightarrow> \<forall>q \<in> layer_paths d. q \<noteq> p \<and> q \<notin> TempFile p ` {a, b, e})"

lemma write_keeps_layer:
  assumes "disk_ok c d s" "write_durable uuids p bs s = (r, s')" "fresh_for d p uuids"
  shows "disk_ok c d s'" "layer_contents c d s' cf = layer_contents c d s cf"
proof -
  obtain a b e where u: "uuids = (a, b, e)" by (metis prod.exhaust)
  have "hm_get (files s') q = hm_get (files s) q" if "q \<in> layer_paths d" for q
  proof -
    have "q \<noteq> p" "q \<notin> TempFile p ` {a, b, e}" using assms(3) that unfolding fresh_for_def u by auto
    with undisturbed_write_durable [OF assms(2) [unfolded u]] show ?thesis
      by (simp add: undisturbed_def)
  qed
  from disk_ok_cong [OF assms(1) this] show "disk_ok c d s'" "layer_contents c d s' cf = layer_contents c d s cf"
    by blast+
qed

lemma create_dir_frame: "sys_create_dir_all d s = (r, s') \<Longrightarrow> files s' = files s"
proof -
  assume a: "sys_create_dir_all d s = (r, s')"
  obtain y s1 where io: "next_io s = (y, s1)" by fastforce
  from a io_frame [OF io] show ?thesis by (auto simp: sys_create_dir_all_def io split: io_outcome.splits)
qed

lemma write_durable_Inr:
  assumes "write_durable uuids p bs s = (Inr q, s')"
  shows "hm_get (files s') p = Some \<lparr>fdata = bs, fdurable = bs\<rparr>"
proof -
  obtain a b c where u: "uuids = (a, b, c)" by (metis prod.exhaust)
  have "replaces p bs (Inr q) s s'"
    using assms by (auto simp: write_durable_def u simp del: write_durable_loop.simps intro: replaces_loop)
  then show ?thesis by (simp add: replaces_def)
qed

lemma key_bounds_cover:
  assumes "e \<in> set es"
  shows "unwrap_or [] (fst (key_bounds (sparse es))) \<le> pe_key e \<and>
    pe_key e \<le> unwrap_or [] (snd (key_bounds (sparse es)))"
  using assms by (elim key_bounds_sparse) simp

text \<open>The index after a patch was pushed.\<close>

lemma push_index:
  assumes ok: "disk_ok c d s" and p: "p = PatchFile (dl_layer d) cf pid"
    and at: "patch_at c s p = Some (sort_key patch_order entries)"
    and d': "d' = d\<lparr>dl_index := bt_insert cf (unwrap_or [] (hm_get (dl_index d) cf) @
      [(unwrap_or [] (fst (key_bounds (sparse entries))), unwrap_or [] (snd (key_bounds (sparse entries))), p)])
        (dl_index d)\<rparr>"
  shows "disk_ok c d' s"
    "layer_contents c d' s cf' = (if cf' = cf then layer_contents c d s cf @ sort_key patch_order entries
       else layer_contents c d s cf')"
proof -
  let ?es = "unwrap_or [] (hm_get (dl_index d) cf)"
  let ?e = "(unwrap_or [] (fst (key_bounds (sparse entries))), unwrap_or [] (snd (key_bounds (sparse entries))), p)"
  have wf: "bt_wf (dl_index d)" using ok by (simp add: disk_ok_def)
  have old: "index_ok c s (dl_layer d) cf ?es"
    using disk_ok_index [OF ok, of cf] by (cases "hm_get (dl_index d) cf") (simp_all add: index_ok_def)
  have new: "index_ok c s (dl_layer d) cf [?e]"
    using at key_bounds_cover [of _ entries] by (simp add: index_ok_def p)
  have both: "index_ok c s (dl_layer d) cf (?es @ [?e])" using old new by (auto simp: index_ok_def)
  have "\<forall>(cf', es) \<in> set (bt_insert cf (?es @ [?e]) (dl_index d)). index_ok c s (dl_layer d) cf' es"
    unfolding bt.set_insert [OF wf] using both ok by (auto simp: disk_ok_def)
  then show "disk_ok c d' s" using ok by (simp add: disk_ok_def d' map_laws)
  show "layer_contents c d' s cf' = (if cf' = cf then layer_contents c d s cf @ sort_key patch_order entries
       else layer_contents c d s cf')"
    using at wf by (simp add: layer_contents_def d' map_laws entries_at_def)
qed

lemma append_patch_ok:
  assumes ok: "disk_ok c d s" and serde: "serde_ok (pc_ser c) (pc_de c)"
    and fresh: "fresh_for d (PatchFile (dl_layer d) cf pid) uuids"
    and ap: "append_patch c uuids cf entries pid d s = (r, d', s')"
  shows "disk_ok c d' s' \<and> dl_layer d' = dl_layer d \<and>
    (case r of
       Inl _ \<Rightarrow> (\<forall>cf'. layer_contents c d' s' cf' = layer_contents c d s cf')
     | Inr _ \<Rightarrow> (\<forall>cf'. layer_contents c d' s' cf' =
         (if cf' = cf then layer_contents c d s cf @ sort_key patch_order entries else layer_contents c d s cf')))"
proof (cases "entries = []")
  case True
  with ap ok show ?thesis by (auto simp: append_patch_def)
next
  case False
  let ?p = "PatchFile (dl_layer d) cf pid"
  obtain r1 s1 where 1: "sys_create_dir_all (CfDir (dl_layer d) cf) s = (r1, s1)" by fastforce
  have f1: "hm_get (files s1) q = hm_get (files s) q" for q using create_dir_frame [OF 1] by simp
  note ok1 = disk_ok_cong [OF ok f1]
  show ?thesis
  proof (cases r1)
    case (Inl e)
    with ap False ok1 show ?thesis by (auto simp: append_patch_def 1)
  next
    case (Inr x)
    show ?thesis
    proof (cases "to_disk_bytes patch_v4 (pc_crc c) (pc_ser c) (sparse entries)")
      case (Inl e)
      with ap False ok1 \<open>r1 = Inr x\<close> show ?thesis by (auto simp: append_patch_def 1 Let_def)
    next
      case bs: (Inr bs)
      obtain r2 s2 where 2: "write_durable uuids ?p bs s1 = (r2, s2)" by fastforce
      note ok2 = write_keeps_layer [OF ok1(1) 2 fresh]
      show ?thesis
      proof (cases r2)
        case (Inl e)
        with ap False ok1 ok2 \<open>r1 = Inr x\<close> bs show ?thesis by (auto simp: append_patch_def 1 2 Let_def)
      next
        case (Inr q)
        have "decode_patch c bs = Inr (sparse entries)"
          using from_to_disk_bytes [OF patch_v4_wf serde bs, of "[]"] by simp
        then have at: "patch_at c s2 ?p = Some (sort_key patch_order entries)"
          using write_durable_Inr [OF 2 [unfolded Inr]] by (simp add: patch_at_def sparse_def)
        have res: "r = Inr ()" "s' = s2" "d' = d\<lparr>dl_index := bt_insert cf (unwrap_or [] (hm_get (dl_index d) cf) @
            [(unwrap_or [] (fst (key_bounds (sparse entries))), unwrap_or [] (snd (key_bounds (sparse entries))), ?p)])
              (dl_index d)\<rparr>"
          using ap False \<open>r1 = Inr x\<close> bs Inr by (auto simp: append_patch_def 1 2 Let_def)
        note push = push_index [OF ok2(1) refl at res(3)]
        show ?thesis using push ok1 ok2 res by auto
      qed
    qed
  qed
qed

lemma fold_name_changes_frame [simp]:
  "files (fold name_changes ps s) = files s" "dirs (fold name_changes ps s) = dirs s"
  "script (fold name_changes ps s) = script s"
  by (induction ps arbitrary: s) simp_all

lemma remove_dir_files:
  assumes "sys_remove_dir_all d s = (r, s')"
  shows "files s' = (case r of Inl _ \<Rightarrow> files s | Inr _ \<Rightarrow> filter (\<lambda>q. parent_dir (fst q) \<noteq> d) (files s))"
proof -
  obtain y s1 where io: "next_io s = (y, s1)" by fastforce
  from assms io_frame [OF io] show ?thesis
    by (auto simp: sys_remove_dir_all_def io split: io_outcome.splits if_splits)
qed

lemma drop_cf_ok:
  assumes ok: "disk_ok c d s" and dr: "drop_cf cf d s = (r, d', s')"
  shows "disk_ok c d' s' \<and> dl_layer d' = dl_layer d \<and>
    (\<forall>cf'. layer_contents c d' s' cf' =
      (if (\<exists>x. r = Inr x) \<and> cf' = cf then [] else layer_contents c d s cf'))"
proof -
  let ?D = "CfDir (dl_layer d) cf"
  obtain r1 s1 where 1: "(if ?D \<in> set (dirs s) then sys_remove_dir_all ?D s else (Inr (), s)) = (r1, s1)"
    by fastforce
  have r1: "\<exists>x. r1 = Inr x" if "\<exists>x. r = Inr x"
    using that dr by (auto simp: drop_cf_def 1 split: sum.splits)
  have f: "hm_get (files s1) q = hm_get (files s) q" if "parent_dir q \<noteq> ?D \<or> (\<exists>e. r1 = Inl e)" for q
    using 1 that by (auto dest!: remove_dir_files split: if_splits sum.splits
        simp: map_of_filter_fst [where P = "\<lambda>p. parent_dir p \<noteq> ?D"])
  show ?thesis
  proof (cases r1)
    case (Inl e)
    then have "r = Inl e" "d' = d" "s' = s1" using dr by (simp_all add: drop_cf_def 1)
    with disk_ok_cong [OF ok f] Inl show ?thesis by auto
  next
    case (Inr x)
    let ?d = "d\<lparr>dl_index := hm_remove cf (dl_index d),
        dl_content := filter (\<lambda>q. parent_dir (fst q) \<noteq> ?D) (dl_content d)\<rparr>"
    have res: "r = Inr ()" "d' = ?d" "s' = s1" using dr Inr by (simp_all add: drop_cf_def 1)
    have "parent_dir q \<noteq> ?D" if "q \<in> layer_paths ?d" for q
      using that ok by (fastforce simp: indexed_paths_def hm_remove_def disk_ok_def index_ok_def dom_def
          map_of_filter_fst [where P = "\<lambda>p. parent_dir p \<noteq> ?D"] split: if_splits)
    then have same: "hm_get (files s1) q = hm_get (files s) q" if "q \<in> layer_paths ?d" for q
      using that f by blast
    have ok': "disk_ok c ?d s"
      using ok by (auto simp: disk_ok_def map_laws hm_remove_def bt_wf_filter
          map_of_filter_fst [where P = "\<lambda>p. parent_dir p \<noteq> ?D"] split: if_splits)
    have "layer_contents c ?d s cf' = (if cf' = cf then [] else layer_contents c d s cf')" for cf'
      by (simp add: layer_contents_def map_laws entries_at_def)
    with disk_ok_cong [OF ok' same] res show ?thesis by auto
  qed
qed

subsection \<open>Reopening\<close>

lemma index_dir_ok:
  assumes "script s = []"
  shows "\<exists>xs. index_dir c ps entries s = (entries @ xs, s) \<and>
    map (\<lambda>(_, _, p). p) xs = filter (\<lambda>p. patch_at c s p \<noteq> None) ps \<and>
    (\<forall>(mn, mx, p) \<in> set xs. \<exists>es. patch_at c s p = Some es \<and> (mn, mx) = patch_bounds (Sparse es))"
proof (induction ps arbitrary: entries)
  case (Cons p ps)
  show ?case
  proof (cases "patch_at c s p")
    case None
    then have "index_dir c (p # ps) entries s = index_dir c ps entries s"
      using assms by (auto simp: sys_read_def patch_at_def split: option.splits sum.splits z1_patch_format.splits)
    with Cons None show ?thesis by simp
  next
    case (Some es)
    let ?e = "(fst (patch_bounds (Sparse es)), snd (patch_bounds (Sparse es)), p)"
    have "index_dir c (p # ps) entries s = index_dir c ps (entries @ [?e]) s"
      using assms Some by (auto simp: sys_read_def patch_at_def split: option.splits sum.splits z1_patch_format.splits)
    moreover obtain xs where "index_dir c ps (entries @ [?e]) s = ((entries @ [?e]) @ xs, s)"
        "map (\<lambda>(_, _, p). p) xs = filter (\<lambda>p. patch_at c s p \<noteq> None) ps"
        "\<forall>(mn, mx, p) \<in> set xs. \<exists>es. patch_at c s p = Some es \<and> (mn, mx) = patch_bounds (Sparse es)"
      using Cons [of "entries @ [?e]"] by blast
    ultimately show ?thesis using Some by (intro exI [of _ "?e # xs"]) auto
  qed
qed simp

text \<open>Patches on disk are sorted, so that the recomputed bounds cover them.\<close>

definition patches_sorted :: "patch_codec \<Rightarrow> fs \<Rightarrow> bool" where
  "patches_sorted c s \<longleftrightarrow> (\<forall>p es. patch_at c s p = Some es \<longrightarrow> sorted (map patch_order es))"

lemma patch_bounds_sorted:
  assumes "sorted (map patch_order es)" "e \<in> set es"
  shows "fst (patch_bounds (Sparse es)) \<le> pe_key e \<and> pe_key e \<le> snd (patch_bounds (Sparse es))"
proof -
  have "sort_key patch_order es = es" using assms(1) by (simp add: sorted_sort_id sort_key_id_if_sorted)
  then have "Sparse es = sparse es" by (simp add: sparse_def)
  with key_bounds_cover [OF assms(2)] show ?thesis by (simp add: patch_bounds_def)
qed

definition index_of_dir :: "patch_codec \<Rightarrow> layer \<Rightarrow> fs \<Rightarrow> u16 \<Rightarrow> range_index_entry list" where
  "index_of_dir c l s cf = sort_key fst (fst (index_dir c (dir_files (CfDir l cf) s) [] s))"

lemma index_cfs_fold:
  assumes "script s = []" "\<forall>cf \<in> set cfs. CfDir l cf \<in> set (dirs s)"
  shows "index_cfs c l cfs idx s = (fold (\<lambda>cf. bt_insert cf (index_of_dir c l s cf)) cfs idx, s)"
  using assms(2)
proof (induction cfs arbitrary: idx)
  case (Cons cf cfs)
  obtain xs where "index_dir c (dir_files (CfDir l cf) s) [] s = (xs, s)"
    using index_dir_ok [OF assms(1), of c "dir_files (CfDir l cf) s" "[]"] by auto
  with Cons assms(1) show ?case by (simp add: sys_read_dir_def index_of_dir_def)
qed simp

lemma set_cf_dirs: "cf \<in> set (List.map_filter (cf_of_dir l) ds) \<longleftrightarrow> CfDir l cf \<in> set ds"
  by (induction ds) (auto simp: map_filter_simps split: option.splits if_splits elim!: cf_of_dir.elims)

lemma map_of_map_pairs: "map_of (map (\<lambda>k. (k, f k)) ks) k = (if k \<in> set ks then Some (f k) else None)"
  by (induction ks) auto

lemma rebuild_index_get:
  assumes "script s = []" "LayerDir l \<in> set (dirs s)" "rebuild_index c l s = (idx, s')"
  shows "s' = s" "bt_wf idx"
    "hm_get idx cf = (if CfDir l cf \<in> set (dirs s) then Some (index_of_dir c l s cf) else None)"
proof -
  let ?cfs = "List.map_filter (cf_of_dir l) (dirs s)"
  have idx: "idx = fold (\<lambda>cf. bt_insert cf (index_of_dir c l s cf)) ?cfs []" and "s' = s"
    using assms index_cfs_fold [OF assms(1), of ?cfs l c "[]"] by (auto simp: rebuild_index_def set_cf_dirs)
  then show "s' = s" "bt_wf idx" by (auto intro: bt.invar_insert_all)
  have "hm_get idx = Map.empty ++ map_of (rev (map (\<lambda>cf. (cf, index_of_dir c l s cf)) ?cfs))"
    unfolding idx by (subst bt.get_insert_all) simp_all
  then show "hm_get idx cf = (if CfDir l cf \<in> set (dirs s) then Some (index_of_dir c l s cf) else None)"
    by (simp add: rev_map map_of_map_pairs set_cf_dirs)
qed

lemma index_of_dir_paths:
  assumes "script s = []"
  shows "{p. \<exists>mn mx. (mn, mx, p) \<in> set (index_of_dir c l s cf)} =
       {p. hm_contains (files s) p \<and> parent_dir p = CfDir l cf \<and> patch_at c s p \<noteq> None}"
    "(mn, mx, p) \<in> set (index_of_dir c l s cf) \<Longrightarrow> \<exists>es. patch_at c s p = Some es \<and> (mn, mx) = patch_bounds (Sparse es)"
proof -
  obtain xs where xs: "index_dir c (dir_files (CfDir l cf) s) [] s = (xs, s)"
      "map (\<lambda>(_, _, p). p) xs = filter (\<lambda>p. patch_at c s p \<noteq> None) (dir_files (CfDir l cf) s)"
      "\<forall>(mn, mx, p) \<in> set xs. \<exists>es. patch_at c s p = Some es \<and> (mn, mx) = patch_bounds (Sparse es)"
    using index_dir_ok [OF assms, of c "dir_files (CfDir l cf) s" "[]"] by auto
  have set: "set (index_of_dir c l s cf) = set xs" by (simp add: index_of_dir_def xs(1))
  have "(\<lambda>(_, _, p). p) ` set xs =
      {p. hm_contains (files s) p \<and> parent_dir p = CfDir l cf \<and> patch_at c s p \<noteq> None}"
    using arg_cong [OF xs(2), of set] by (auto simp: dir_files_def)
  then show "{p. \<exists>mn mx. (mn, mx, p) \<in> set (index_of_dir c l s cf)} =
       {p. hm_contains (files s) p \<and> parent_dir p = CfDir l cf \<and> patch_at c s p \<noteq> None}"
    unfolding set by force
  show "(mn, mx, p) \<in> set (index_of_dir c l s cf) \<Longrightarrow> \<exists>es. patch_at c s p = Some es \<and> (mn, mx) = patch_bounds (Sparse es)"
    using xs(3) unfolding set by fast
qed

lemma index_of_dir_ok:
  assumes "script s = []" "patches_sorted c s"
  shows "index_ok c s l cf (index_of_dir c l s cf)"
  unfolding index_ok_def
proof (clarify, intro conjI)
  fix mn mx p
  assume m: "(mn, mx, p) \<in> set (index_of_dir c l s cf)"
  then show "parent_dir p = CfDir l cf" using index_of_dir_paths(1) [OF assms(1), of c l cf] by blast
  obtain es where es: "patch_at c s p = Some es" "(mn, mx) = patch_bounds (Sparse es)"
    using index_of_dir_paths(2) [OF assms(1) m] by blast
  then have "sorted (map patch_order es)" using assms(2) by (simp add: patches_sorted_def)
  with es show "\<exists>xs. patch_at c s p = Some xs \<and> (\<forall>e \<in> set xs. mn \<le> pe_key e \<and> pe_key e \<le> mx)"
    by (metis fst_conv patch_bounds_sorted snd_conv)
qed

lemma patch_at_contains: "patch_at c s p = Some es \<Longrightarrow> hm_contains (files s) p"
  by (force simp: patch_at_def split: option.splits dest: map_of_SomeD)

lemma patch_at_same_files: "files s' = files s \<Longrightarrow> patch_at c s' p = patch_at c s p"
  by (simp add: patch_at_def)

lemma disk_new_eq:
  assumes "script s = []" "disk_new c l s = (d, s')"
  shows "files s' = files s" "script s' = []" "set (dirs s) \<subseteq> set (dirs s')" "dl_layer d = l" "dl_content d = []" "bt_wf (dl_index d)"
    "hm_get (dl_index d) cf = (if CfDir l cf \<in> set (dirs s') then Some (index_of_dir c l s' cf) else None)"
proof -
  obtain r1 s1 where 1: "sys_create_dir_all (LayerDir l) s = (r1, s1)" by fastforce
  have s1: "s1 = s\<lparr>dirs := fold List.insert (with_ancestors (LayerDir l)) (dirs s)\<rparr>" "r1 = Inr ()"
    using 1 assms(1) by (auto simp: sys_create_dir_all_def)
  obtain idx s2 where 2: "rebuild_index c l s1 = (idx, s2)" by fastforce
  have d: "d = \<lparr>dl_layer = l, dl_index = idx, dl_content = []\<rparr>" "s' = s2"
    using assms(2) by (simp_all add: disk_new_def 1 2)
  have "script s1 = []" "LayerDir l \<in> set (dirs s1)" using assms(1) by (simp_all add: s1)
  note g = rebuild_index_get [OF this 2]
  show "files s' = files s" "script s' = []" "set (dirs s) \<subseteq> set (dirs s')" using d g(1) by (auto simp: s1 assms(1) set_insert_dirs)
  show "dl_layer d = l" "dl_content d = []" "bt_wf (dl_index d)"
    "hm_get (dl_index d) cf = (if CfDir l cf \<in> set (dirs s') then Some (index_of_dir c l s' cf) else None)"
    using d g by simp_all
qed

text \<open>Whatever the patches hold, a rebuilt layer holds exactly what the files of its directories
  decode to.\<close>

lemma disk_new_contents:
  assumes "script s = []" "disk_new c l s = (d, s')" "CfDir l cf \<in> set (dirs s)"
  shows "set (layer_contents c d s' cf) = {e. \<exists>p es. parent_dir p = CfDir l cf \<and> patch_at c s p = Some es \<and> e \<in> set es}"
proof -
  note n = disk_new_eq [OF assms(1,2)]
  have at: "patch_at c s' p = patch_at c s p" for p by (rule patch_at_same_files [OF n(1)])
  have "hm_get (dl_index d) cf = Some (index_of_dir c l s' cf)" using n(7) [of cf] n(3) assms(3) by auto
  then have "set (layer_contents c d s' cf) =
      {e. \<exists>p \<in> {p. \<exists>mn mx. (mn, mx, p) \<in> set (index_of_dir c l s' cf)}. e \<in> set (unwrap_or [] (patch_at c s' p))}"
    by (force simp: layer_contents_def entries_at_def)
  also have "\<dots> = {e. \<exists>p es. parent_dir p = CfDir l cf \<and> patch_at c s p = Some es \<and> e \<in> set es}"
    unfolding index_of_dir_paths(1) [OF n(2)] at using patch_at_contains [of c s] by (fastforce simp: n(1))
  finally show ?thesis .
qed

lemma disk_new_ok:
  assumes "script s = []" "patches_sorted c s" "disk_new c l s = (d, s')"
  shows "disk_ok c d s'" "dl_layer d = l" "files s' = files s" "script s' = []"
proof -
  note n = disk_new_eq [OF assms(1,3)]
  show "dl_layer d = l" "files s' = files s" "script s' = []" using n by simp_all
  have sorted: "patches_sorted c s'" using assms(2) patch_at_same_files [OF n(1)] by (simp add: patches_sorted_def)
  have "\<forall>(cf, es) \<in> set (dl_index d). index_ok c s' l cf es"
  proof clarify
    fix cf es
    assume "(cf, es) \<in> set (dl_index d)"
    then have "hm_get (dl_index d) cf = Some es" using n(6) by (simp add: bt_wf_distinct)
    then have "es = index_of_dir c l s' cf" using n(7) [of cf] by (simp split: if_splits)
    then show "index_ok c s' l cf es" using index_of_dir_ok [OF n(2) sorted] by simp
  qed
  then show "disk_ok c d s'" using n(4-6) by (simp add: disk_ok_def)
qed

subsection \<open>Properties\<close>

text \<open>A codec given by a table of patches and their encodings, for concrete runs.\<close>

definition table_codec :: "(z1_patch_format \<times> bytes) list \<Rightarrow> patch_codec" where
  "table_codec t = \<lparr>pc_ser = map_of t, pc_de = map_of (map prod.swap t), pc_crc = (\<lambda>b. of_nat (length b))\<rparr>"

lemma table_codec_ok:
  assumes "distinct (map snd t)"
  shows "serde_ok (pc_ser (table_codec t)) (pc_de (table_codec t))"
proof -
  have d: "distinct (map fst (map prod.swap t))" using assms by (simp add: comp_def)
  have "map_of (map prod.swap t) b = Some x" if "map_of t x = Some b" for x b
  proof -
    have "(b, x) \<in> set (map prod.swap t)" using map_of_SomeD [OF that] by force
    with d show ?thesis by (rule map_of_is_SomeI)
  qed
  then show ?thesis by (simp add: serde_ok_def table_codec_def)
qed

text \<open>
  C28. Reads of a disk layer are exact. On a layer in its invariant with working I/O, reading
  a key through the range index and the cache gives exactly the versions of the key that the
  indexed patch files contain, in index order; a range read folds exactly the entries of the
  range; and reading changes neither the contents nor the invariant.
\<close>

theorem disk_reads_exact:
  assumes "disk_ok c d s" and "script s = []"
  shows "\<exists>d1 d2 d3.
    disk_get_versions c cf k d s =
      (Inr (map (patch_version cf) (filter (\<lambda>pe. pe_key pe = k) (layer_contents c d s cf))), d1, s) \<and>
    disk_range_visible c cf start end_key d s =
      (Inr (range_patch cf start end_key (layer_contents c d s cf) []), d2, s) \<and>
    all_versions c cf d s = (Inr (map (patch_version cf) (layer_contents c d s cf)), d3, s) \<and>
    disk_ok c d1 s \<and> disk_ok c d2 s \<and> disk_ok c d3 s \<and>
    dl_index d1 = dl_index d \<and> dl_index d2 = dl_index d \<and> dl_index d3 = dl_index d"
  using disk_get_versions_ok [OF assms, of cf k] disk_range_visible_ok [OF assms, of cf start end_key]
    all_versions_ok [OF assms, of cf] by blast

definition sample_patch :: "patch_entry list" where
  "sample_patch = [\<lparr>pe_key = [1], pe_value = Some [7], pe_txn_id = 3\<rparr>, \<lparr>pe_key = [4], pe_value = None, pe_txn_id = 2\<rparr>]"

definition sample_pc :: patch_codec where
  "sample_pc = table_codec [(Sparse sample_patch, [42])]"

definition quiet_fs :: fs where
  "quiet_fs = \<lparr>files = [], unsynced = [], dirs = [DataDir], script = [], mono_clock = 0\<rparr>"

lemma sample_pc_ok: "serde_ok (pc_ser sample_pc) (pc_de sample_pc)"
  unfolding sample_pc_def by (rule table_codec_ok) simp

lemma empty_layer_ok: "disk_ok c \<lparr>dl_layer = l, dl_index = [], dl_content = []\<rparr> s"
  by (simp add: disk_ok_def)

lemma sort_sample: "sort_key patch_order sample_patch = sample_patch"
  by (simp add: sample_patch_def patch_order_def)

lemma append_sample:
  "fst (append_patch sample_pc (0, 1, 2) 0 sample_patch 1 \<lparr>dl_layer = L2, dl_index = [], dl_content = []\<rparr> quiet_fs)
     = Inr () \<and>
   script (snd (snd (append_patch sample_pc (0, 1, 2) 0 sample_patch 1
      \<lparr>dl_layer = L2, dl_index = [], dl_content = []\<rparr> quiet_fs))) = []"
  by (simp add: append_patch_def sample_pc_def table_codec_def sparse_def sort_sample to_disk_bytes_def
      quiet_fs_def sys_defs write_durable_def write_durable_once_def write_to_temp_def fsync_data_def
      fsync_file_def writer_commit_def atomic_rename_def fsync_parent_dir_def Let_def name_changes_def
      put_bytes_def hm_insert_def u32_max_nat_def)

theorem disk_reads_exact_witness:
  "fst (disk_get_versions sample_pc 0 [1]
     (fst (snd (append_patch sample_pc (0, 1, 2) 0 sample_patch 1 \<lparr>dl_layer = L2, dl_index = [], dl_content = []\<rparr> quiet_fs)))
     (snd (snd (append_patch sample_pc (0, 1, 2) 0 sample_patch 1 \<lparr>dl_layer = L2, dl_index = [], dl_content = []\<rparr> quiet_fs))))
   = Inr [\<lparr>e_key = Z1Key 0 [1], e_txn_id = 3, e_value = Some [7], e_ts = 0\<rparr>]"
proof -
  let ?e = "\<lparr>dl_layer = L2, dl_index = [], dl_content = []\<rparr> :: disk_layer"
  let ?a = "append_patch sample_pc (0, 1, 2) 0 sample_patch 1 ?e quiet_fs"
  let ?d = "fst (snd ?a)" and ?s = "snd (snd ?a)"
  have a: "?a = (Inr (), ?d, ?s)" using append_sample by (simp add: prod_eq_iff)
  have "fresh_for ?e (PatchFile (dl_layer ?e) 0 1) (0, 1, 2)" by (simp add: fresh_for_def indexed_paths_def)
  from append_patch_ok [OF empty_layer_ok sample_pc_ok this a]
  have ok: "disk_ok sample_pc ?d ?s" and c: "layer_contents sample_pc ?d ?s 0 = sample_patch"
    by (simp_all add: layer_contents_def entries_at_def sort_sample)
  from disk_reads_exact [OF ok conjunct2 [OF append_sample], of 0 "[1]" "[]" None]
  obtain d1 where g: "disk_get_versions sample_pc 0 [1] ?d ?s =
      (Inr (map (patch_version 0) (filter (\<lambda>pe. pe_key pe = [1]) (layer_contents sample_pc ?d ?s 0))), d1, ?s)"
    by blast
  show ?thesis unfolding g fst_conv c by (simp add: sample_patch_def patch_version_def)
qed

text \<open>
  Appending a patch. Whatever I/O fails, appending to a fresh patch id keeps the layer's
  invariant; on success the column family holds its old entries followed by the new ones in
  patch order, on failure the layer holds what it held before.
\<close>

lemma append_patch_spec:
  assumes "disk_ok c d s" and "serde_ok (pc_ser c) (pc_de c)"
    and "fresh_for d (PatchFile (dl_layer d) cf pid) uuids"
    and "append_patch c uuids cf entries pid d s = (r, d', s')"
  shows "disk_ok c d' s' \<and>
    (case r of
       Inl _ \<Rightarrow> (\<forall>cf'. layer_contents c d' s' cf' = layer_contents c d s cf')
     | Inr _ \<Rightarrow> (\<forall>cf'. layer_contents c d' s' cf' =
         (if cf' = cf then layer_contents c d s cf @ sort_key patch_order entries else layer_contents c d s cf')))"
  using append_patch_ok [OF assms] by blast

lemma append_patch_spec_example:
  "layer_contents sample_pc
     (fst (snd (append_patch sample_pc (0, 1, 2) 0 sample_patch 1 \<lparr>dl_layer = L2, dl_index = [], dl_content = []\<rparr> quiet_fs)))
     (snd (snd (append_patch sample_pc (0, 1, 2) 0 sample_patch 1 \<lparr>dl_layer = L2, dl_index = [], dl_content = []\<rparr> quiet_fs))) 0
   = sample_patch"
proof -
  let ?e = "\<lparr>dl_layer = L2, dl_index = [], dl_content = []\<rparr> :: disk_layer"
  let ?a = "append_patch sample_pc (0, 1, 2) 0 sample_patch 1 ?e quiet_fs"
  have a: "?a = (Inr (), fst (snd ?a), snd (snd ?a))" using append_sample by (simp add: prod_eq_iff)
  have "fresh_for ?e (PatchFile (dl_layer ?e) 0 1) (0, 1, 2)" by (simp add: fresh_for_def indexed_paths_def)
  from append_patch_spec [OF empty_layer_ok sample_pc_ok this a] show ?thesis
    by (simp add: layer_contents_def entries_at_def sort_sample)
qed

text \<open>
  Reopening finds every patch. Rebuilding the index from the directories gives a layer in
  its invariant that holds at least everything the previous layer held.
\<close>

lemma reopen_keeps_contents:
  assumes "disk_ok c d s" and "script s = []" and "patches_sorted c s"
    and "\<forall>p \<in> fst ` set (files s). parent_dir p \<in> set (dirs s)"
    and "disk_new c (dl_layer d) s = (d', s')"
  shows "disk_ok c d' s' \<and> set (layer_contents c d s cf) \<subseteq> set (layer_contents c d' s' cf)"
proof (cases "hm_get (dl_index d) cf")
  case None
  with disk_new_ok(1) [OF assms(2,3,5)] show ?thesis by (simp add: layer_contents_def entries_at_def)
next
  case (Some es)
  have ix: "index_ok c s (dl_layer d) cf es" by (rule disk_ok_index [OF assms(1) Some])
  show ?thesis
  proof (intro conjI subsetI)
    show "disk_ok c d' s'" by (rule disk_new_ok(1) [OF assms(2,3,5)])
    fix e
    assume "e \<in> set (layer_contents c d s cf)"
    then obtain mn mx p where p: "(mn, mx, p) \<in> set es" "e \<in> set (unwrap_or [] (patch_at c s p))"
      using Some by (auto simp: layer_contents_def entries_at_def simp del: map_of_eq_Some_iff)
    then obtain xs where xs: "patch_at c s p = Some xs" "parent_dir p = CfDir (dl_layer d) cf"
      using ix by (fastforce simp: index_ok_def)
    then have "CfDir (dl_layer d) cf \<in> set (dirs s)"
      using assms(4) patch_at_contains [OF xs(1)] by metis
    from disk_new_contents [OF assms(2,5) this] xs p(2) show "e \<in> set (layer_contents c d' s' cf)" by auto
  qed
qed

lemma reopen_keeps_contents_example:
  "disk_ok sample_pc (fst (disk_new sample_pc L3 quiet_fs)) (snd (disk_new sample_pc L3 quiet_fs))"
  using reopen_keeps_contents [OF empty_layer_ok, of quiet_fs sample_pc L3 "fst (disk_new sample_pc L3 quiet_fs)"
      "snd (disk_new sample_pc L3 quiet_fs)" 0]
  by (simp add: quiet_fs_def patches_sorted_def patch_at_def)

end
