(* ===== verification/Gc.thy ===== *)
theory Gc
  imports Types
begin

section \<open>Version reclamation\<close>

text \<open>
  Models \<^verbatim>\<open>src/src/store/gc.rs\<close>: the merge that compaction applies to the versions of
  a column family. The loops of the source walk the sorted entries chain by chain; the model
  has one function per loop with the same accumulators.
\<close>

record gc_stats =
  scanned :: nat
  retained :: nat
  reclaimed :: nat

text \<open>The index of the newest version below the watermark; the scan stops at the first
  version that is not below it.\<close>

fun last_before_watermark :: "txn_id \<Rightarrow> nat \<Rightarrow> patch_entry list \<Rightarrow> nat option \<Rightarrow> nat option" where
  "last_before_watermark w k [] acc = acc"
| "last_before_watermark w k (e # es) acc =
     (if pe_txn_id e < w then last_before_watermark w (Suc k) es (Some k) else acc)"

fun keep_chain ::
    "txn_id \<Rightarrow> nat option \<Rightarrow> nat \<Rightarrow> patch_entry list \<Rightarrow> patch_entry list \<times> gc_stats \<Rightarrow>
     patch_entry list \<times> gc_stats" where
  "keep_chain w newest k [] acc = acc"
| "keep_chain w newest k (e # es) (ret, stats) =
     (let keep = (if Some k = newest then True else pe_txn_id e \<ge> w)
      in keep_chain w newest (Suc k) es
           (if keep then (ret @ [e], stats\<lparr>retained := retained stats + 1\<rparr>)
            else (ret, stats\<lparr>reclaimed := reclaimed stats + 1\<rparr>)))"

function gc_loop ::
    "txn_id \<Rightarrow> patch_entry list \<Rightarrow> patch_entry list \<times> gc_stats \<Rightarrow> patch_entry list \<times> gc_stats" where
  "gc_loop w [] acc = acc"
| "gc_loop w (e # es) acc =
     (let chain = takeWhile (\<lambda>x. pe_key x = pe_key e) (e # es);
          rest = dropWhile (\<lambda>x. pe_key x = pe_key e) (e # es)
      in gc_loop w rest (keep_chain w (last_before_watermark w 0 chain None) 0 chain acc))"
  by pat_completeness auto

termination
  by (relation "measure (\<lambda>(_, es, _). length es)") (auto simp: le_imp_less_Suc length_dropWhile_le)

definition gc_entries :: "patch_entry list \<Rightarrow> txn_id \<Rightarrow> patch_entry list \<times> gc_stats" where
  "gc_entries entries w =
     gc_loop w (sort_key patch_order entries)
       ([], \<lparr>scanned = length entries, retained = 0, reclaimed = 0\<rparr>)"

lemma filter_split_while: "filter P xs = filter P (takeWhile Q xs) @ filter P (dropWhile Q xs)"
  by (simp flip: filter_append)

lemma filter_takeWhile_self: "filter P (takeWhile P xs) = takeWhile P xs"
  by (rule filter_True) (blast dest: set_takeWhileD)

subsection \<open>The loops compute a partition of each chain\<close>

abbreviation below :: "txn_id \<Rightarrow> patch_entry \<Rightarrow> bool" where
  "below w e \<equiv> pe_txn_id e < w"

definition chain_gc :: "txn_id \<Rightarrow> patch_entry list \<Rightarrow> patch_entry list" where
  "chain_gc w chain =
     (if takeWhile (below w) chain = [] then [] else [last (takeWhile (below w) chain)]) @
     dropWhile (below w) chain"

lemma last_before_watermark_eq:
  "last_before_watermark w k es acc =
     (if takeWhile (below w) es = [] then acc else Some (k + length (takeWhile (below w) es) - 1))"
  by (induction w k es acc rule: last_before_watermark.induct) auto

lemma keep_chain_append:
  "keep_chain w l k (xs @ ys) acc = keep_chain w l (k + length xs) ys (keep_chain w l k xs acc)"
proof (induction xs arbitrary: k acc)
  case (Cons x xs)
  then show ?case by (cases acc) (simp add: Let_def)
qed simp

lemma keep_chain_above:
  "\<forall>e \<in> set es. \<not> below w e \<Longrightarrow>
    keep_chain w l k es (ret, st) = (ret @ es, st\<lparr>retained := retained st + length es\<rparr>)"
  by (induction es arbitrary: k ret st) (auto simp: not_less)

lemma keep_chain_below:
  "\<forall>e \<in> set es. below w e \<Longrightarrow> \<forall>i. l = Some i \<longrightarrow> k + length es \<le> i \<Longrightarrow>
    keep_chain w l k es (ret, st) = (ret, st\<lparr>reclaimed := reclaimed st + length es\<rparr>)"
proof (induction es arbitrary: k st)
  case (Cons e es)
  then have "Some k \<noteq> l" and "\<not> w \<le> pe_txn_id e" by auto
  with Cons show ?case by auto
qed simp

lemma sorted_dropWhile_order: "sorted (map f es) \<Longrightarrow> sorted (map f (dropWhile P es))"
  by (metis map_append sorted_append takeWhile_dropWhile_id)

lemma sorted_dropWhile_below:
  assumes "sorted (map pe_txn_id chain)"
  shows "\<forall>e \<in> set (dropWhile (below w) chain). \<not> below w e"
proof (cases "dropWhile (below w) chain")
  case (Cons y ys)
  have "sorted (map pe_txn_id (y # ys))"
    using assms unfolding Cons [symmetric] by (rule sorted_dropWhile_order)
  moreover have "\<not> below w y" using hd_dropWhile [of "below w" chain] Cons by simp
  ultimately show ?thesis unfolding Cons by (auto simp: not_less intro: order_trans)
next
  case Nil
  then show ?thesis by (simp only: list.set ball_empty)
qed

lemma keep_chain_eq:
  assumes "sorted (map pe_txn_id chain)"
  shows "keep_chain w (last_before_watermark w 0 chain None) 0 chain (ret, st) =
     (ret @ chain_gc w chain,
      st\<lparr>retained := retained st + length (chain_gc w chain),
         reclaimed := reclaimed st + (length chain - length (chain_gc w chain))\<rparr>)"
proof -
  let ?b = "takeWhile (below w) chain" and ?a = "dropWhile (below w) chain"
  have above: "\<forall>e \<in> set ?a. \<not> below w e" by (rule sorted_dropWhile_below [OF assms])
  have len: "length chain = length ?b + length ?a" by (metis length_append takeWhile_dropWhile_id)
  show ?thesis
  proof (cases "?b = []")
    case True
    then have "?a = chain" by (metis append_Nil takeWhile_dropWhile_id)
    with True above show ?thesis
      using keep_chain_above [of chain w] by (simp add: chain_gc_def last_before_watermark_eq)
  next
    case False
    let ?l = "Some (length ?b - 1)"
    have l: "last_before_watermark w 0 chain None = ?l" using False by (simp add: last_before_watermark_eq)
    have chain: "chain = butlast ?b @ [last ?b] @ ?a"
      using False by (metis append.assoc append_butlast_last_id takeWhile_dropWhile_id)
    have low: "\<forall>e \<in> set (butlast ?b). below w e" by (auto dest!: in_set_butlastD set_takeWhileD)
    have "keep_chain w ?l 0 (butlast ?b @ [last ?b] @ ?a) (ret, st) =
        (ret @ [last ?b] @ ?a, st\<lparr>reclaimed := reclaimed st + length (butlast ?b),
           retained := retained st + 1 + length ?a\<rparr>)"
      using keep_chain_below [OF low, of ?l 0 ret st] keep_chain_above [OF above]
      by (simp add: keep_chain_append)
    with l chain False len show ?thesis by (simp add: chain_gc_def)
  qed
qed

subsection \<open>Chains of the sorted entries\<close>

lemma sorted_group_first:
  assumes "sorted (map f xs)" "xs \<noteq> []"
  shows "takeWhile (\<lambda>x. f x = f (hd xs)) xs = filter (\<lambda>x. f x = f (hd xs)) xs"
    and "\<forall>x \<in> set (dropWhile (\<lambda>x. f x = f (hd xs)) xs). f x \<noteq> f (hd xs)"
proof -
  let ?c = "f (hd xs)" and ?P = "\<lambda>x. f x = f (hd xs)"
  show rest: "\<forall>x \<in> set (dropWhile ?P xs). f x \<noteq> ?c"
  proof (cases "dropWhile ?P xs")
    case (Cons y ys)
    have "f y \<noteq> ?c" using hd_dropWhile [of ?P xs] Cons by simp
    moreover have "y \<in> set xs" using Cons by (metis list.set_intros(1) set_dropWhileD)
    then have "?c \<le> f y" using sorted_hd_last [OF assms(1)] by blast
    moreover have "sorted (map f (y # ys))"
      using assms(1) sorted_wrt_append [of "(\<le>)" "map f (takeWhile ?P xs)" "map f (y # ys)"]
      by (metis Cons map_append takeWhile_dropWhile_id)
    ultimately show ?thesis unfolding Cons by (auto simp: order.antisym)
  next
    case Nil
    then show ?thesis by (simp only: list.set ball_empty)
  qed
  show "takeWhile ?P xs = filter ?P xs"
    using rest filter_split_while [of ?P xs ?P]
    by (simp only: filter_takeWhile_self filter_empty_conv [THEN iffD2] append_Nil2)
qed

text \<open>What the walk retains, chain by chain.\<close>

function gc_chains :: "txn_id \<Rightarrow> patch_entry list \<Rightarrow> patch_entry list" where
  "gc_chains w [] = []"
| "gc_chains w (e # es) =
     chain_gc w (takeWhile (\<lambda>x. pe_key x = pe_key e) (e # es)) @
     gc_chains w (dropWhile (\<lambda>x. pe_key x = pe_key e) (e # es))"
  by pat_completeness auto

termination
  by (relation "measure (\<lambda>(_, es). length es)") (auto simp: le_imp_less_Suc length_dropWhile_le)

declare gc_chains.simps(2) [simp del] and gc_loop.simps(2) [simp del]

lemma sorted_patch_order_parts:
  assumes "sorted (map patch_order es)"
  shows "sorted (map pe_key es)" and "sorted (map pe_txn_id (filter (\<lambda>x. pe_key x = k) es))"
proof -
  show "sorted (map pe_key es)"
    using assms by (induction es) (auto simp: patch_order_def less_eq_prod_def intro: less_imp_le)
  show "sorted (map pe_txn_id (filter (\<lambda>x. pe_key x = k) es))"
    using assms by (induction es) (auto simp: patch_order_def less_eq_prod_def)
qed

lemma set_chain_gc: "set (chain_gc w chain) \<subseteq> set chain"
  by (auto simp: chain_gc_def dest: set_takeWhileD set_dropWhileD last_in_set)

lemma length_chain_gc: "length (chain_gc w chain) \<le> length chain"
proof -
  have "length (takeWhile (below w) chain) + length (dropWhile (below w) chain) = length chain"
    by (metis length_append takeWhile_dropWhile_id)
  then show ?thesis by (cases "takeWhile (below w) chain") (simp_all add: chain_gc_def)
qed

lemma set_gc_chains: "set (gc_chains w es) \<subseteq> set es"
proof (induction w es rule: gc_chains.induct)
  case (2 w e es)
  have "set (takeWhile P xs) \<subseteq> set xs" "set (dropWhile P xs) \<subseteq> set xs" for P and xs :: "patch_entry list"
    by (auto dest: set_takeWhileD set_dropWhileD)
  with 2 set_chain_gc show ?case unfolding gc_chains.simps set_append by blast
qed simp

lemma length_gc_chains: "length (gc_chains w es) \<le> length es"
proof (induction w es rule: gc_chains.induct)
  case (2 w e es)
  have "length (e # es) = length (takeWhile (\<lambda>x. pe_key x = pe_key e) (e # es)) +
      length (dropWhile (\<lambda>x. pe_key x = pe_key e) (e # es))"
    by (metis length_append takeWhile_dropWhile_id)
  with 2 length_chain_gc [of w "takeWhile (\<lambda>x. pe_key x = pe_key e) (e # es)"] show ?case
    by (simp only: gc_chains.simps length_append)
qed simp

lemma gc_loop_eq:
  assumes "sorted (map patch_order es)"
  shows "gc_loop w es (ret, st) =
     (ret @ gc_chains w es,
      st\<lparr>retained := retained st + length (gc_chains w es),
         reclaimed := reclaimed st + (length es - length (gc_chains w es))\<rparr>)"
  using assms
proof (induction w es arbitrary: ret st rule: gc_chains.induct)
  case (1 w)
  then show ?case by simp
next
  case (2 w e es)
  define c where "c = takeWhile (\<lambda>x. pe_key x = pe_key e) (e # es)"
  define r where "r = dropWhile (\<lambda>x. pe_key x = pe_key e) (e # es)"
  have "c = filter (\<lambda>x. pe_key x = pe_key e) (e # es)"
    using sorted_group_first(1) [OF sorted_patch_order_parts(1) [OF 2(2)] list.distinct(2)]
    by (simp only: c_def list.sel)
  then have "sorted (map pe_txn_id c)"
    using sorted_patch_order_parts(2) [OF 2(2)] by (simp only:)
  note chain = keep_chain_eq [OF this, of w ret st]
  have "sorted (map patch_order r)" unfolding r_def using 2(2) by (rule sorted_dropWhile_order)
  note rest = 2(1) [folded r_def, OF this]
  have len: "length (e # es) = length c + length r"
    unfolding c_def r_def by (metis length_append takeWhile_dropWhile_id)
  have unfold: "gc_chains w (e # es) = chain_gc w c @ gc_chains w r"
    "gc_loop w (e # es) acc = gc_loop w r (keep_chain w (last_before_watermark w 0 c None) 0 c acc)" for acc
    unfolding c_def r_def by (simp_all only: gc_chains.simps gc_loop.simps Let_def)
  show ?case
    unfolding unfold chain rest len using length_chain_gc [of w c] length_gc_chains [of w r] by simp
qed

lemma gc_entries_eq:
  "gc_entries es w =
     (gc_chains w (sort_key patch_order es),
      \<lparr>scanned = length es, retained = length (gc_chains w (sort_key patch_order es)),
       reclaimed = length es - length (gc_chains w (sort_key patch_order es))\<rparr>)"
  by (simp add: gc_entries_def gc_loop_eq)

text \<open>The retained versions of a key depend on its own chain only.\<close>

lemma filter_gc_chains:
  assumes "sorted (map patch_order es)"
  shows "filter (\<lambda>x. pe_key x = k) (gc_chains w es) = chain_gc w (filter (\<lambda>x. pe_key x = k) es)"
  using assms
proof (induction w es rule: gc_chains.induct)
  case (1 w)
  then show ?case by (simp add: chain_gc_def)
next
  case (2 w e es)
  let ?P = "\<lambda>x. pe_key x = pe_key e" and ?K = "\<lambda>x. pe_key x = k"
  let ?c = "takeWhile ?P (e # es)" and ?r = "dropWhile ?P (e # es)"
  note first = sorted_group_first [OF sorted_patch_order_parts(1) [OF 2(2)] list.distinct(2), unfolded list.sel]
  have IH: "filter ?K (gc_chains w ?r) = chain_gc w (filter ?K ?r)"
    using 2(1) sorted_dropWhile_order [OF 2(2)] by blast
  have split: "filter ?K (e # es) = filter ?K ?c @ filter ?K ?r"
    by (rule filter_split_while)
  have c: "\<forall>x \<in> set ?c. pe_key x = pe_key e" by (auto dest: set_takeWhileD)
  have r: "\<forall>x \<in> set ?r. pe_key x \<noteq> pe_key e" using first(2) .
  show ?case
  proof (cases "k = pe_key e")
    case True
    have "filter ?K ?r = []" unfolding filter_empty_conv True using r by blast
    moreover have "filter ?K ?c = ?c" unfolding True by (rule filter_takeWhile_self)
    moreover have "filter ?K (chain_gc w ?c) = chain_gc w ?c"
      unfolding True using c set_chain_gc [of w ?c] by (intro filter_True) blast
    ultimately show ?thesis
      unfolding gc_chains.simps filter_append IH split
      by (simp only: append_Nil2) (simp add: chain_gc_def)
  next
    case False
    have "filter ?K ?c = []" "filter ?K (chain_gc w ?c) = []"
      unfolding filter_empty_conv using c False set_chain_gc [of w ?c] by blast+
    then show ?thesis unfolding gc_chains.simps filter_append IH split by (simp only: append_Nil)
  qed
qed

subsection \<open>What is retained\<close>

lemma chain_gc_keeps_above: "e \<in> set chain \<Longrightarrow> \<not> below w e \<Longrightarrow> e \<in> set (chain_gc w chain)"
  by (metis Un_iff chain_gc_def set_append set_takeWhileD takeWhile_dropWhile_id)

lemma chain_gc_below:
  assumes "sorted (map pe_txn_id chain)"
  shows "filter (below w) (chain_gc w chain) =
     (if filter (below w) chain = [] then [] else [last (filter (below w) chain)])"
proof -
  let ?b = "takeWhile (below w) chain" and ?a = "dropWhile (below w) chain"
  have a: "filter (below w) ?a = []"
    unfolding filter_empty_conv by (rule sorted_dropWhile_below [OF assms])
  have b: "filter (below w) chain = ?b"
    using a filter_split_while [of "below w" chain "below w"]
    by (simp only: filter_takeWhile_self append_Nil2)
  have "below w (last ?b)" if "?b \<noteq> []"
    using last_in_set [OF that] by (auto dest: set_takeWhileD)
  then show ?thesis unfolding b chain_gc_def using a by simp
qed

lemma gc_keeps_above:
  assumes "e \<in> set es" "\<not> below w e"
  shows "e \<in> set (gc_chains w (sort_key patch_order es))"
proof -
  let ?s = "sort_key patch_order es" and ?P = "\<lambda>x. pe_key x = pe_key e"
  have "e \<in> set (chain_gc w (filter ?P ?s))" by (rule chain_gc_keeps_above) (use assms in auto)
  also have "chain_gc w (filter ?P ?s) = filter ?P (gc_chains w ?s)" by (simp add: filter_gc_chains)
  finally show ?thesis by simp
qed

lemma newest_below_kept:
  assumes "ret = gc_chains w (sort_key patch_order es)"
  shows "if \<exists>e \<in> set es. pe_key e = k \<and> below w e
      then \<exists>b \<in> set es. filter (\<lambda>e. pe_key e = k \<and> below w e) ret = [b] \<and>
             (\<forall>e \<in> set es. pe_key e = k \<and> below w e \<longrightarrow> pe_txn_id e \<le> pe_txn_id b)
      else filter (\<lambda>e. pe_key e = k \<and> below w e) ret = []"
proof -
  let ?s = "sort_key patch_order es"
  define ch where "ch = filter (\<lambda>x. pe_key x = k) ?s"
  define lo where "lo = filter (below w) ch"
  have sorted: "sorted (map pe_txn_id ch)"
    unfolding ch_def by (rule sorted_patch_order_parts(2)) simp
  have "filter (\<lambda>e. pe_key e = k \<and> below w e) ret = filter (below w) (filter (\<lambda>x. pe_key x = k) ret)"
    by (simp add: conj_commute)
  also have "\<dots> = filter (below w) (chain_gc w ch)"
    unfolding assms ch_def by (simp add: filter_gc_chains)
  also have "\<dots> = (if lo = [] then [] else [last lo])"
    unfolding lo_def by (rule chain_gc_below [OF sorted])
  finally have kept: "filter (\<lambda>e. pe_key e = k \<and> below w e) ret = (if lo = [] then [] else [last lo])" .
  have lo: "set lo = {e \<in> set es. pe_key e = k \<and> below w e}" by (auto simp: lo_def ch_def)
  have "sorted (map pe_txn_id lo)" unfolding lo_def using sorted by (rule sorted_filter)
  then have "\<forall>e \<in> set lo. pe_txn_id e \<le> pe_txn_id (last lo)" by (auto dest: sorted_hd_last)
  with kept lo last_in_set [of lo] show ?thesis by (cases "lo = []") auto
qed

text \<open>
  C29. Retention policy. Collection reorders and drops versions but invents none, the counters
  add up, every version at or above the watermark is kept, and for each key with versions
  below the watermark exactly one of them is kept, one with the highest transaction id.
\<close>

theorem gc_entries_policy:
  assumes "gc_entries es w = (ret, st)"
  shows "set ret \<subseteq> set es \<and> scanned st = length es \<and> retained st = length ret \<and>
    retained st + reclaimed st = scanned st \<and>
    {e \<in> set es. w \<le> pe_txn_id e} = {e \<in> set ret. w \<le> pe_txn_id e} \<and>
    (\<forall>k. (if \<exists>e \<in> set es. pe_key e = k \<and> below w e
          then \<exists>b \<in> set es. filter (\<lambda>e. pe_key e = k \<and> below w e) ret = [b] \<and>
                 (\<forall>e \<in> set es. pe_key e = k \<and> below w e \<longrightarrow> pe_txn_id e \<le> pe_txn_id b)
          else filter (\<lambda>e. pe_key e = k \<and> below w e) ret = []))"
proof -
  let ?s = "sort_key patch_order es"
  have ret: "ret = gc_chains w ?s" and st: "scanned st = length es" "retained st = length ret"
      "reclaimed st = length es - length ret"
    using assms by (auto simp: gc_entries_eq)
  have sub: "set ret \<subseteq> set es" using set_gc_chains [of w ?s] by (simp add: ret)
  have len: "length ret \<le> length es" using length_gc_chains [of w ?s] by (simp add: ret)
  have keep: "e \<in> set ret" if "e \<in> set es" "w \<le> pe_txn_id e" for e
    unfolding ret using that by (intro gc_keeps_above) auto
  have "(if \<exists>e \<in> set es. pe_key e = k \<and> below w e
      then \<exists>b \<in> set es. filter (\<lambda>e. pe_key e = k \<and> below w e) ret = [b] \<and>
             (\<forall>e \<in> set es. pe_key e = k \<and> below w e \<longrightarrow> pe_txn_id e \<le> pe_txn_id b)
      else filter (\<lambda>e. pe_key e = k \<and> below w e) ret = [])" for k
    by (rule newest_below_kept [OF ret])
  with sub st len keep show ?thesis by auto
qed

theorem gc_entries_policy_witness:
  "filter (\<lambda>e. pe_key e = [1] \<and> below 3 e)
     (fst (gc_entries [\<lparr>pe_key = [1], pe_value = Some [2], pe_txn_id = 2\<rparr>,
        \<lparr>pe_key = [1], pe_value = Some [1], pe_txn_id = 1\<rparr>] 3))
   = [\<lparr>pe_key = [1], pe_value = Some [2], pe_txn_id = 2\<rparr>]"
proof -
  let ?es = "[\<lparr>pe_key = [1], pe_value = Some [2], pe_txn_id = 2\<rparr>,
        \<lparr>pe_key = [1], pe_value = Some [1], pe_txn_id = 1\<rparr>]"
  from gc_entries_policy [OF prod.collapse [symmetric], of ?es 3]
  have "if \<exists>e \<in> set ?es. pe_key e = [1] \<and> below 3 e
     then \<exists>b \<in> set ?es. filter (\<lambda>e. pe_key e = [1] \<and> below 3 e) (fst (gc_entries ?es 3)) = [b] \<and>
            (\<forall>e \<in> set ?es. pe_key e = [1] \<and> below 3 e \<longrightarrow> pe_txn_id e \<le> pe_txn_id b)
     else filter (\<lambda>e. pe_key e = [1] \<and> below 3 e) (fst (gc_entries ?es 3)) = []"
    by blast
  then show ?thesis by (auto simp: word_le_nat_alt)
qed

subsection \<open>Reads across a collection\<close>

text \<open>The version a read of a key selects among some versions, under a visibility predicate.\<close>

definition read_best :: "(txn_id \<Rightarrow> bool) \<Rightarrow> bytes \<Rightarrow> patch_entry list \<Rightarrow> patch_entry option" where
  "read_best vis k es = max_by_key pe_txn_id (filter (\<lambda>e. pe_key e = k \<and> vis (pe_txn_id e)) es)"

definition versions_consistent :: "patch_entry list \<Rightarrow> bool" where
  "versions_consistent es \<longleftrightarrow> (\<forall>a \<in> set es. \<forall>b \<in> set es. patch_order a = patch_order b \<longrightarrow> a = b)"

lemma read_best_eqI:
  assumes "b \<in> set es" "pe_key b = k" "vis (pe_txn_id b)" "versions_consistent es"
    and "\<And>e. e \<in> set es \<Longrightarrow> pe_key e = k \<Longrightarrow> vis (pe_txn_id e) \<Longrightarrow> pe_txn_id e \<le> pe_txn_id b"
  shows "read_best vis k es = Some b"
  unfolding read_best_def
proof (rule max_by_key_eqI)
  fix x
  assume "x \<in> set (filter (\<lambda>e. pe_key e = k \<and> vis (pe_txn_id e)) es)" "pe_txn_id x = pe_txn_id b"
  with assms(1,2,4) show "x = b" by (auto simp: versions_consistent_def patch_order_def)
qed (use assms in auto)

lemma read_best_None: "read_best vis k es = None \<longleftrightarrow> (\<forall>e \<in> set es. pe_key e = k \<longrightarrow> \<not> vis (pe_txn_id e))"
  by (auto simp: read_best_def filter_empty_conv)

text \<open>
  C30. Collection preserves reads. If every version below the watermark belongs to a visible
  transaction, then for every key the version a read selects is the same before and after.
\<close>

theorem gc_preserves_reads:
  assumes "versions_consistent es" and "\<forall>e \<in> set es. below w e \<longrightarrow> vis (pe_txn_id e)"
  shows "read_best vis k (fst (gc_entries es w)) = read_best vis k es"
proof -
  define ret where "ret = fst (gc_entries es w)"
  have ret: "ret = gc_chains w (sort_key patch_order es)" by (simp add: ret_def gc_entries_eq)
  have sub: "set ret \<subseteq> set es" using set_gc_chains [of w "sort_key patch_order es"] by (simp add: ret)
  with assms(1) have con: "versions_consistent ret" by (auto simp: versions_consistent_def)
  show ?thesis
  proof (cases "read_best vis k es")
    case None
    with sub have "read_best vis k ret = None" by (auto simp: read_best_None)
    with None show ?thesis by (simp add: ret_def)
  next
    case (Some b)
    then have b: "b \<in> set es" "pe_key b = k" "vis (pe_txn_id b)"
      "\<forall>e \<in> set es. pe_key e = k \<and> vis (pe_txn_id e) \<longrightarrow> pe_txn_id e \<le> pe_txn_id b"
      unfolding read_best_def by (auto dest: max_by_key_SomeD)
    have "b \<in> set ret"
    proof (cases "below w b")
      case True
      then obtain c where c: "c \<in> set es" "filter (\<lambda>e. pe_key e = k \<and> below w e) ret = [c]"
          "pe_txn_id b \<le> pe_txn_id c"
        using newest_below_kept [OF ret, of k] b(1,2) by (auto split: if_splits)
      from c(2) have "c \<in> set (filter (\<lambda>e. pe_key e = k \<and> below w e) ret)" by simp
      then have ck: "c \<in> set ret" "pe_key c = k" "below w c" by auto
      with assms(2) b(4) c(1) have "pe_txn_id c \<le> pe_txn_id b" by auto
      with c(3) b(1,2) c(1) ck(2) assms(1) have "c = b"
        by (auto simp: versions_consistent_def patch_order_def)
      with ck show ?thesis by simp
    next
      case False
      with b(1) show ?thesis unfolding ret by (rule gc_keeps_above)
    qed
    then have "read_best vis k ret = Some b"
      using b sub con by (intro read_best_eqI) auto
    with Some show ?thesis by (simp add: ret_def)
  qed
qed

theorem gc_preserves_reads_witness:
  "read_best (\<lambda>t. t < 4) [1] (fst (gc_entries [\<lparr>pe_key = [1], pe_value = Some [1], pe_txn_id = 1\<rparr>,
      \<lparr>pe_key = [1], pe_value = Some [2], pe_txn_id = 2\<rparr>, \<lparr>pe_key = [1], pe_value = None, pe_txn_id = 5\<rparr>] 3))
   = Some \<lparr>pe_key = [1], pe_value = Some [2], pe_txn_id = 2\<rparr>"
proof -
  let ?es = "[\<lparr>pe_key = [1], pe_value = Some [1], pe_txn_id = 1\<rparr>,
      \<lparr>pe_key = [1], pe_value = Some [2], pe_txn_id = 2\<rparr>, \<lparr>pe_key = [1], pe_value = None, pe_txn_id = 5\<rparr>]"
  have "read_best (\<lambda>t. t < 4) [1] (fst (gc_entries ?es 3)) = read_best (\<lambda>t. t < 4) [1] ?es"
    by (rule gc_preserves_reads) (simp_all add: versions_consistent_def patch_order_def)
  then show ?thesis by (simp add: read_best_def)
qed

text \<open>
  A rolled-back version displaces a committed one. The watermark rule ignores whether a
  version is committed: here transaction 1 is visible, transaction 2 was rolled back, and
  after collection with watermark 3 the committed value can no longer be read.
\<close>

lemma gc_loses_committed_version:
  "let es = [\<lparr>pe_key = [1], pe_value = Some [7], pe_txn_id = 1\<rparr>,
             \<lparr>pe_key = [1], pe_value = Some [8], pe_txn_id = 2\<rparr>]
   in read_best (\<lambda>t. t = 1) [1] es = Some \<lparr>pe_key = [1], pe_value = Some [7], pe_txn_id = 1\<rparr> \<and>
      read_best (\<lambda>t. t = 1) [1] (fst (gc_entries es 3)) = None"
  by (simp add: read_best_def gc_entries_eq gc_chains.simps chain_gc_def patch_order_def Let_def)

end
