(* ===== verification/Flush.thy ===== *)
theory Flush
  imports Mem Recent_Flush Disk Gc
begin

section \<open>Flushing and compaction\<close>

text \<open>
  Models \<^verbatim>\<open>src/src/store/flush.rs\<close>: moving the memory store to a patch of the disk layer
  L2 and merging the patches of L2 into L3. The four components the code shares by \<^verbatim>\<open>Arc\<close>
  are fields of the record here. A migration holds the write gate for its whole duration, so
  it is one step with respect to gated readers. The file names of temporary files are random;
  the argument \<open>uuids\<close> gives the names used when the patch with a given id is written. The
  lemmas show that a flush, whatever I/O fails, neither loses nor invents a version, and that
  compaction replaces the versions of L2 by what the collector retains.
\<close>

record flush_engine =
  fe_l1 :: mem_store
  fe_l2 :: disk_layer
  fe_l3 :: disk_layer
  fe_recent :: recent_flush_cache
  fe_flush_epoch :: u64
  fe_next_patch_id :: u64

definition with_l3 ::
    "mem_store \<Rightarrow> disk_layer \<Rightarrow> disk_layer \<Rightarrow> recent_flush_cache \<Rightarrow> u64 \<Rightarrow> u64 \<Rightarrow> flush_engine" where
  "with_l3 l1 l2 l3 recent epoch next_id =
     \<lparr>fe_l1 = l1, fe_l2 = l2, fe_l3 = l3, fe_recent = recent, fe_flush_epoch = epoch,
      fe_next_patch_id = next_id\<rparr>"

definition to_patch_entry :: "z1_entry \<Rightarrow> patch_entry" where
  "to_patch_entry e = \<lparr>pe_key = key_of (e_key e), pe_value = e_value e, pe_txn_id = e_txn_id e\<rparr>"

definition group_push :: "z1_entry \<Rightarrow> (u16, patch_entry list) btmap \<Rightarrow> (u16, patch_entry list) btmap" where
  "group_push e groups =
     bt_insert (cf_of (e_key e)) (unwrap_or [] (hm_get groups (cf_of (e_key e))) @ [to_patch_entry e]) groups"

fun append_groups ::
    "patch_codec \<Rightarrow> (u64 \<Rightarrow> nat \<times> nat \<times> nat) \<Rightarrow> (u16 \<times> patch_entry list) list \<Rightarrow> flush_engine \<Rightarrow> fs \<Rightarrow>
     unit z1result \<times> flush_engine \<times> fs" where
  "append_groups c uuids [] fe s = (Inr (), fe, s)"
| "append_groups c uuids ((cf, entries) # groups) fe s =
     (let pid = fe_next_patch_id fe; fe1 = fe\<lparr>fe_next_patch_id := pid + 1\<rparr> in
      case append_patch c (uuids pid) cf entries pid (fe_l2 fe1) s of
        (Inl e, d, s1) \<Rightarrow> (Inl e, fe1\<lparr>fe_l2 := d\<rparr>, s1)
      | (Inr _, d, s1) \<Rightarrow> append_groups c uuids groups (fe1\<lparr>fe_l2 := d\<rparr>) s1)"

definition flush_l1_to_l2 ::
    "patch_codec \<Rightarrow> (u64 \<Rightarrow> nat \<times> nat \<times> nat) \<Rightarrow> flush_engine \<Rightarrow> fs \<Rightarrow> nat z1result \<times> flush_engine \<times> fs" where
  "flush_l1_to_l2 c uuids fe s =
     (case swap_and_drain (fe_l1 fe) of
        (swapped, l1) \<Rightarrow>
          (let fe1 = fe\<lparr>fe_l1 := l1, fe_recent := cache_merge swapped (fe_recent fe)\<rparr>;
               groups = fold group_push (rf_get_all (fe_recent fe1)) []
           in case append_groups c uuids groups fe1 s of
                (Inl e, fe2, s1) \<Rightarrow> (Inl e, fe2, s1)
              | (Inr _, fe2, s1) \<Rightarrow>
                  (Inr (length groups),
                   fe2\<lparr>fe_recent := increment_epoch (rf_clear (fe_recent fe2)),
                       fe_flush_epoch := fe_flush_epoch fe2 + 1\<rparr>, s1)))"

definition try_flush ::
    "patch_codec \<Rightarrow> (u64 \<Rightarrow> nat \<times> nat \<times> nat) \<Rightarrow> flush_engine \<Rightarrow> fs \<Rightarrow> nat option z1result \<times> flush_engine \<times> fs" where
  "try_flush c uuids fe s =
     (if should_flush (fe_l1 fe)
      then (case flush_l1_to_l2 c uuids fe s of
              (Inl e, fe1, s1) \<Rightarrow> (Inl e, fe1, s1)
            | (Inr n, fe1, s1) \<Rightarrow> (Inr (Some n), fe1, s1))
      else (Inr None, fe, s))"

text \<open>Compaction of one column family after the other; the two counters are threaded through.\<close>

fun compact_cfs ::
    "patch_codec \<Rightarrow> (u64 \<Rightarrow> nat \<times> nat \<times> nat) \<Rightarrow> txn_id \<Rightarrow> u16 list \<Rightarrow> nat \<times> nat \<Rightarrow> flush_engine \<Rightarrow> fs \<Rightarrow>
     (nat \<times> nat) z1result \<times> flush_engine \<times> fs" where
  "compact_cfs c uuids w [] counts fe s = (Inr counts, fe, s)"
| "compact_cfs c uuids w (cf # cfs) counts fe s =
     (case all_versions c cf (fe_l2 fe) s of
        (Inl e, d, s1) \<Rightarrow> (Inl e, fe\<lparr>fe_l2 := d\<rparr>, s1)
      | (Inr versions, d, s1) \<Rightarrow>
          (let fe1 = fe\<lparr>fe_l2 := d\<rparr> in
           if versions = [] then compact_cfs c uuids w cfs counts fe1 s1
           else case gc_entries (map to_patch_entry versions) w of
             (ret, stats) \<Rightarrow>
               (case (if ret = [] then (Inr (), fe1, s1)
                      else case append_patch c (uuids (fe_next_patch_id fe1)) cf ret (fe_next_patch_id fe1) (fe_l3 fe1) s1 of
                             (r, d3, s2) \<Rightarrow>
                               (r, fe1\<lparr>fe_l3 := d3, fe_next_patch_id := fe_next_patch_id fe1 + 1\<rparr>, s2)) of
                  (Inl e, fe2, s2) \<Rightarrow> (Inl e, fe2, s2)
                | (Inr _, fe2, s2) \<Rightarrow>
                    (case drop_cf cf (fe_l2 fe2) s2 of
                       (Inl e, d2, s3) \<Rightarrow> (Inl e, fe2\<lparr>fe_l2 := d2\<rparr>, s3)
                     | (Inr _, d2, s3) \<Rightarrow>
                         compact_cfs c uuids w cfs (fst counts + 1, snd counts + reclaimed stats)
                           (fe2\<lparr>fe_l2 := d2\<rparr>) s3))))"

definition compact_l2_to_l3 ::
    "patch_codec \<Rightarrow> (u64 \<Rightarrow> nat \<times> nat \<times> nat) \<Rightarrow> txn_id \<Rightarrow> flush_engine \<Rightarrow> fs \<Rightarrow>
     (nat \<times> nat) z1result \<times> flush_engine \<times> fs" where
  "compact_l2_to_l3 c uuids w fe s =
     (case compact_cfs c uuids w (list_cfs (fe_l2 fe)) (0, 0) fe s of
        (Inl e, fe1, s1) \<Rightarrow> (Inl e, fe1, s1)
      | (Inr (n, m), fe1, s1) \<Rightarrow>
          (Inr (n, m), if n > 0 then fe1\<lparr>fe_flush_epoch := fe_flush_epoch fe1 + 1\<rparr> else fe1, s1))"

fun count_patches :: "u16 list \<Rightarrow> disk_layer \<Rightarrow> nat \<Rightarrow> fs \<Rightarrow> nat \<times> fs" where
  "count_patches [] d n s = (n, s)"
| "count_patches (cf # cfs) d n s =
     (case patch_ids cf d s of (ids, s1) \<Rightarrow> count_patches cfs d (n + length ids) s1)"

definition try_compact ::
    "patch_codec \<Rightarrow> (u64 \<Rightarrow> nat \<times> nat \<times> nat) \<Rightarrow> txn_id \<Rightarrow> nat \<Rightarrow> flush_engine \<Rightarrow> fs \<Rightarrow>
     (nat \<times> nat) option z1result \<times> flush_engine \<times> fs" where
  "try_compact c uuids w threshold fe s =
     (case count_patches (list_cfs (fe_l2 fe)) (fe_l2 fe) 0 s of
        (n, s1) \<Rightarrow>
          if n \<ge> threshold
          then (case compact_l2_to_l3 c uuids w fe s1 of
                  (Inl e, fe1, s2) \<Rightarrow> (Inl e, fe1, s2)
                | (Inr r, fe1, s2) \<Rightarrow> (Inr (Some r), fe1, s2))
          else (Inr None, fe, s1))"

subsection \<open>What the engine stores\<close>

text \<open>A version as every layer keeps it: key, transaction and value (the disk layers do not
  store the time).\<close>

type_synonym stored = "z1_key \<times> txn_id \<times> bytes option"

definition stored_of :: "z1_entry \<Rightarrow> stored" where
  "stored_of e = (e_key e, e_txn_id e, e_value e)"

definition stored_in :: "u16 \<Rightarrow> patch_entry \<Rightarrow> stored" where
  "stored_in cf pe = (Z1Key cf (pe_key pe), pe_txn_id pe, pe_value pe)"

definition disk_view :: "patch_codec \<Rightarrow> disk_layer \<Rightarrow> fs \<Rightarrow> stored set" where
  "disk_view c d s = (\<Union>cf. stored_in cf ` set (layer_contents c d s cf))"

definition pending_view :: "flush_engine \<Rightarrow> stored set" where
  "pending_view fe = stored_of ` (buffer_versions (hot (fe_l1 fe)) \<union> buffer_versions (cold (fe_l1 fe)) \<union> rf_versions (fe_recent fe))"

text \<open>Everything stored, without and with the copy kept for readers during a flush.\<close>

definition base_view :: "patch_codec \<Rightarrow> flush_engine \<Rightarrow> fs \<Rightarrow> stored set" where
  "base_view c fe s = pending_view fe \<union> disk_view c (fe_l2 fe) s \<union> disk_view c (fe_l3 fe) s"

definition view :: "patch_codec \<Rightarrow> flush_engine \<Rightarrow> fs \<Rightarrow> stored set" where
  "view c fe s = base_view c fe s \<union> stored_of ` buffer_versions (snap_buf (fe_l1 fe))"

fun patch_owner :: "path \<Rightarrow> (layer \<times> u64) option" where
  "patch_owner (PatchFile l _ pid) = Some (l, pid)"
| "patch_owner (TempFile p _) = patch_owner p"
| "patch_owner _ = None"

text \<open>Every file a layer refers to is a patch of that layer with an id already given out.\<close>

definition ids_below :: "disk_layer \<Rightarrow> nat \<Rightarrow> bool" where
  "ids_below d n \<longleftrightarrow> (\<forall>q \<in> layer_paths d. \<exists>pid. patch_owner q = Some (dl_layer d, pid) \<and> unat pid < n)"

definition flush_ok :: "patch_codec \<Rightarrow> flush_engine \<Rightarrow> fs \<Rightarrow> bool" where
  "flush_ok c fe s \<longleftrightarrow>
     mem_ok (fe_l1 fe) \<and> rf_ok (fe_recent fe) \<and> disk_ok c (fe_l2 fe) s \<and> disk_ok c (fe_l3 fe) s \<and>
     dl_layer (fe_l2 fe) = L2 \<and> dl_layer (fe_l3 fe) = L3 \<and>
     ids_below (fe_l2 fe) (unat (fe_next_patch_id fe)) \<and> ids_below (fe_l3 fe) (unat (fe_next_patch_id fe))"

text \<open>No two versions of one key and transaction differ.\<close>

definition view_single :: "stored set \<Rightarrow> bool" where
  "view_single V \<longleftrightarrow> (\<forall>k t v v'. (k, t, v) \<in> V \<longrightarrow> (k, t, v') \<in> V \<longrightarrow> v = v')"

subsection \<open>Merging buffers\<close>

lemma view_single_subset: "view_single V \<Longrightarrow> U \<subseteq> V \<Longrightarrow> view_single U"
  unfolding view_single_def by blast

lemma stored_same:
  "view_single V \<Longrightarrow> stored_of x \<in> V \<Longrightarrow> stored_of e \<in> V \<Longrightarrow> version_id x = version_id e \<Longrightarrow> stored_of x = stored_of e"
  by (auto simp: view_single_def stored_of_def version_id_def)

lemma stored_insert:
  assumes "buffer_ok b" "view_single (stored_of ` (buffer_versions b \<union> {e}))"
  shows "stored_of ` buffer_versions (buffer_insert e b) = stored_of ` (buffer_versions b \<union> {e})"
proof -
  have "stored_of x \<in> stored_of ` ({x \<in> buffer_versions b. version_id x \<noteq> version_id e} \<union> {e})"
    if "x \<in> buffer_versions b \<union> {e}" for x
    using that stored_same [OF assms(2), of x e] by (cases "version_id x = version_id e") auto
  then show ?thesis unfolding versions_insert [OF assms(1)] by blast
qed

lemma stored_insert_all:
  assumes "buffer_ok b" "view_single (stored_of ` (buffer_versions b \<union> set es))"
  shows "stored_of ` buffer_versions (fold buffer_insert es b) = stored_of ` (buffer_versions b \<union> set es)"
  using assms
proof (induction es arbitrary: b)
  case (Cons e es)
  have v: "stored_of ` buffer_versions (buffer_insert e b) = stored_of ` (buffer_versions b \<union> {e})"
    by (rule stored_insert [OF Cons.prems(1)], rule view_single_subset [OF Cons.prems(2)]) auto
  have "stored_of ` (buffer_versions (buffer_insert e b) \<union> set es) = stored_of ` (buffer_versions b \<union> set (e # es))"
    unfolding image_Un v by auto
  with Cons show ?case by (simp add: buffer_ok_insert)
qed simp

subsection \<open>Grouping\<close>

definition groups_view :: "(u16 \<times> patch_entry list) list \<Rightarrow> stored set" where
  "groups_view g = (\<Union>(cf, es) \<in> set g. stored_in cf ` set es)"

lemma stored_in_to_patch_entry [simp]: "stored_in (cf_of (e_key e)) (to_patch_entry e) = stored_of e"
  by (cases "e_key e") (simp add: stored_in_def to_patch_entry_def stored_of_def)

lemma length_bt_insert: "length (bt_insert k v m) \<le> Suc (length m)"
  by (induction m) auto

lemma group_push_view:
  assumes "bt_wf g"
  shows "bt_wf (group_push e g)" "groups_view (group_push e g) = insert (stored_of e) (groups_view g)"
    "length (group_push e g) \<le> Suc (length g)"
proof -
  let ?cf = "cf_of (e_key e)"
  show "bt_wf (group_push e g)" using assms by (simp add: group_push_def map_laws)
  show "length (group_push e g) \<le> Suc (length g)" by (simp add: group_push_def length_bt_insert)
  have "groups_view g = (\<Union>p \<in> {p \<in> set g. fst p \<noteq> ?cf}. stored_in (fst p) ` set (snd p)) \<union>
      stored_in ?cf ` set (unwrap_or [] (hm_get g ?cf))"
  proof (cases "hm_get g ?cf")
    case None
    then have "\<forall>p \<in> set g. fst p \<noteq> ?cf" by (force simp: map_of_eq_None_iff)
    then show ?thesis using None by (auto simp: groups_view_def)
  next
    case (Some es)
    have "p = (?cf, es)" if "p \<in> set g" "fst p = ?cf" for p
    proof -
      have "hm_get g (fst p) = Some (snd p)"
        by (rule map_of_is_SomeI [OF bt_wf_distinct [OF assms]]) (simp add: that(1))
      with that(2) Some show ?thesis by (cases p) simp
    qed
    with map_of_SomeD [OF Some] have "set g = insert (?cf, es) {p \<in> set g. fst p \<noteq> ?cf}" by blast
    then have "groups_view g = (\<Union>p \<in> insert (?cf, es) {p \<in> set g. fst p \<noteq> ?cf}. stored_in (fst p) ` set (snd p))"
      unfolding groups_view_def split_beta by (rule arg_cong)
    with Some show ?thesis by auto
  qed
  then show "groups_view (group_push e g) = insert (stored_of e) (groups_view g)"
    by (auto simp: group_push_def groups_view_def bt.set_insert [OF assms])
qed

lemma groups_of:
  "bt_wf g \<Longrightarrow> groups_view (fold group_push es g) = stored_of ` set es \<union> groups_view g \<and>
     length (fold group_push es g) \<le> length es + length g"
proof (induction es arbitrary: g)
  case (Cons e es)
  from Cons.IH [OF group_push_view(1) [OF Cons.prems, of e]] group_push_view(2,3) [OF Cons.prems, of e]
  show ?case by auto
qed simp

subsection \<open>Patches of the two layers\<close>

lemma fresh_for_ids:
  assumes "ids_below d n" "n \<le> unat pid \<or> dl_layer d \<noteq> l"
  shows "fresh_for d (PatchFile l cf pid) uuids"
proof -
  have "patch_owner q \<noteq> Some (l, pid)" if "q \<in> layer_paths d" for q
  proof -
    from assms(1) that obtain i where "patch_owner q = Some (dl_layer d, i)" "unat i < n"
      unfolding ids_below_def by (meson)
    with assms(2) show ?thesis by auto
  qed
  then show ?thesis by (fastforce simp: fresh_for_def split: prod.splits)
qed

lemma ids_below_mono: "ids_below d n \<Longrightarrow> n \<le> m \<Longrightarrow> ids_below d m"
  by (fastforce simp: ids_below_def)

lemma ids_below_paths: "ids_below d n \<Longrightarrow> layer_paths d' \<subseteq> layer_paths d \<Longrightarrow> dl_layer d' = dl_layer d \<Longrightarrow> ids_below d' n"
  unfolding ids_below_def by (metis subsetD)

lemma pushed_paths:
  "indexed_paths (d\<lparr>dl_index := bt_insert cf (unwrap_or [] (hm_get (dl_index d) cf) @ [(mn, mx, p)]) (dl_index d)\<rparr>)
     \<subseteq> insert p (indexed_paths d)"
proof -
  have "set (bt_insert cf x m) \<subseteq> insert (cf, x) (set m)" for x and m :: "(u16 \<times> range_index_entry list) list"
    by (induction m) auto
  then have "(cf', es) \<in> set (dl_index d) \<or> es = unwrap_or [] (hm_get (dl_index d) cf) @ [(mn, mx, p)]"
    if "(cf', es) \<in> set (bt_insert cf (unwrap_or [] (hm_get (dl_index d) cf) @ [(mn, mx, p)]) (dl_index d))" for cf' es
    using that by blast
  then show ?thesis
    by (cases "hm_get (dl_index d) cf") (fastforce simp: indexed_paths_def dest: map_of_SomeD)+
qed

lemma append_patch_frame:
  assumes "append_patch c uuids cf entries pid d s = (r, d', s')"
  shows "undisturbed q s s' \<or> q = PatchFile (dl_layer d) cf pid \<or>
      (\<exists>u. q = TempFile (PatchFile (dl_layer d) cf pid) u \<and> u \<in> {fst uuids, fst (snd uuids), snd (snd uuids)})"
    "layer_paths d' \<subseteq> insert (PatchFile (dl_layer d) cf pid) (layer_paths d)" "dl_layer d' = dl_layer d"
proof -
  let ?p = "PatchFile (dl_layer d) cf pid"
  obtain a b e where u: "uuids = (a, b, e)" by (metis prod.exhaust)
  have "undisturbed q s s'" if "q \<noteq> ?p" "q \<notin> TempFile ?p ` {a, b, e}"
    using assms that undisturbed_create_dir [of "CfDir (dl_layer d) cf" s _ _ q] undisturbed_write_durable [of a b e ?p _ _ _ _ q]
    by (auto simp: append_patch_def Let_def u split: if_splits prod.splits sum.splits intro: undisturbed_trans)
  then show "undisturbed q s s' \<or> q = ?p \<or>
      (\<exists>u. q = TempFile ?p u \<and> u \<in> {fst uuids, fst (snd uuids), snd (snd uuids)})"
    unfolding u by fastforce
  show "dl_layer d' = dl_layer d"
    using assms by (auto simp: append_patch_def Let_def split: if_splits prod.splits sum.splits)
  show "layer_paths d' \<subseteq> insert ?p (layer_paths d)"
    using assms by (auto simp: append_patch_def Let_def split: if_splits prod.splits sum.splits
        dest: subsetD [OF pushed_paths])
qed

lemma append_patch_other:
  assumes "append_patch c uuids cf entries pid d s = (r, d', s')" "disk_ok c d2 s" "fresh_for d2 (PatchFile (dl_layer d) cf pid) uuids"
  shows "disk_ok c d2 s'" "layer_contents c d2 s' cf' = layer_contents c d2 s cf'"
proof -
  have "hm_get (files s') q = hm_get (files s) q" if "q \<in> layer_paths d2" for q
    using append_patch_frame(1) [OF assms(1), of q] that assms(3)
    by (auto simp: fresh_for_def undisturbed_def split: prod.splits)
  from disk_ok_cong [OF assms(2) this] show "disk_ok c d2 s'" "layer_contents c d2 s' cf' = layer_contents c d2 s cf'"
    by blast+
qed

lemma disk_view_append:
  assumes "\<And>cf'. layer_contents c d' s' cf' =
      (if cf' = cf then layer_contents c d s cf @ sort_key patch_order entries else layer_contents c d s cf')"
  shows "disk_view c d' s' = disk_view c d s \<union> stored_in cf ` set entries"
proof -
  have "stored_in cf' ` set (layer_contents c d' s' cf') =
      stored_in cf' ` set (layer_contents c d s cf') \<union> (if cf' = cf then stored_in cf ` set entries else {})" for cf'
    unfolding assms by (simp add: image_Un)
  then show ?thesis unfolding disk_view_def by (simp add: UN_Un_distrib)
qed

lemma disk_view_cong:
  "(\<And>cf. layer_contents c d' s' cf = layer_contents c d s cf) \<Longrightarrow> disk_view c d' s' = disk_view c d s"
  by (simp add: disk_view_def)

lemma unat_succ: "unat (w :: u64) + 1 < 2 ^ 64 \<Longrightarrow> unat (w + 1) = unat w + 1"
  by (simp add: unat_word_ariths unat_of_nat)

text \<open>Writing one patch under the next id, into either layer.\<close>

lemma append_next_ok:
  assumes ok: "disk_ok c d s" "disk_ok c d2 s" and serde: "serde_ok (pc_ser c) (pc_de c)"
    and ids: "ids_below d (unat pid)" "ids_below d2 (unat pid)" and lay: "dl_layer d \<noteq> dl_layer d2"
    and bound: "unat pid + 1 < 2 ^ 64"
    and ap: "append_patch c uuids cf entries pid d s = (r, d', s')"
  shows "disk_ok c d' s' \<and> disk_ok c d2 s' \<and> dl_layer d' = dl_layer d \<and>
    ids_below d' (unat (pid + 1)) \<and> ids_below d2 (unat (pid + 1)) \<and>
    disk_view c d2 s' = disk_view c d2 s \<and>
    disk_view c d' s' = disk_view c d s \<union> (case r of Inl _ \<Rightarrow> {} | Inr _ \<Rightarrow> stored_in cf ` set entries)"
proof -
  have fr: "fresh_for d (PatchFile (dl_layer d) cf pid) uuids" by (rule fresh_for_ids [OF ids(1)]) simp
  have fr2: "fresh_for d2 (PatchFile (dl_layer d) cf pid) uuids" by (rule fresh_for_ids [OF ids(2)]) simp
  note a = append_patch_ok [OF ok(1) serde fr ap] and other = append_patch_other [OF ap ok(2) fr2]
  have s: "unat (pid + 1) = unat pid + 1" by (rule unat_succ [OF bound])
  have "ids_below d' (unat (pid + 1))"
    unfolding ids_below_def
  proof
    fix q assume "q \<in> layer_paths d'"
    then consider "q = PatchFile (dl_layer d) cf pid" | "q \<in> layer_paths d"
      using append_patch_frame(2) [OF ap] by blast
    then show "\<exists>i. patch_owner q = Some (dl_layer d', i) \<and> unat i < unat (pid + 1)"
    proof cases
      case 1
      then show ?thesis using s a by auto
    next
      case 2
      then show ?thesis using s a ids(1) unfolding ids_below_def by (metis less_SucI Suc_eq_plus1)
    qed
  qed
  moreover have "ids_below d2 (unat (pid + 1))" using ids(2) by (rule ids_below_mono) (simp add: s)
  moreover have "disk_view c d' s' = disk_view c d s \<union> (case r of Inl _ \<Rightarrow> {} | Inr _ \<Rightarrow> stored_in cf ` set entries)"
  proof (cases r)
    case (Inl e)
    with a disk_view_cong [of c d' s' d s] show ?thesis by simp
  next
    case (Inr x)
    with a disk_view_append [of c d' s' cf d s entries] show ?thesis by simp
  qed
  ultimately show ?thesis using a other disk_view_cong [of c d2 s' d2 s] by simp
qed

lemma append_groups_ok:
  assumes "flush_ok c fe s" "serde_ok (pc_ser c) (pc_de c)"
    "unat (fe_next_patch_id fe) + length groups < 2 ^ 64"
    "append_groups c uuids groups fe s = (r, fe', s')"
  shows "flush_ok c fe' s' \<and> fe_l1 fe' = fe_l1 fe \<and> fe_recent fe' = fe_recent fe \<and>
    fe_flush_epoch fe' = fe_flush_epoch fe \<and> disk_view c (fe_l3 fe') s' = disk_view c (fe_l3 fe) s \<and>
    disk_view c (fe_l2 fe) s \<subseteq> disk_view c (fe_l2 fe') s' \<and>
    disk_view c (fe_l2 fe') s' \<subseteq> disk_view c (fe_l2 fe) s \<union> groups_view groups \<and>
    (\<forall>x. r = Inr x \<longrightarrow> groups_view groups \<subseteq> disk_view c (fe_l2 fe') s')"
  using assms(1,3,4)
proof (induction groups arbitrary: fe s)
  case (Cons g groups)
  obtain cf entries where gp: "g = (cf, entries)" by fastforce
  let ?pid = "fe_next_patch_id fe"
  obtain r1 d s1 where ap: "append_patch c (uuids ?pid) cf entries ?pid (fe_l2 fe) s = (r1, d, s1)"
    using prod_cases3 by blast
  let ?fe = "fe\<lparr>fe_next_patch_id := ?pid + 1, fe_l2 := d\<rparr>"
  have a: "disk_ok c d s1 \<and> disk_ok c (fe_l3 fe) s1 \<and> dl_layer d = dl_layer (fe_l2 fe) \<and>
    ids_below d (unat (?pid + 1)) \<and> ids_below (fe_l3 fe) (unat (?pid + 1)) \<and>
    disk_view c (fe_l3 fe) s1 = disk_view c (fe_l3 fe) s \<and>
    disk_view c d s1 = disk_view c (fe_l2 fe) s \<union> (case r1 of Inl _ \<Rightarrow> {} | Inr _ \<Rightarrow> stored_in cf ` set entries)"
  proof (rule append_next_ok [OF _ _ assms(2) _ _ _ _ ap])
    show "dl_layer (fe_l2 fe) \<noteq> dl_layer (fe_l3 fe)" using Cons.prems(1) by (simp add: flush_ok_def)
    show "unat ?pid + 1 < 2 ^ 64" using Cons.prems(2) by simp
  qed (use Cons.prems(1) in \<open>auto simp: flush_ok_def\<close>)
  have ok: "flush_ok c ?fe s1" using a Cons.prems(1) by (simp add: flush_ok_def)
  show ?case
  proof (cases r1)
    case (Inl e)
    then have "r = Inl e" "fe' = ?fe" "s' = s1" using Cons.prems(3) ap by (simp_all add: Let_def gp)
    with ok a Inl show ?thesis by auto
  next
    case (Inr x)
    then have rest: "append_groups c uuids groups ?fe s1 = (r, fe', s')"
      using Cons.prems(3) ap by (simp add: Let_def gp)
    have bd: "unat (fe_next_patch_id ?fe) + length groups < 2 ^ 64"
      using Cons.prems(2) unat_succ [of ?pid] by simp
    have g: "groups_view (g # groups) = stored_in cf ` set entries \<union> groups_view groups"
      by (simp add: groups_view_def gp)
    from Cons.IH [OF ok bd rest] a Inr show ?thesis unfolding g by auto
  qed
qed (auto simp: groups_view_def)

subsection \<open>Flushing keeps every version\<close>

lemma length_insert_all: "length (fold buffer_insert es b) \<le> length es + length b"
proof (induction es arbitrary: b)
  case (Cons e es)
  from Cons.IH [of "buffer_insert e b"] length_bt_insert [of "version_id e" e b] show ?case
    by (simp add: buffer_insert_def)
qed simp

lemma flush_keeps_base:
  assumes ok: "flush_ok c fe s" and serde: "serde_ok (pc_ser c) (pc_de c)"
    and single: "view_single (base_view c fe s)"
    and bound: "unat (fe_next_patch_id fe) + length (hot (fe_l1 fe)) + length (rf_cache (fe_recent fe)) < 2 ^ 64"
    and fl: "flush_l1_to_l2 c uuids fe s = (r, fe', s')"
  shows "flush_ok c fe' s' \<and> base_view c fe' s' = base_view c fe s \<and> view c fe' s' = base_view c fe s \<and>
    hot (fe_l1 fe') = [] \<and> cold (fe_l1 fe') = cold (fe_l1 fe) \<and>
    (case r of Inl _ \<Rightarrow> fe_flush_epoch fe' = fe_flush_epoch fe
     | Inr _ \<Rightarrow> rf_cache (fe_recent fe') = [] \<and> fe_flush_epoch fe' = fe_flush_epoch fe + 1)"
proof -
  let ?h = "hot (fe_l1 fe)" and ?rf = "rf_cache (fe_recent fe)"
  let ?m = "fold buffer_insert (map snd ?h) ?rf"
  define fe1 where "fe1 = fe\<lparr>fe_l1 := snd (swap_and_drain (fe_l1 fe)), fe_recent := cache_merge (map snd ?h) (fe_recent fe)\<rparr>"
  define groups where "groups = fold group_push (map snd ?m) []"
  have l1: "hot (fe_l1 fe1) = []" "cold (fe_l1 fe1) = cold (fe_l1 fe)" "snap_buf (fe_l1 fe1) = ?h" "rf_cache (fe_recent fe1) = ?m"
      "fe_flush_epoch fe1 = fe_flush_epoch fe" "fe_l2 fe1 = fe_l2 fe" "fe_l3 fe1 = fe_l3 fe" "fe_next_patch_id fe1 = fe_next_patch_id fe"
    by (simp_all add: fe1_def swap_and_drain_def cache_merge_def)
  have ok1: "flush_ok c fe1 s"
    using ok mem_ok_ops(3) rf_ok_ops(4) by (simp add: flush_ok_def fe1_def)
  have "buffer_ok ?rf" using ok by (simp add: flush_ok_def)
  moreover have "view_single (stored_of ` (buffer_versions ?rf \<union> set (map snd ?h)))"
    by (rule view_single_subset [OF single]) (auto simp: base_view_def pending_view_def)
  ultimately have m: "stored_of ` buffer_versions ?m = stored_of ` (buffer_versions ?rf \<union> set (map snd ?h))"
    by (rule stored_insert_all)
  have g: "groups_view groups = stored_of ` buffer_versions ?m" "length groups \<le> length ?h + length ?rf"
    using groups_of [of "[]" "map snd ?m"] length_insert_all [of "map snd ?h" ?rf]
    by (simp_all add: groups_def groups_view_def)
  obtain r1 fe2 s1 where ap: "append_groups c uuids groups fe1 s = (r1, fe2, s1)" using prod_cases3 by blast
  have bd: "unat (fe_next_patch_id fe1) + length groups < 2 ^ 64" using bound g(2) l1 by simp
  note a = append_groups_ok [OF ok1 serde bd ap]
  have pend: "pending_view fe2 = pending_view fe" "stored_of ` buffer_versions (snap_buf (fe_l1 fe2)) \<subseteq> groups_view groups"
    using a l1 m g(1) by (auto simp: pending_view_def image_Un)
  show ?thesis
  proof (cases r1)
    case (Inl e)
    then have res: "r = Inl e" "fe' = fe2" "s' = s1"
      using fl ap by (simp_all add: flush_l1_to_l2_def swap_and_drain_def fe1_def groups_def rf_get_all_def cache_merge_def Let_def)
    have gp: "groups_view groups \<subseteq> pending_view fe" using g(1) m by (auto simp: pending_view_def image_Un)
    have "stored_of ` buffer_versions (snap_buf (fe_l1 fe')) \<subseteq> base_view c fe' s'"
      using subset_trans [OF pend(2) gp] unfolding base_view_def res pend(1) by (simp add: le_supI1)
    moreover have "base_view c fe' s' = base_view c fe s"
      using a l1 pend gp unfolding base_view_def res by auto
    ultimately show ?thesis using a l1 by (simp add: view_def res Un_absorb2)
  next
    case (Inr x)
    have res: "r = Inr (length groups)" "s' = s1" "fe' = fe2\<lparr>fe_recent := increment_epoch (rf_clear (fe_recent fe2)),
        fe_flush_epoch := fe_flush_epoch fe2 + 1\<rparr>"
      using fl ap Inr by (simp_all add: flush_l1_to_l2_def swap_and_drain_def fe1_def groups_def rf_get_all_def cache_merge_def Let_def)
    have ok': "flush_ok c fe' s'" using conjunct1 [OF a] by (simp add: flush_ok_def res increment_epoch_def rf_clear_def)
    have p': "pending_view fe' = stored_of ` buffer_versions (cold (fe_l1 fe))"
      using a l1 by (simp add: pending_view_def res increment_epoch_def rf_clear_def)
    have "pending_view fe = stored_of ` buffer_versions (cold (fe_l1 fe)) \<union> groups_view groups"
      using g(1) m by (auto simp: pending_view_def image_Un)
    then have "base_view c fe' s' = base_view c fe s"
      unfolding base_view_def p' using a l1 Inr by (auto simp: res)
    moreover have "stored_of ` buffer_versions (snap_buf (fe_l1 fe')) \<subseteq> base_view c fe' s'"
    proof -
      have "groups_view groups \<subseteq> disk_view c (fe_l2 fe2) s1" using a Inr by auto
      from subset_trans [OF pend(2) this] show ?thesis unfolding base_view_def res by (simp add: le_supI1 le_supI2)
    qed
    ultimately show ?thesis
      using ok' a l1 by (simp add: view_def Un_absorb2) (simp add: res increment_epoch_def rf_clear_def)
  qed
qed

subsection \<open>Compaction keeps what reads need\<close>

text \<open>The specification of a collection with watermark \<open>w\<close>: versions may disappear, each of
  them below the watermark and superseded by a remaining one that is also below it.\<close>

definition gc_step :: "txn_id \<Rightarrow> stored set \<Rightarrow> stored set \<Rightarrow> bool" where
  "gc_step w V V' \<longleftrightarrow>
     V' \<subseteq> V \<and> (\<forall>k t v. (k, t, v) \<in> V - V' \<longrightarrow> t < w \<and> (\<exists>t' v'. (k, t', v') \<in> V' \<and> t < t' \<and> t' < w))"

text \<open>What a read of a key selects under a visibility predicate.\<close>

definition newest :: "(txn_id \<Rightarrow> bool) \<Rightarrow> stored set \<Rightarrow> z1_key \<Rightarrow> txn_id \<Rightarrow> bytes option \<Rightarrow> bool" where
  "newest vis V k t v \<longleftrightarrow> (k, t, v) \<in> V \<and> vis t \<and> (\<forall>t' v'. (k, t', v') \<in> V \<and> vis t' \<longrightarrow> t' \<le> t)"

lemma gc_step_refl [simp]: "gc_step w V V"
  by (simp add: gc_step_def)

lemma gc_step_supersedes:
  "gc_step w V V' \<Longrightarrow> (k, t, v) \<in> V \<Longrightarrow> (k, t, v) \<notin> V' \<Longrightarrow>
     t < w \<and> (\<exists>t' v'. (k, t', v') \<in> V' \<and> t < t' \<and> t' < w)"
  unfolding gc_step_def by blast

lemma gc_step_trans:
  assumes "gc_step w V V'" "gc_step w V' V''"
  shows "gc_step w V V''"
  unfolding gc_step_def
proof (intro conjI allI impI)
  show "V'' \<subseteq> V" using assms by (auto simp: gc_step_def)
next
  fix k t v assume x: "(k, t, v) \<in> V - V''"
  have "t < w \<and> (\<exists>t' v'. (k, t', v') \<in> V'' \<and> t < t' \<and> t' < w)"
  proof (cases "(k, t, v) \<in> V'")
    case True
    with x gc_step_supersedes [OF assms(2)] show ?thesis by blast
  next
    case False
    with x gc_step_supersedes [OF assms(1)] obtain t' v' where t': "t < w" "(k, t', v') \<in> V'" "t < t'" "t' < w" by blast
    show ?thesis
    proof (cases "(k, t', v') \<in> V''")
      case True
      with t' show ?thesis by blast
    next
      case False
      with t'(2) gc_step_supersedes [OF assms(2)] obtain t'' v'' where
        "(k, t'', v'') \<in> V''" "t' < t''" "t'' < w" by blast
      with t' show ?thesis by (meson order.strict_trans)
    qed
  qed
  then show "t < w" "\<exists>t' v'. (k, t', v') \<in> V'' \<and> t < t' \<and> t' < w" by blast+
qed

lemma gc_step_frame: "gc_step w A A' \<Longrightarrow> gc_step w (A \<union> B) (A' \<union> B)"
  unfolding gc_step_def by blast

lemma gc_step_mono: "gc_step w V V' \<Longrightarrow> w \<le> w' \<Longrightarrow> gc_step w' V V'"
  unfolding gc_step_def by (meson order.strict_trans2)

lemma gc_step_between: "gc_step w V U \<Longrightarrow> U \<subseteq> V' \<Longrightarrow> V' \<subseteq> V \<Longrightarrow> gc_step w V V'"
  unfolding gc_step_def by blast

lemma gc_step_newest:
  assumes "gc_step w V V'" "\<And>k t v. (k, t, v) \<in> V \<Longrightarrow> t < w \<Longrightarrow> vis t"
  shows "newest vis V' k t v \<longleftrightarrow> newest vis V k t v"
proof
  assume n: "newest vis V' k t v"
  have "t' \<le> t" if t': "(k, t', v') \<in> V" "vis t'" for t' v'
  proof (cases "(k, t', v') \<in> V'")
    case True
    with n t' show ?thesis by (auto simp: newest_def)
  next
    case False
    with t' gc_step_supersedes [OF assms(1)] obtain u x where u: "(k, u, x) \<in> V'" "t' < u" "u < w" by blast
    have "(k, u, x) \<in> V" using assms(1) u(1) by (auto simp: gc_step_def)
    with assms(2) u have "vis u" by blast
    with u n show ?thesis by (auto simp: newest_def)
  qed
  with n assms(1) show "newest vis V k t v" by (auto simp: newest_def gc_step_def)
next
  assume n: "newest vis V k t v"
  have "(k, t, v) \<in> V'"
  proof (rule ccontr)
    assume "(k, t, v) \<notin> V'"
    moreover have "(k, t, v) \<in> V" using n by (simp add: newest_def)
    ultimately obtain u x where u: "(k, u, x) \<in> V'" "t < u" "u < w"
      using gc_step_supersedes [OF assms(1)] by blast
    have "(k, u, x) \<in> V" using assms(1) u(1) by (auto simp: gc_step_def)
    with assms(2) u n show False by (auto simp: newest_def dest: leD)
  qed
  moreover have "V' \<subseteq> V" using assms(1) by (simp add: gc_step_def)
  ultimately show "newest vis V' k t v" using n unfolding newest_def by blast
qed

lemma gc_collects:
  assumes "view_single (stored_in cf ` set es)" "gc_entries es w = (ret, st)"
  shows "gc_step w (stored_in cf ` set es) (stored_in cf ` set ret)"
  unfolding gc_step_def
proof (intro conjI allI impI)
  have ret: "ret = gc_chains w (sort_key patch_order es)" using assms(2) by (simp add: gc_entries_eq)
  show sub: "stored_in cf ` set ret \<subseteq> stored_in cf ` set es"
    using set_gc_chains [of w "sort_key patch_order es"] by (auto simp: ret)
  fix k t v assume x: "(k, t, v) \<in> stored_in cf ` set es - stored_in cf ` set ret"
  then obtain e where e: "e \<in> set es" "(k, t, v) = stored_in cf e" "e \<notin> set ret" by blast
  have lt: "below w e" using gc_keeps_above [OF e(1), of w] e(3) by (auto simp: ret)
  with newest_below_kept [OF ret, of "pe_key e"] e(1) obtain b where
    b: "b \<in> set es" "filter (\<lambda>x. pe_key x = pe_key e \<and> below w x) ret = [b]" "pe_txn_id e \<le> pe_txn_id b"
    by (auto split: if_splits)
  have "b \<in> set (filter (\<lambda>x. pe_key x = pe_key e \<and> below w x) ret)" by (simp add: b(2))
  then have br: "b \<in> set ret" "pe_key b = pe_key e" "below w b" by auto
  have "pe_txn_id e \<noteq> pe_txn_id b"
  proof
    assume eq: "pe_txn_id e = pe_txn_id b"
    have "stored_in cf e \<in> stored_in cf ` set es" "stored_in cf b \<in> stored_in cf ` set es" using e(1) b(1) by blast+
    with assms(1) eq br(2) have "stored_in cf e = stored_in cf b"
      by (fastforce simp: view_single_def stored_in_def)
    with x e(2) br(1) show False by auto
  qed
  with b(3) have "pe_txn_id e < pe_txn_id b" by simp
  then show "t < w" "\<exists>t' v'. (k, t', v') \<in> stored_in cf ` set ret \<and> t < t' \<and> t' < w"
    using lt e(2) br by (auto simp: stored_in_def image_iff intro!: exI [of _ "pe_txn_id b"] exI [of _ "pe_value b"] bexI [of _ b])
qed

lemma paths_chain: "A \<subseteq> B \<union> set ps \<Longrightarrow> B \<subseteq> C \<union> {p} \<Longrightarrow> A \<subseteq> C \<union> set (p # ps)"
  by auto

lemma patch_loop_paths:
  "patch_loop c f ps acc d s = (r, d', s') \<Longrightarrow> layer_paths d' \<subseteq> layer_paths d \<union> set ps"
proof (induction ps arbitrary: acc d s)
  case (Cons p ps)
  obtain r1 d1 s1 where l: "load_patch c p d s = (r1, d1, s1)" using prod_cases3 by blast
  have p1: "layer_paths d1 \<subseteq> layer_paths d \<union> {p}"
    using l by (auto simp: load_patch_def indexed_paths_def map_laws split: option.splits prod.splits sum.splits
        z1_patch_format.splits if_splits)
  have "indexed_paths (evict_patch p (remove_from_index p d1)) \<subseteq> indexed_paths d1"
  proof
    fix q assume "q \<in> indexed_paths (evict_patch p (remove_from_index p d1))"
    then obtain cf es mn mx where "(cf, es) \<in> set (dl_index d1)" "(mn, mx, q) \<in> set es"
      by (auto simp: evict_patch_def remove_from_index_def indexed_paths_def)
    then show "q \<in> indexed_paths d1" unfolding indexed_paths_def by blast
  qed
  moreover have "dom (map_of (dl_content (evict_patch p (remove_from_index p d1)))) \<subseteq> dom (map_of (dl_content d1))"
    by (auto simp: evict_patch_def remove_from_index_def map_laws split: if_splits)
  ultimately have "layer_paths (evict_patch p (remove_from_index p d1)) \<subseteq> layer_paths d1" by blast
  note ev = this
  show ?case
  proof (cases r1)
    case (Inr es)
    with Cons.prems l have "patch_loop c f ps (f es acc) d1 s1 = (r, d', s')" by simp
    from paths_chain [OF Cons.IH [OF this] p1] show ?thesis .
  next
    case (Inl e)
    show ?thesis
    proof (cases "e = Io NotFound")
      case True
      with Cons.prems l Inl have "patch_loop c f ps acc (evict_patch p (remove_from_index p d1)) s1 = (r, d', s')" by simp
      from paths_chain [OF Cons.IH [OF this] subset_trans [OF ev p1]] show ?thesis .
    next
      case False
      with Cons.prems l Inl have "d' = d1" by simp
      with paths_chain [OF Un_upper1 p1] show ?thesis by simp
    qed
  qed
qed auto

lemma index_paths_indexed: "set (index_paths P cf d) \<subseteq> layer_paths d"
proof
  fix q assume "q \<in> set (index_paths P cf d)"
  then obtain es mn mx where "hm_get (dl_index d) cf = Some es" "(mn, mx, q) \<in> set es"
    by (cases "hm_get (dl_index d) cf") (auto simp: index_paths_def)
  from map_of_SomeD [OF this(1)] this(2) show "q \<in> layer_paths d" unfolding indexed_paths_def by blast
qed

lemma disk_read_paths:
  "all_versions c cf d s = (r, d', s') \<Longrightarrow> layer_paths d' \<subseteq> layer_paths d"
  "disk_get_versions c cf k d s = (r', d', s') \<Longrightarrow> layer_paths d' \<subseteq> layer_paths d"
  unfolding all_versions_def disk_get_versions_def
  using index_paths_indexed by (meson Un_least order_refl patch_loop_paths subset_trans)+

lemma drop_cf_frame:
  assumes "drop_cf cf d s = (r, d', s')" "script s = []"
  shows "layer_paths d' \<subseteq> layer_paths d" "dl_layer d' = dl_layer d" "script s' = []"
    "parent_dir q \<noteq> CfDir (dl_layer d) cf \<Longrightarrow> hm_get (files s') q = hm_get (files s) q"
proof -
  have f: "hm_get (filter (\<lambda>q. parent_dir (fst q) \<noteq> D) (files s)) q = (if parent_dir q \<noteq> D then hm_get (files s) q else None)" for D q
    by (rule map_of_filter_fst)
  show "dl_layer d' = dl_layer d" "script s' = []"
    "parent_dir q \<noteq> CfDir (dl_layer d) cf \<Longrightarrow> hm_get (files s') q = hm_get (files s) q"
    using assms by (auto simp: drop_cf_def sys_remove_dir_all_def f split: if_splits)
  have "dom (map_of (filter (\<lambda>q. parent_dir (fst q) \<noteq> D) m)) \<subseteq> dom (map_of m)" for D and m :: "(path \<times> patch_entry list) list"
    by (auto simp: map_of_filter_fst [where P = "\<lambda>p. parent_dir p \<noteq> D"] split: if_splits)
  then show "layer_paths d' \<subseteq> layer_paths d"
    using assms by (fastforce simp: drop_cf_def sys_remove_dir_all_def indexed_paths_def hm_remove_def split: if_splits)
qed

lemma patch_owner_parent: "patch_owner q = Some (l, i) \<Longrightarrow> \<exists>cf. parent_dir q = CfDir l cf"
  by (induction q rule: patch_owner.induct) auto

lemma append_patch_quiet:
  "append_patch c uuids cf entries pid d s = (r, d', s') \<Longrightarrow> script s = [] \<Longrightarrow> script s' = []"
  by (auto simp: append_patch_def Let_def split: if_splits prod.splits sum.splits
      dest!: quiet_calls dest: quiet_write_durable)

text \<open>The three steps of compacting one column family.\<close>

lemma compact_read_ok:
  assumes "flush_ok c fe s" "script s = []"
  shows "\<exists>d. all_versions c cf (fe_l2 fe) s = (Inr (map (patch_version cf) (layer_contents c (fe_l2 fe) s cf)), d, s) \<and>
    flush_ok c (fe\<lparr>fe_l2 := d\<rparr>) s \<and> (\<forall>cf'. layer_contents c d s cf' = layer_contents c (fe_l2 fe) s cf')"
proof -
  have ok: "disk_ok c (fe_l2 fe) s" using assms(1) by (simp add: flush_ok_def)
  from all_versions_ok [OF ok assms(2), of cf] obtain d where
    d: "all_versions c cf (fe_l2 fe) s = (Inr (map (patch_version cf) (layer_contents c (fe_l2 fe) s cf)), d, s)"
      "disk_ok c d s" "dl_index d = dl_index (fe_l2 fe)" "dl_layer d = dl_layer (fe_l2 fe)" by blast
  have "ids_below d (unat (fe_next_patch_id fe))"
    using assms(1) by (intro ids_below_paths [OF _ disk_read_paths(1) [OF d(1)] d(4)]) (simp add: flush_ok_def)
  then have "flush_ok c (fe\<lparr>fe_l2 := d\<rparr>) s" using assms(1) d by (simp add: flush_ok_def)
  with d show ?thesis by (simp add: layer_contents_def)
qed

lemma compact_write_ok:
  assumes "flush_ok c fe s" "serde_ok (pc_ser c) (pc_de c)" "unat (fe_next_patch_id fe) + 1 < 2 ^ 64"
    "append_patch c uuids cf ret (fe_next_patch_id fe) (fe_l3 fe) s = (r, d3, s')"
  shows "flush_ok c (fe\<lparr>fe_l3 := d3, fe_next_patch_id := fe_next_patch_id fe + 1\<rparr>) s' \<and>
    (\<forall>cf'. layer_contents c (fe_l2 fe) s' cf' = layer_contents c (fe_l2 fe) s cf') \<and>
    disk_view c d3 s' = disk_view c (fe_l3 fe) s \<union> (case r of Inl _ \<Rightarrow> {} | Inr _ \<Rightarrow> stored_in cf ` set ret)"
proof -
  let ?n = "fe_next_patch_id fe"
  have f: "disk_ok c (fe_l3 fe) s" "disk_ok c (fe_l2 fe) s" "ids_below (fe_l3 fe) (unat ?n)" "ids_below (fe_l2 fe) (unat ?n)"
      "dl_layer (fe_l3 fe) \<noteq> dl_layer (fe_l2 fe)" "dl_layer (fe_l3 fe) = L3"
    using assms(1) by (simp_all add: flush_ok_def)
  note a = append_next_ok [OF f(1,2) assms(2) f(3-5) assms(3,4)]
  have "fresh_for (fe_l2 fe) (PatchFile (dl_layer (fe_l3 fe)) cf ?n) uuids" by (rule fresh_for_ids [OF f(4)]) simp
  from append_patch_other [OF assms(4) f(2) this] a assms(1) show ?thesis by (simp add: flush_ok_def)
qed

lemma compact_drop_ok:
  assumes "flush_ok c fe s" "script s = []" "drop_cf cf (fe_l2 fe) s = (r, d2, s')"
  shows "flush_ok c (fe\<lparr>fe_l2 := d2\<rparr>) s' \<and> script s' = [] \<and> disk_view c (fe_l3 fe) s' = disk_view c (fe_l3 fe) s \<and>
    (\<forall>cf'. layer_contents c d2 s' cf' = (if (\<exists>x. r = Inr x) \<and> cf' = cf then [] else layer_contents c (fe_l2 fe) s cf'))"
proof -
  have f: "disk_ok c (fe_l2 fe) s" "disk_ok c (fe_l3 fe) s" "dl_layer (fe_l2 fe) = L2"
      "ids_below (fe_l2 fe) (unat (fe_next_patch_id fe))" "ids_below (fe_l3 fe) (unat (fe_next_patch_id fe))" "dl_layer (fe_l3 fe) = L3"
    using assms(1) by (simp_all add: flush_ok_def)
  note dr = drop_cf_ok [OF f(1) assms(3)] and fr = drop_cf_frame [OF assms(3,2)]
  have "hm_get (files s') q = hm_get (files s) q" if "q \<in> layer_paths (fe_l3 fe)" for q
  proof -
    from f(5,6) that obtain i where "patch_owner q = Some (L3, i)" unfolding ids_below_def by metis
    with patch_owner_parent have "parent_dir q \<noteq> CfDir (dl_layer (fe_l2 fe)) cf" by (fastforce simp: f(3))
    then show ?thesis by (rule fr(4))
  qed
  note l3 = disk_ok_cong [OF f(2) this]
  have "ids_below d2 (unat (fe_next_patch_id fe))" by (rule ids_below_paths [OF f(4) fr(1,2)])
  with dr fr(3) l3 assms(1) disk_view_cong [OF l3(2)] show ?thesis by (simp add: flush_ok_def)
qed

lemma to_patch_entry_version [simp]: "to_patch_entry \<circ> patch_version cf = id"
  by (rule ext) (simp add: to_patch_entry_def patch_version_def)

lemma disk_view_split:
  "disk_view c d s = stored_in cf ` set (layer_contents c d s cf) \<union> (\<Union>cf' \<in> - {cf}. stored_in cf' ` set (layer_contents c d s cf'))"
  unfolding disk_view_def by blast

lemma compact_cf_view:
  assumes single: "view_single (base_view c fe s)"
    and gc: "gc_entries (layer_contents c (fe_l2 fe) s cf) w = (ret, st)"
    and l1: "fe_l1 fe' = fe_l1 fe" "fe_recent fe' = fe_recent fe"
    and l3: "disk_view c (fe_l3 fe') s' = disk_view c (fe_l3 fe) s \<union> stored_in cf ` set ret"
    and l2: "\<And>cf'. layer_contents c (fe_l2 fe') s' cf' = (if cf' = cf then [] else layer_contents c (fe_l2 fe) s cf')"
  shows "gc_step w (base_view c fe s) (base_view c fe' s')"
proof -
  let ?X = "stored_in cf ` set (layer_contents c (fe_l2 fe) s cf)"
  let ?R = "\<Union>cf' \<in> - {cf}. stored_in cf' ` set (layer_contents c (fe_l2 fe) s cf')"
  let ?B = "?R \<union> pending_view fe \<union> disk_view c (fe_l3 fe) s"
  have "view_single ?X"
    by (rule view_single_subset [OF single]) (auto simp: base_view_def disk_view_def)
  from gc_step_frame [OF gc_collects [OF this gc], of ?B]
  have "gc_step w (?X \<union> ?B) (stored_in cf ` set ret \<union> ?B)" .
  moreover have "base_view c fe s = ?X \<union> ?B"
    unfolding base_view_def disk_view_split [of c "fe_l2 fe" s cf] by blast
  moreover have "disk_view c (fe_l2 fe') s' = ?R"
    unfolding disk_view_split [of c "fe_l2 fe'" s' cf] by (simp add: l2)
  then have "base_view c fe' s' = stored_in cf ` set ret \<union> ?B"
    unfolding base_view_def l3 by (simp add: pending_view_def l1 Un_ac)
  ultimately show ?thesis by simp
qed

lemma gc_nonempty:
  assumes "es \<noteq> []" "gc_entries es w = (ret, st)"
  shows "ret \<noteq> []"
proof -
  from assms(1) obtain e where e: "e \<in> set es" by (cases es) auto
  have ret: "ret = gc_chains w (sort_key patch_order es)" using assms(2) by (simp add: gc_entries_eq)
  show ?thesis
    using gc_keeps_above [OF e, of w] newest_below_kept [OF ret, of "pe_key e"] e
    by (cases "below w e") (auto simp: ret split: if_splits)
qed

text \<open>After the merged patch is written nothing has changed for readers.\<close>

lemma compact_written:
  assumes ok: "flush_ok c fe s" and serde: "serde_ok (pc_ser c) (pc_de c)" and bound: "unat (fe_next_patch_id fe) + 1 < 2 ^ 64"
    and gc: "gc_entries (layer_contents c (fe_l2 fe) s cf) w = (ret, st)"
    and ap: "append_patch c uuids cf ret (fe_next_patch_id fe) (fe_l3 fe) s = (r, d3, s')"
    and fe': "fe' = fe\<lparr>fe_l3 := d3, fe_next_patch_id := fe_next_patch_id fe + 1\<rparr>"
  shows "flush_ok c fe' s' \<and> base_view c fe' s' = base_view c fe s \<and>
    (\<forall>cf'. layer_contents c (fe_l2 fe') s' cf' = layer_contents c (fe_l2 fe) s cf') \<and>
    (\<forall>x. r = Inr x \<longrightarrow> disk_view c (fe_l3 fe') s' = disk_view c (fe_l3 fe) s \<union> stored_in cf ` set ret)"
proof -
  have sub: "stored_in cf ` set ret \<subseteq> disk_view c (fe_l2 fe) s"
    using gc set_gc_chains [of w "sort_key patch_order (layer_contents c (fe_l2 fe) s cf)"]
    by (auto simp: gc_entries_eq disk_view_def)
  note wr = compact_write_ok [OF ok serde bound ap]
  have "disk_view c (fe_l2 fe) s' = disk_view c (fe_l2 fe) s" using wr by (intro disk_view_cong) simp
  with wr sub have "base_view c fe' s' = base_view c fe s"
    by (cases r) (auto simp: base_view_def pending_view_def fe')
  with wr show ?thesis by (simp add: fe')
qed

text \<open>Compaction of a set of column families: L2 gives them up, L3 gains what the collector
  retains of each.\<close>

definition collected :: "patch_codec \<Rightarrow> txn_id \<Rightarrow> u16 set \<Rightarrow> flush_engine \<Rightarrow> fs \<Rightarrow> flush_engine \<Rightarrow> fs \<Rightarrow> bool" where
  "collected c w cfs fe s fe' s' \<longleftrightarrow>
     (\<forall>cf. layer_contents c (fe_l2 fe') s' cf = (if cf \<in> cfs then [] else layer_contents c (fe_l2 fe) s cf)) \<and>
     disk_view c (fe_l3 fe') s' = disk_view c (fe_l3 fe) s \<union>
       (\<Union>cf \<in> cfs. stored_in cf ` set (fst (gc_entries (layer_contents c (fe_l2 fe) s cf) w))) \<and>
     fe_l1 fe' = fe_l1 fe \<and> fe_recent fe' = fe_recent fe"

lemma gc_entries_Nil [simp]: "fst (gc_entries [] w) = []"
  by (simp add: gc_entries_eq)

lemma compact_cf_step:
  assumes ok: "flush_ok c fe s" and serde: "serde_ok (pc_ser c) (pc_de c)" and quiet: "script s = []"
    and bound: "unat (fe_next_patch_id fe) + 1 < 2 ^ 64"
    and run: "compact_cfs c uuids w (cf # cfs) counts fe s = (r, fe', s')"
  shows "(\<exists>err. r = Inl err \<and> flush_ok c fe' s' \<and> script s' = [] \<and> base_view c fe' s' = base_view c fe s \<and>
      fe_l1 fe' = fe_l1 fe \<and> fe_recent fe' = fe_recent fe) \<or>
    (\<exists>fe1 s1 counts1. compact_cfs c uuids w cfs counts1 fe1 s1 = (r, fe', s') \<and> flush_ok c fe1 s1 \<and> script s1 = [] \<and>
      unat (fe_next_patch_id fe1) \<le> unat (fe_next_patch_id fe) + 1 \<and> collected c w {cf} fe s fe1 s1)"
proof -
  let ?L = "layer_contents c (fe_l2 fe) s cf" and ?n = "fe_next_patch_id fe"
  obtain d where rd: "all_versions c cf (fe_l2 fe) s = (Inr (map (patch_version cf) ?L), d, s)"
      and ok1: "flush_ok c (fe\<lparr>fe_l2 := d\<rparr>) s" and lc: "\<forall>cf'. layer_contents c d s cf' = layer_contents c (fe_l2 fe) s cf'"
    using compact_read_ok [OF ok quiet, of cf] by blast
  define fe1 where "fe1 = fe\<lparr>fe_l2 := d\<rparr>"
  note ok1 = ok1 [folded fe1_def]
  have f1: "fe_l1 fe1 = fe_l1 fe" "fe_recent fe1 = fe_recent fe" "fe_next_patch_id fe1 = ?n" "fe_l2 fe1 = d" "fe_l3 fe1 = fe_l3 fe"
    by (simp_all add: fe1_def)
  have same1: "base_view c fe1 s = base_view c fe s"
    using disk_view_cong [of c d s "fe_l2 fe" s] lc by (simp add: base_view_def pending_view_def fe1_def)
  show ?thesis
  proof (cases "?L = []")
    case True
    then have "compact_cfs c uuids w cfs counts fe1 s = (r, fe', s')" using run rd by (simp add: fe1_def)
    moreover have "collected c w {cf} fe s fe1 s" using True lc by (simp add: collected_def f1)
    ultimately show ?thesis using ok1 quiet f1 by fastforce
  next
    case False
    obtain ret st where gc: "gc_entries ?L w = (ret, st)" by fastforce
    have gc1: "gc_entries (layer_contents c (fe_l2 fe1) s cf) w = (ret, st)" using gc lc f1 by simp
    have ne: "ret \<noteq> []" by (rule gc_nonempty [OF False gc])
    obtain r3 d3 s2 where ap: "append_patch c (uuids (fe_next_patch_id fe1)) cf ret (fe_next_patch_id fe1) (fe_l3 fe1) s = (r3, d3, s2)"
      using prod_cases3 by blast
    define fe2 where "fe2 = fe1\<lparr>fe_l3 := d3, fe_next_patch_id := fe_next_patch_id fe1 + 1\<rparr>"
    have bd: "unat (fe_next_patch_id fe1) + 1 < 2 ^ 64" using bound by (simp add: f1)
    note wr = compact_written [OF ok1 serde bd gc1 ap fe2_def]
    have q2: "script s2 = []" by (rule append_patch_quiet [OF ap quiet])
    obtain r4 d2 s3 where dr: "drop_cf cf (fe_l2 fe2) s2 = (r4, d2, s3)" using prod_cases3 by blast
    define fe3 where "fe3 = fe2\<lparr>fe_l2 := d2\<rparr>"
    have f2: "fe_l1 fe2 = fe_l1 fe" "fe_recent fe2 = fe_recent fe" "fe_next_patch_id fe2 = ?n + 1"
      and f3: "fe_l1 fe3 = fe_l1 fe" "fe_recent fe3 = fe_recent fe" "fe_next_patch_id fe3 = ?n + 1" "fe_l3 fe3 = fe_l3 fe2" "fe_l2 fe3 = d2"
      by (simp_all add: fe3_def fe2_def f1)
    note dp = compact_drop_ok [OF conjunct1 [OF wr] q2 dr, folded fe3_def]
    consider (unwritten) e where "r3 = Inl e" | (undropped) x e where "r3 = Inr x" "r4 = Inl e" | (moved) x y where "r3 = Inr x" "r4 = Inr y"
      by (cases r3; cases r4) auto
    then show ?thesis
    proof cases
      case unwritten
      then have "r = Inl e" "fe' = fe2" "s' = s2"
        using run rd False gc ne ap by (simp_all add: fe1_def fe2_def Let_def)
      with wr q2 same1 f2 show ?thesis by simp
    next
      case undropped
      then have "r = Inl e" "fe' = fe3" "s' = s3"
        using run rd False gc ne ap dr by (simp_all add: fe1_def fe2_def fe3_def Let_def)
      moreover have "disk_view c d2 s3 = disk_view c (fe_l2 fe2) s2" using dp undropped by (intro disk_view_cong) simp
      then have "base_view c fe3 s3 = base_view c fe2 s2" using dp f2 f3 by (simp add: base_view_def pending_view_def)
      ultimately show ?thesis using wr dp same1 f3 by simp
    next
      case moved
      then have "compact_cfs c uuids w cfs (fst counts + 1, snd counts + reclaimed st) fe3 s3 = (r, fe', s')"
        using run rd False gc ne ap dr by (simp add: fe1_def fe2_def fe3_def Let_def)
      moreover have "collected c w {cf} fe s fe3 s3"
        using wr dp moved lc gc f1 f3 by (auto simp: collected_def)
      moreover have "unat (fe_next_patch_id fe3) \<le> unat ?n + 1" using unat_succ [OF bound] f3 by simp
      ultimately show ?thesis using dp by blast
    qed
  qed
qed

lemma collected_view:
  assumes "view_single (base_view c fe s)" "collected c w {cf} fe s fe' s'"
  shows "gc_step w (base_view c fe s) (base_view c fe' s')"
proof -
  obtain ret st where gc: "gc_entries (layer_contents c (fe_l2 fe) s cf) w = (ret, st)" by fastforce
  show ?thesis by (rule compact_cf_view [OF assms(1) gc]) (use assms(2) gc in \<open>simp_all add: collected_def\<close>)
qed

lemma collected_trans:
  assumes "collected c w {cf} fe s fe1 s1" "collected c w cfs fe1 s1 fe' s'" "cf \<notin> cfs"
  shows "collected c w (insert cf cfs) fe s fe' s'"
proof -
  have "(\<Union>cf' \<in> cfs. stored_in cf' ` set (fst (gc_entries (layer_contents c (fe_l2 fe1) s1 cf') w))) =
      (\<Union>cf' \<in> cfs. stored_in cf' ` set (fst (gc_entries (layer_contents c (fe_l2 fe) s cf') w)))"
    using assms(1,3) by (intro SUP_cong) (auto simp: collected_def)
  with assms show ?thesis by (auto simp: collected_def)
qed

lemma compact_cfs_ok:
  assumes "flush_ok c fe s" "serde_ok (pc_ser c) (pc_de c)" "script s = []" "view_single (base_view c fe s)"
    "unat (fe_next_patch_id fe) + length cfs < 2 ^ 64"
    "compact_cfs c uuids w cfs counts fe s = (r, fe', s')"
  shows "flush_ok c fe' s' \<and> script s' = [] \<and> gc_step w (base_view c fe s) (base_view c fe' s') \<and>
    fe_l1 fe' = fe_l1 fe \<and> fe_recent fe' = fe_recent fe"
  using assms(1,3-)
proof (induction cfs arbitrary: counts fe s)
  case (Cons cf cfs)
  have "unat (fe_next_patch_id fe) + 1 < 2 ^ 64" using Cons.prems(4) by simp
  from compact_cf_step [OF Cons.prems(1) assms(2) Cons.prems(2) this Cons.prems(5)] show ?case
  proof (elim disjE exE conjE)
    fix fe1 s1 counts1
    assume st: "compact_cfs c uuids w cfs counts1 fe1 s1 = (r, fe', s')" "flush_ok c fe1 s1" "script s1 = []"
      "unat (fe_next_patch_id fe1) \<le> unat (fe_next_patch_id fe) + 1" "collected c w {cf} fe s fe1 s1"
    note g = collected_view [OF Cons.prems(3) st(5)]
    have "view_single (base_view c fe1 s1)" using view_single_subset [OF Cons.prems(3)] g by (simp add: gc_step_def)
    from Cons.IH [OF st(2,3) this _ st(1)] st(4) Cons.prems(4) g gc_step_trans [OF g] st(5) show ?thesis by (simp add: collected_def)
  qed simp
qed auto

lemma compact_cfs_collects:
  assumes "flush_ok c fe s" "serde_ok (pc_ser c) (pc_de c)" "script s = []" "distinct cfs"
    "unat (fe_next_patch_id fe) + length cfs < 2 ^ 64" "compact_cfs c uuids w cfs counts fe s = (Inr n, fe', s')"
  shows "collected c w (set cfs) fe s fe' s'"
  using assms(1,3-)
proof (induction cfs arbitrary: counts fe s)
  case (Cons cf cfs)
  have "unat (fe_next_patch_id fe) + 1 < 2 ^ 64" using Cons.prems(4) by simp
  from compact_cf_step [OF Cons.prems(1) assms(2) Cons.prems(2) this Cons.prems(5)] obtain fe1 s1 counts1 where
    st: "compact_cfs c uuids w cfs counts1 fe1 s1 = (Inr n, fe', s')" "flush_ok c fe1 s1" "script s1 = []"
      "unat (fe_next_patch_id fe1) \<le> unat (fe_next_patch_id fe) + 1" "collected c w {cf} fe s fe1 s1" by auto
  have "collected c w (set cfs) fe1 s1 fe' s'" using Cons.IH [OF st(2,3) _ _ st(1)] Cons.prems(3,4) st(4) by simp
  from collected_trans [OF st(5) this] Cons.prems(3) show ?case by simp
qed (simp add: collected_def)
lemma compact_keeps_reads:
  assumes "flush_ok c fe s" "serde_ok (pc_ser c) (pc_de c)" "script s = []" "view_single (base_view c fe s)"
    "unat (fe_next_patch_id fe) + length (list_cfs (fe_l2 fe)) < 2 ^ 64"
    "compact_l2_to_l3 c uuids w fe s = (r, fe', s')"
  shows "flush_ok c fe' s' \<and> script s' = [] \<and> gc_step w (base_view c fe s) (base_view c fe' s') \<and>
    fe_l1 fe' = fe_l1 fe \<and> fe_recent fe' = fe_recent fe"
proof -
  obtain r1 fe1 s1 where run: "compact_cfs c uuids w (list_cfs (fe_l2 fe)) (0, 0) fe s = (r1, fe1, s1)"
    using prod_cases3 by blast
  note ok = compact_cfs_ok [OF assms(1-5) run]
  have "s' = s1" "fe' = fe1 \<or> fe' = fe1\<lparr>fe_flush_epoch := fe_flush_epoch fe1 + 1\<rparr>"
    using assms(6) run by (auto simp: compact_l2_to_l3_def split: sum.splits prod.splits if_splits)
  with ok show ?thesis by (auto simp: flush_ok_def base_view_def pending_view_def)
qed

end
