(* ===== verification/Storage.thy ===== *)
theory Storage
  imports Flush
begin

section \<open>The storage stack\<close>

text \<open>
  The memory store, the recent-flush cache and the two disk layers together: what runs of
  writes, flushes and compactions do to the versions a reader can find. The specification is
  the locale \<open>version_history\<close>: a store whose steps add versions and may collect others below
  a watermark; in it reads after a run are reads of the history. The storage stack of
  \<^verbatim>\<open>src/src/store\<close> is an interpretation, with I/O failing at any point of a write or a flush.
\<close>

subsection \<open>Stores that keep a history\<close>

inductive steps :: "('op \<Rightarrow> 's \<Rightarrow> 's \<Rightarrow> bool) \<Rightarrow> 'op list \<Rightarrow> 's \<Rightarrow> 's \<Rightarrow> bool" for step where
  steps_done: "steps step [] s s"
| steps_more: "step op s t \<Longrightarrow> steps step ops t u \<Longrightarrow> steps step (op # ops) s u"

inductive_cases steps_Cons: "steps step (op # ops) s u"
inductive_cases steps_Nil: "steps step [] s u"

locale version_history =
  fixes step :: "'op \<Rightarrow> 's \<Rightarrow> 's \<Rightarrow> bool"
    and ok :: "'s \<Rightarrow> bool"
    and kept :: "'s \<Rightarrow> stored set"
    and seen :: "'s \<Rightarrow> stored set"
    and puts :: "'op \<Rightarrow> stored set"
    and mark :: "'op \<Rightarrow> txn_id"
  assumes kept_seen: "kept s \<subseteq> seen s"
    and step_ok: "step op s s' \<Longrightarrow> ok s \<Longrightarrow> view_single (kept s \<union> puts op) \<Longrightarrow> ok s'"
    and step_kept: "step op s s' \<Longrightarrow> ok s \<Longrightarrow> view_single (kept s \<union> puts op) \<Longrightarrow>
      gc_step (mark op) (kept s \<union> puts op) (kept s')"
    and step_seen: "step op s s' \<Longrightarrow> ok s \<Longrightarrow> view_single (kept s \<union> puts op) \<Longrightarrow> seen s' \<subseteq> seen s \<union> puts op"
begin

lemma run_refines:
  assumes "steps step ops s s'" "ok s" "gc_step W H (kept s)" "seen s \<subseteq> H"
    "view_single (H \<union> \<Union> (puts ` set ops))" "\<forall>op \<in> set ops. mark op \<le> W"
  shows "ok s' \<and> gc_step W (H \<union> \<Union> (puts ` set ops)) (kept s') \<and> seen s' \<subseteq> H \<union> \<Union> (puts ` set ops)"
  using assms
proof (induction ops arbitrary: s H)
  case Nil
  then show ?case by (auto elim: steps_Nil)
next
  case (Cons op ops)
  from Cons.prems(1) obtain t where t: "step op s t" "steps step ops t s'" by (rule steps_Cons)
  have sub: "kept s \<union> puts op \<subseteq> H \<union> \<Union> (puts ` set (op # ops))"
    using Cons.prems(3) by (auto simp: gc_step_def)
  note single = view_single_subset [OF Cons.prems(5) sub]
  have "gc_step W (H \<union> puts op) (kept s \<union> puts op)" by (rule gc_step_frame [OF Cons.prems(3)])
  moreover have "gc_step W (kept s \<union> puts op) (kept t)"
    by (rule gc_step_mono [OF step_kept [OF t(1) Cons.prems(2) single]]) (use Cons.prems(6) in simp)
  ultimately have "gc_step W (H \<union> puts op) (kept t)" by (rule gc_step_trans)
  moreover have "seen t \<subseteq> H \<union> puts op"
    using step_seen [OF t(1) Cons.prems(2) single] Cons.prems(4) by blast
  moreover have "H \<union> \<Union> (puts ` set (op # ops)) = (H \<union> puts op) \<union> \<Union> (puts ` set ops)" by auto
  ultimately show ?case
    using Cons.IH [OF t(2) step_ok [OF t(1) Cons.prems(2) single], of "H \<union> puts op"] Cons.prems(5,6) by simp
qed

lemma run_reads:
  assumes "steps step ops s s'" "ok s" "seen s = kept s"
    "view_single (kept s \<union> \<Union> (puts ` set ops))" "\<forall>op \<in> set ops. mark op \<le> W"
    "\<And>k t v. (k, t, v) \<in> kept s \<union> \<Union> (puts ` set ops) \<Longrightarrow> t < W \<Longrightarrow> vis t"
  shows "newest vis (seen s') k t v \<longleftrightarrow> newest vis (kept s \<union> \<Union> (puts ` set ops)) k t v"
proof -
  let ?H = "kept s \<union> \<Union> (puts ` set ops)"
  have "gc_step W ?H (kept s')" "seen s' \<subseteq> ?H"
    using run_refines [OF assms(1,2) gc_step_refl _ assms(4,5)] assms(3) by simp_all
  from gc_step_between [OF this(1) kept_seen this(2)] have "gc_step W ?H (seen s')" .
  then show ?thesis using assms(6) by (rule gc_step_newest)
qed

end

subsection \<open>Steps of the stack\<close>

datatype storage_op =
    PutOp z1_entry
  | FailedPutOp z1_entry
  | FlushOp
  | CompactOp txn_id
  | EnvironmentOp "io_outcome list" nat

type_synonym storage = "flush_engine \<times> wal_writer option \<times> fs"

text \<open>Patch ids are 64-bit numbers; a migration is a step as long as they do not run out.
  Compaction is taken without I/O errors, writes and flushes with any.\<close>

inductive storage_step ::
    "patch_codec \<Rightarrow> wal_codec \<Rightarrow> (u64 \<Rightarrow> nat \<times> nat \<times> nat) \<Rightarrow> storage_op \<Rightarrow> storage \<Rightarrow> storage \<Rightarrow> bool"
  for c wc uuids where
  step_put: "mem_put wc e (fe_l1 fe) wal s = (Inr (), m, wal', s') \<Longrightarrow>
    storage_step c wc uuids (PutOp e) (fe, wal, s) (fe\<lparr>fe_l1 := m\<rparr>, wal', s')"
| step_put_failed: "mem_put wc e (fe_l1 fe) wal s = (Inl err, m, wal', s') \<Longrightarrow>
    storage_step c wc uuids (FailedPutOp e) (fe, wal, s) (fe\<lparr>fe_l1 := m\<rparr>, wal', s')"
| step_flush: "unat (fe_next_patch_id fe) + length (hot (fe_l1 fe)) + length (rf_cache (fe_recent fe)) < 2 ^ 64 \<Longrightarrow>
    flush_l1_to_l2 c uuids fe s = (r, fe', s') \<Longrightarrow>
    storage_step c wc uuids FlushOp (fe, wal, s) (fe', wal, s')"
| step_compact: "script s = [] \<Longrightarrow> unat (fe_next_patch_id fe) + length (list_cfs (fe_l2 fe)) < 2 ^ 64 \<Longrightarrow>
    compact_l2_to_l3 c uuids w fe s = (rc, fe', s') \<Longrightarrow>
    storage_step c wc uuids (CompactOp w) (fe, wal, s) (fe', wal, s')"
| step_environment: "storage_step c wc uuids (EnvironmentOp ios t) (fe, wal, s) (fe, wal, s\<lparr>script := ios, mono_clock := t\<rparr>)"

fun op_puts :: "storage_op \<Rightarrow> stored set" where
  "op_puts (PutOp e) = {stored_of e}"
| "op_puts _ = {}"

fun op_mark :: "storage_op \<Rightarrow> txn_id" where
  "op_mark (CompactOp w) = w"
| "op_mark _ = 0"

definition storage_ok :: "patch_codec \<Rightarrow> storage \<Rightarrow> bool" where
  "storage_ok c = (\<lambda>(fe, wal, s). serde_ok (pc_ser c) (pc_de c) \<and> flush_ok c fe s)"

definition storage_kept :: "patch_codec \<Rightarrow> storage \<Rightarrow> stored set" where
  "storage_kept c = (\<lambda>(fe, wal, s). base_view c fe s)"

definition storage_seen :: "patch_codec \<Rightarrow> storage \<Rightarrow> stored set" where
  "storage_seen c = (\<lambda>(fe, wal, s). view c fe s)"

lemma patch_owner_not_segment: "patch_owner q = Some x \<Longrightarrow> segment_seq q = None"
  by (cases q) auto

text \<open>Writing to the log leaves both layers alone.\<close>

lemma wal_only_layers:
  assumes "flush_ok c fe s" "wal_only s s'"
  shows "disk_ok c (fe_l2 fe) s'" "disk_ok c (fe_l3 fe) s'"
    "disk_view c (fe_l2 fe) s' = disk_view c (fe_l2 fe) s" "disk_view c (fe_l3 fe) s' = disk_view c (fe_l3 fe) s"
proof -
  have same: "hm_get (files s') q = hm_get (files s) q" if "ids_below d n" "q \<in> layer_paths d" for d n q
    using that assms(2) patch_owner_not_segment unfolding ids_below_def wal_only_def by metis
  have 2: "disk_ok c (fe_l2 fe) s" "\<And>q. q \<in> layer_paths (fe_l2 fe) \<Longrightarrow> hm_get (files s') q = hm_get (files s) q"
    and 3: "disk_ok c (fe_l3 fe) s" "\<And>q. q \<in> layer_paths (fe_l3 fe) \<Longrightarrow> hm_get (files s') q = hm_get (files s) q"
    using assms(1) same unfolding flush_ok_def by blast+
  show "disk_ok c (fe_l2 fe) s'" "disk_view c (fe_l2 fe) s' = disk_view c (fe_l2 fe) s"
    using disk_ok_cong [OF 2] disk_view_cong by blast+
  show "disk_ok c (fe_l3 fe) s'" "disk_view c (fe_l3 fe) s' = disk_view c (fe_l3 fe) s"
    using disk_ok_cong [OF 3] disk_view_cong by blast+
qed

lemma put_effect:
  assumes "flush_ok c fe s" "mem_put wc e (fe_l1 fe) wal s = (r, m, wal', s')"
    "\<forall>x. r = Inr x \<longrightarrow> view_single (base_view c fe s \<union> {stored_of e})"
  shows "flush_ok c (fe\<lparr>fe_l1 := m\<rparr>) s'"
    "base_view c (fe\<lparr>fe_l1 := m\<rparr>) s' = base_view c fe s \<union> (case r of Inl _ \<Rightarrow> {} | Inr _ \<Rightarrow> {stored_of e})"
    "view c (fe\<lparr>fe_l1 := m\<rparr>) s' = view c fe s \<union> (case r of Inl _ \<Rightarrow> {} | Inr _ \<Rightarrow> {stored_of e})"
proof -
  note l = wal_only_layers [OF assms(1) mem_put_files [OF assms(2)]]
  have okm: "buffer_ok (hot (fe_l1 fe))" "mem_ok (fe_l1 fe)" using assms(1) by (simp_all add: flush_ok_def mem_ok_def)
  have m: "hot m = (case r of Inl _ \<Rightarrow> hot (fe_l1 fe) | Inr _ \<Rightarrow> buffer_insert e (hot (fe_l1 fe)))"
      "cold m = cold (fe_l1 fe)" "snap_buf m = snap_buf (fe_l1 fe)"
    using assms(2) by (auto simp: mem_put_def mem_insert_def split: option.splits prod.splits sum.splits dest!: put_wal_frame)
  have hot: "stored_of ` buffer_versions (hot m) =
      stored_of ` buffer_versions (hot (fe_l1 fe)) \<union> (case r of Inl _ \<Rightarrow> {} | Inr _ \<Rightarrow> {stored_of e})"
  proof (cases r)
    case (Inr x)
    with assms(3) have "view_single (stored_of ` (buffer_versions (hot (fe_l1 fe)) \<union> {e}))"
      by (auto simp: base_view_def pending_view_def intro: view_single_subset)
    from stored_insert [OF okm(1) this] Inr show ?thesis by (simp add: m)
  qed (simp add: m)
  have "mem_ok m" using okm by (cases r) (auto simp: mem_ok_def m intro: buffer_ok_insert)
  then show "flush_ok c (fe\<lparr>fe_l1 := m\<rparr>) s'" using assms(1) l by (simp add: flush_ok_def)
  show base: "base_view c (fe\<lparr>fe_l1 := m\<rparr>) s' = base_view c fe s \<union> (case r of Inl _ \<Rightarrow> {} | Inr _ \<Rightarrow> {stored_of e})"
    using l hot by (auto simp: base_view_def pending_view_def m image_Un)
  show "view c (fe\<lparr>fe_l1 := m\<rparr>) s' = view c fe s \<union> (case r of Inl _ \<Rightarrow> {} | Inr _ \<Rightarrow> {stored_of e})"
    unfolding view_def base by (simp add: m Un_ac)
qed

lemma environment_effect [simp]:
  "flush_ok c fe (s\<lparr>script := ios, mono_clock := t\<rparr>) = flush_ok c fe s"
  "base_view c fe (s\<lparr>script := ios, mono_clock := t\<rparr>) = base_view c fe s"
  "view c fe (s\<lparr>script := ios, mono_clock := t\<rparr>) = view c fe s"
proof -
  have "patch_at c (s\<lparr>script := ios, mono_clock := t\<rparr>) = patch_at c s" by (rule ext) (simp add: patch_at_def)
  then show "flush_ok c fe (s\<lparr>script := ios, mono_clock := t\<rparr>) = flush_ok c fe s"
    "base_view c fe (s\<lparr>script := ios, mono_clock := t\<rparr>) = base_view c fe s"
    "view c fe (s\<lparr>script := ios, mono_clock := t\<rparr>) = view c fe s"
    by (simp_all add: flush_ok_def disk_ok_def index_ok_def base_view_def view_def disk_view_def layer_contents_def entries_at_def)
qed

lemma storage_step_effect:
  assumes "storage_step c wc uuids op st st'" "storage_ok c st" "view_single (storage_kept c st \<union> op_puts op)"
  shows "storage_ok c st' \<and> gc_step (op_mark op) (storage_kept c st \<union> op_puts op) (storage_kept c st') \<and>
    storage_seen c st' \<subseteq> storage_seen c st \<union> op_puts op"
  using assms
proof cases
  case (step_put e fe wal s m wal' s')
  with assms(2,3) put_effect [OF _ step_put(4)] show ?thesis
    by (simp add: storage_ok_def storage_kept_def storage_seen_def)
next
  case (step_put_failed e fe wal s err m wal' s')
  with assms(2,3) put_effect [OF _ step_put_failed(4)] show ?thesis
    by (simp add: storage_ok_def storage_kept_def storage_seen_def)
next
  case (step_flush fe s r fe' s' wal)
  moreover have "base_view c fe s \<subseteq> view c fe s" by (simp add: view_def)
  ultimately show ?thesis using assms(2,3) flush_keeps_base [OF _ _ _ step_flush(4,5)]
    by (simp add: storage_ok_def storage_kept_def storage_seen_def)
next
  case (step_compact s fe w rc fe' s' wal)
  with assms(2,3) have ok: "flush_ok c fe s" "serde_ok (pc_ser c) (pc_de c)" "view_single (base_view c fe s)"
    by (simp_all add: storage_ok_def storage_kept_def)
  from compact_keeps_reads [OF ok(1,2) step_compact(4) ok(3) step_compact(5,6)] ok step_compact show ?thesis
    by (auto simp: storage_ok_def storage_kept_def storage_seen_def view_def gc_step_def)
next
  case (step_environment ios t fe wal s)
  with assms(2) show ?thesis by (simp add: storage_ok_def storage_kept_def storage_seen_def)
qed

interpretation storage: version_history "storage_step c wc uuids" "storage_ok c" "storage_kept c" "storage_seen c" op_puts op_mark
  for c wc uuids
proof unfold_locales
  show "storage_kept c st \<subseteq> storage_seen c st" for st
    by (cases st) (auto simp: storage_kept_def storage_seen_def view_def)
qed (use storage_step_effect in blast)+

subsection \<open>Properties\<close>


definition empty_layer :: "layer \<Rightarrow> disk_layer" where
  "empty_layer l = \<lparr>dl_layer = l, dl_index = [], dl_content = []\<rparr>"

definition empty_stack :: flush_engine where
  "empty_stack = with_l3 (mem_new 1024 Async) (empty_layer L2) (empty_layer L3) rf_new 0 0"

lemma empty_stack_view [simp]: "base_view c empty_stack s = {}" "view c empty_stack s = {}"
  by (simp_all add: empty_stack_def with_l3_def empty_layer_def mem_new_def rf_new_def base_view_def view_def
      pending_view_def disk_view_def layer_contents_def entries_at_def)

lemma empty_stack_ok: "flush_ok c empty_stack s"
  by (simp add: empty_stack_def with_l3_def empty_layer_def mem_new_def rf_new_def flush_ok_def mem_ok_def
      disk_ok_def ids_below_def indexed_paths_def)


text \<open>
  C33. Flushing under I/O failure. Whatever calls fail during a flush, the layers together hold
  exactly the versions they held before and stay in their invariant; on success nothing is
  left in the write buffer or the recent-flush cache and the epoch has advanced, and on
  failure the epoch is unchanged.
\<close>

theorem flush_keeps_versions:
  assumes "flush_ok c fe s" and "serde_ok (pc_ser c) (pc_de c)" and "view_single (base_view c fe s)"
    and "unat (fe_next_patch_id fe) + length (hot (fe_l1 fe)) + length (rf_cache (fe_recent fe)) < 2 ^ 64"
    and "flush_l1_to_l2 c uuids fe s = (r, fe', s')"
  shows "flush_ok c fe' s' \<and> base_view c fe' s' = base_view c fe s \<and> hot (fe_l1 fe') = [] \<and>
    (case r of Inl _ \<Rightarrow> fe_flush_epoch fe' = fe_flush_epoch fe
     | Inr _ \<Rightarrow> rf_cache (fe_recent fe') = [] \<and> fe_flush_epoch fe' = fe_flush_epoch fe + 1)"
  using flush_keeps_base [OF assms] by simp

theorem flush_keeps_versions_witness:
  "let fe = empty_stack\<lparr>fe_l1 := mem_insert (entry_put (Z1Key 0 [1]) 3 [7] 0) (fe_l1 empty_stack)\<rparr>;
       (r, fe', s') = flush_l1_to_l2 sample_pc (\<lambda>_. (0, 1, 2)) fe (quiet_fs\<lparr>script := [IoDone, IoFail OtherIo 0]\<rparr>)
   in (Z1Key 0 [1], 3, Some [7]) \<in> base_view sample_pc fe' s'"
proof -
  let ?e = "entry_put (Z1Key 0 [1]) 3 [7] 0"
  let ?s = "quiet_fs\<lparr>script := [IoDone, IoFail OtherIo 0]\<rparr>"
  define fe where "fe = empty_stack\<lparr>fe_l1 := mem_insert ?e (fe_l1 empty_stack)\<rparr>"
  obtain r fe' s' where fl: "flush_l1_to_l2 sample_pc (\<lambda>_. (0, 1, 2)) fe ?s = (r, fe', s')"
    using prod_cases3 by blast
  have v: "base_view sample_pc fe ?s = {(Z1Key 0 [1], 3, Some [7])}"
    by (simp add: fe_def empty_stack_def with_l3_def empty_layer_def mem_new_def rf_new_def base_view_def mem_insert_def
      pending_view_def disk_view_def layer_contents_def entries_at_def buffer_insert_def stored_of_def entry_put_def)
  have ok: "flush_ok sample_pc fe ?s"
    using empty_stack_ok [of sample_pc ?s] mem_ok_ops(2) by (simp add: fe_def flush_ok_def)
  have bd: "unat (fe_next_patch_id fe) + length (hot (fe_l1 fe)) + length (rf_cache (fe_recent fe)) < 2 ^ 64"
    by (simp add: fe_def empty_stack_def with_l3_def mem_insert_def mem_new_def buffer_insert_def rf_new_def)
  have "base_view sample_pc fe' s' = {(Z1Key 0 [1], 3, Some [7])}"
    using flush_keeps_versions [OF ok sample_pc_ok _ bd fl] v by (simp add: view_single_def)
  with fl show ?thesis by (simp add: fe_def Let_def)
qed

end
