(* ===== verification/Wal_Log.thy ===== *)
theory Wal_Log
  imports Wal
begin

section \<open>What the log guarantees\<close>

text \<open>
  Lemmas about the functions of theory \<open>Wal\<close>: reading back encoded records, torn tails,
  the writer's invariant and what replay finds after a crash.
\<close>

subsection \<open>Reading back what was written\<close>

definition encodable :: "wal_codec \<Rightarrow> wal_entry \<Rightarrow> bool" where
  "encodable c e \<longleftrightarrow> (\<exists>b. encode_record c e = Inr b)"

definition enc :: "wal_codec \<Rightarrow> wal_entry \<Rightarrow> bytes" where
  "enc c e = (case encode_record c e of Inr b \<Rightarrow> b | Inl _ \<Rightarrow> [])"

definition log_bytes :: "wal_codec \<Rightarrow> wal_entry list \<Rightarrow> bytes" where
  "log_bytes c es = concat (map (enc c) es)"

abbreviation codec_ok :: "wal_codec \<Rightarrow> bool" where
  "codec_ok c \<equiv> serde_ok (wc_ser c) (wc_de c)"

lemma log_bytes_simps [simp]:
  "log_bytes c [] = []" "log_bytes c (e # es) = enc c e @ log_bytes c es"
  "log_bytes c (xs @ ys) = log_bytes c xs @ log_bytes c ys"
  by (simp_all add: log_bytes_def)

lemma max_record_fits: "max_wal_record_len \<le> u32_max_nat"
  by (simp add: max_wal_record_len_def u32_max_nat_def)

lemma encodableE:
  assumes "encodable c e"
  obtains p where "wc_ser c e = Some p" "length p \<le> max_wal_record_len"
    "enc c e = u32_to_le (of_nat (length p)) @ u32_to_le (wc_crc c p) @ p"
  using assms by (auto simp: encodable_def enc_def encode_record_def split: option.splits if_splits)

lemma encode_record_Inr: "encode_record c e = Inr b \<Longrightarrow> encodable c e \<and> enc c e = b"
  by (auto simp: encodable_def enc_def)

lemma declared_len: "n \<le> max_wal_record_len \<Longrightarrow> unat (of_nat n :: u32) = n"
  using max_record_fits by (simp add: u32_le_of_len)

lemma u32_to_le_not_Nil [simp]: "u32_to_le w \<noteq> []"
  using length_u32_to_le [of w] by (metis list.size(3) zero_neq_numeral)

lemma enc_length: "encodable c e \<Longrightarrow> 8 \<le> length (enc c e)"
  by (elim encodableE) simp

lemma read_encoded:
  assumes "codec_ok c" "encodable c e" "script s = []"
  shows "read_one_record c (enc c e @ rest) s = (Inr (Some (e, rest)), s)"
proof -
  obtain p where p: "wc_ser c e = Some p" "length p \<le> max_wal_record_len"
      "enc c e = u32_to_le (of_nat (length p)) @ u32_to_le (wc_crc c p) @ p"
    using assms(2) by (rule encodableE)
  have "wc_de c p = Some e" using assms(1) p(1) by (simp add: serde_ok_def)
  with p assms(3) show ?thesis
    by (simp add: read_one_record_def Let_def declared_len not_less)
qed

lemma replay_segment_Nil [simp]: "script s = [] \<Longrightarrow> replay_segment c l [] out s = (Inr out, s)"
  by (subst replay_segment.simps) (simp add: read_one_record_def Let_def)

lemma replay_segment_encoded:
  assumes "codec_ok c" "encodable c e" "script s = []"
  shows "replay_segment c l (enc c e @ rest) out s = replay_segment c l rest (out @ [e]) s"
  using assms by (subst replay_segment.simps) (simp add: read_encoded)

lemma replay_segment_log:
  assumes "codec_ok c" "\<forall>e \<in> set es. encodable c e" "script s = []"
  shows "replay_segment c l (log_bytes c es @ rest) out s = replay_segment c l rest (out @ es) s"
  using assms(2)
proof (induction es arbitrary: out)
  case (Cons e es)
  then show ?case using assms(1,3) by (simp add: replay_segment_encoded)
qed simp

subsection \<open>Torn tails\<close>

lemma le_to_nat_take_pad: "le_to_nat (take i bs @ replicate n 0) \<le> le_to_nat bs"
proof -
  have "le_to_nat bs = le_to_nat (take i bs) + 256 ^ length (take i bs) * le_to_nat (drop i bs)"
    by (metis append_take_drop_id le_to_nat_append)
  then show ?thesis by (simp add: le_to_nat_append)
qed

lemma unat_u32_from_le: "length bs \<le> 4 \<Longrightarrow> unat (u32_from_le bs) = le_to_nat bs"
proof -
  assume "length bs \<le> 4"
  then have "(256 :: nat) ^ length bs \<le> 256 ^ 4" by (intro power_increasing) auto
  with le_to_nat_bound [of bs] have "le_to_nat bs < 2 ^ 32" by simp
  then show ?thesis by (simp add: u32_from_le_def unat_of_nat)
qed

lemma torn_length_field:
  assumes "n \<le> max_wal_record_len"
  shows "unat (u32_from_le (take i (u32_to_le (of_nat n)) @ replicate (4 - i) 0)) \<le> max_wal_record_len"
proof -
  have "unat (u32_from_le (take i (u32_to_le (of_nat n)) @ replicate (4 - i) 0)) =
      le_to_nat (take i (u32_to_le (of_nat n)) @ replicate (4 - i) 0)"
    by (rule unat_u32_from_le) simp
  also have "\<dots> \<le> le_to_nat (u32_to_le (of_nat n))" by (rule le_to_nat_take_pad)
  also have "\<dots> = n" using declared_len [OF assms] unat_u32_from_le [of "u32_to_le (of_nat n)"] by simp
  finally show ?thesis using assms by simp
qed

lemma torn_record_truncated:
  assumes "encodable c e" "i < length (enc c e)"
  shows "structurally_truncated (take i (enc c e))"
proof -
  obtain p where p: "length p \<le> max_wal_record_len"
      "enc c e = u32_to_le (of_nat (length p)) @ u32_to_le (wc_crc c p) @ p"
    using assms(1) by (rule encodableE)
  show ?thesis
  proof (cases "i < 8")
    case True
    have "take 4 (take i (enc c e) @ replicate (8 - i) 0) =
        take i (u32_to_le (of_nat (length p))) @ replicate (4 - i) 0"
      using True by (cases "i \<le> 4") (simp_all add: p(2) min_def)
    with True torn_length_field [OF p(1), of i] show ?thesis
      using assms(2) by (simp add: structurally_truncated_def Let_def not_less)
  next
    case False
    with assms(2) p(1) show ?thesis
      by (simp add: structurally_truncated_def Let_def p(2) declared_len not_less)
  qed
qed

lemma torn_record_unreadable:
  assumes "encodable c e" "0 < i" "i < length (enc c e)" "script s = []"
  shows "\<exists>err. read_one_record c (take i (enc c e)) s = (Inl err, s)"
proof -
  obtain p where p: "length p \<le> max_wal_record_len"
      "enc c e = u32_to_le (of_nat (length p)) @ u32_to_le (wc_crc c p) @ p"
    using assms(1) by (rule encodableE)
  show ?thesis
  proof (cases "i < 8")
    case True
    with assms show ?thesis by (auto simp: read_one_record_def Let_def)
  next
    case False
    with assms(3) p(2) have "\<not> length p \<le> i - 8" by simp
    with False assms(3,4) p(1) show ?thesis
      by (simp add: read_one_record_def Let_def p(2) declared_len not_less)
  qed
qed

lemma replay_torn_record:
  assumes "encodable c e" "i < length (enc c e)" "script s = []"
  shows "replay_segment c True (take i (enc c e)) out s = (Inr out, s)"
proof (cases "i = 0")
  case True
  with assms show ?thesis by simp
next
  case False
  then obtain err where "read_one_record c (take i (enc c e)) s = (Inl err, s)"
    using torn_record_unreadable [OF assms(1) _ assms(2,3)] by auto
  with assms torn_record_truncated [OF assms(1,2)] show ?thesis
    by (subst replay_segment.simps) simp
qed

lemma replay_torn_log:
  assumes "codec_ok c" "\<forall>e \<in> set es. encodable c e" "script s = []"
  shows "\<exists>n \<le> length es. replay_segment c True (take i (log_bytes c es)) out s = (Inr (out @ take n es), s) \<and>
    (\<forall>m \<le> length es. length (log_bytes c (take m es)) \<le> i \<longrightarrow> m \<le> n)"
  using assms(2)
proof (induction es arbitrary: i out)
  case Nil
  then show ?case using assms(3) by simp
next
  case (Cons e es)
  show ?case
  proof (cases "i < length (enc c e)")
    case True
    then have "replay_segment c True (take i (log_bytes c (e # es))) out s = (Inr out, s)"
      using Cons.prems assms(3) by (simp add: replay_torn_record)
    moreover have "m = 0" if "length (log_bytes c (take m (e # es))) \<le> i" for m
      using that True by (cases m) auto
    ultimately show ?thesis by (intro exI [of _ 0]) auto
  next
    case False
    let ?i = "i - length (enc c e)"
    obtain n where n: "n \<le> length es"
        "replay_segment c True (take ?i (log_bytes c es)) (out @ [e]) s = (Inr ((out @ [e]) @ take n es), s)"
        "\<forall>m \<le> length es. length (log_bytes c (take m es)) \<le> ?i \<longrightarrow> m \<le> n"
      using Cons.IH [of ?i "out @ [e]"] Cons.prems by auto
    have "replay_segment c True (take i (log_bytes c (e # es))) out s = (Inr (out @ take (Suc n) (e # es)), s)"
      using False Cons.prems assms(1,3) n(2) by (simp add: replay_segment_encoded)
    moreover have "m \<le> Suc n" if "m \<le> length (e # es)" "length (log_bytes c (take m (e # es))) \<le> i" for m
      using that n(3) by (cases m) auto
    ultimately show ?thesis using n(1) by (intro exI [of _ "Suc n"]) auto
  qed
qed

subsection \<open>The writer's invariant\<close>

text \<open>
  The closed segments \<open>old\<close> are synced and hold whole records, the current one holds the
  records \<open>es\<close> of which the first \<open>m\<close> are synced, the cursor is at its end, and no other
  segment exists.
\<close>

definition seg_is :: "fs \<Rightarrow> u64 \<Rightarrow> bytes \<Rightarrow> bytes \<Rightarrow> bool" where
  "seg_is s q d u \<longleftrightarrow> hm_get (files s) (WalSegment q) = Some \<lparr>fdata = d, fdurable = u\<rparr>"

definition wal_inv ::
    "wal_codec \<Rightarrow> (u64 \<times> wal_entry list) list \<Rightarrow> wal_entry list \<Rightarrow> nat \<Rightarrow> wal_writer \<Rightarrow> fs \<Rightarrow> bool" where
  "wal_inv c old es m w s \<longleftrightarrow>
     sorted_wrt (<) (map fst old @ [w_seq w]) \<and>
     (\<forall>(q, xs) \<in> set old. (\<forall>e \<in> set xs. encodable c e) \<and> seg_is s q (log_bytes c xs) (log_bytes c xs)) \<and>
     (\<forall>e \<in> set es. encodable c e) \<and> m \<le> length es \<and>
     seg_is s (w_seq w) (log_bytes c es) (log_bytes c (take m es)) \<and>
     {q. hm_contains (files s) (WalSegment q)} = set (map fst old @ [w_seq w]) \<and>
     w_pos w = length (log_bytes c es) \<and> segment_bytes w = w_pos w \<and>
     \<not> w_write_through w \<and> WalDir \<in> set (dirs s) \<and> hm_wf (files s)"

lemma write_at_end [simp]: "write_at (length d) bs d = d @ bs"
  by (simp add: write_at_def)

lemma keys_hm_insert_fs: "fst ` set (hm_insert k v m) = insert k (fst ` set m)"
  by (simp add: hm_insert_def AList.dom_update)

lemma put_bytes_seg:
  assumes "seg_is s q d u" "hm_wf (files s)"
  shows "files (put_bytes (WalSegment q) (length d) bs s) =
    hm_insert (WalSegment q) \<lparr>fdata = d @ bs, fdurable = u\<rparr> (files s)"
  using assms by (simp add: put_bytes_def seg_is_def)

text \<open>Writing one more record into the current segment.\<close>

lemma wal_inv_write:
  assumes inv: "wal_inv c old es m w s" and e: "encodable c e"
    and f: "files s' = hm_insert (WalSegment (w_seq w))
        \<lparr>fdata = log_bytes c es @ enc c e, fdurable = log_bytes c (take m es)\<rparr> (files s)"
    and d: "dirs s' = dirs s"
    and w: "w_seq w' = w_seq w" "w_pos w' = w_pos w + length (enc c e)"
      "segment_bytes w' = segment_bytes w + length (enc c e)" "w_write_through w' = w_write_through w"
  shows "wal_inv c old (es @ [e]) m w' s'"
proof -
  have old: "seg_is s' q d u" if "seg_is s q d u" "q \<noteq> w_seq w" for q d u
    using that by (simp add: seg_is_def f map_laws)
  have ne: "q \<noteq> w_seq w" if "(q, xs) \<in> set old" for q xs
    using that inv by (fastforce simp: wal_inv_def sorted_wrt_append)
  have keys: "hm_contains (files s') (WalSegment q) \<longleftrightarrow> hm_contains (files s) (WalSegment q)" for q
    using inv by (auto simp: f keys_hm_insert_fs wal_inv_def)
  have "seg_is s' (w_seq w) (log_bytes c es @ enc c e) (log_bytes c (take m es))"
    by (simp add: seg_is_def f map_laws)
  moreover have "\<forall>(q, xs) \<in> set old. (\<forall>e \<in> set xs. encodable c e) \<and>
      seg_is s' q (log_bytes c xs) (log_bytes c xs)"
    using inv old ne unfolding wal_inv_def by fast
  moreover have "hm_wf (files s')" using inv by (simp add: f wal_inv_def map_laws)
  ultimately show ?thesis
    using inv e w unfolding wal_inv_def d keys by (simp add: d)
qed

text \<open>Syncing the current segment.\<close>

lemma wal_inv_sync:
  assumes inv: "wal_inv c old es m w s"
    and f: "files s' = hm_insert (WalSegment (w_seq w))
        \<lparr>fdata = log_bytes c es, fdurable = log_bytes c es\<rparr> (files s)"
    and d: "dirs s' = dirs s"
    and w: "w_seq w' = w_seq w" "w_pos w' = w_pos w" "segment_bytes w' = segment_bytes w"
      "w_write_through w' = w_write_through w"
  shows "wal_inv c old es (length es) w' s'"
proof -
  have old: "seg_is s' q dd u" if "seg_is s q dd u" "q \<noteq> w_seq w" for q dd u
    using that by (simp add: seg_is_def f map_laws)
  have ne: "q \<noteq> w_seq w" if "(q, xs) \<in> set old" for q xs
    using that inv by (fastforce simp: wal_inv_def sorted_wrt_append)
  have keys: "hm_contains (files s') (WalSegment q) \<longleftrightarrow> hm_contains (files s) (WalSegment q)" for q
    using inv by (auto simp: f keys_hm_insert_fs wal_inv_def)
  have "seg_is s' (w_seq w) (log_bytes c es) (log_bytes c es)"
    by (simp add: seg_is_def f map_laws)
  moreover have "\<forall>(q, xs) \<in> set old. (\<forall>e \<in> set xs. encodable c e) \<and>
      seg_is s' q (log_bytes c xs) (log_bytes c xs)"
    using inv old ne unfolding wal_inv_def by fast
  moreover have "hm_wf (files s')" using inv by (simp add: f wal_inv_def map_laws)
  ultimately show ?thesis
    using inv w unfolding wal_inv_def keys by (simp add: d)
qed

lemma sys_sync_seg:
  assumes "sys_sync (WalSegment q) s = (Inr x, s')" "seg_is s q d u"
  shows "files s' = hm_insert (WalSegment q) \<lparr>fdata = d, fdurable = d\<rparr> (files s) \<and> dirs s' = dirs s"
proof -
  obtain y s1 where io: "next_io s = (y, s1)" by fastforce
  show ?thesis
    using assms by (auto simp: sys_sync_def seg_is_def io io_frame [OF io] split: io_outcome.splits)
qed

lemma wal_inv_flush:
  assumes "wal_inv c old es m w s" "inner_flush_and_sync w s = (Inr x, w', s')"
  shows "wal_inv c old es (length es) w' s' \<and> queue w' = queue w \<and> w_config w' = w_config w \<and>
    w_max_file_size w' = w_max_file_size w \<and> w_seq w' = w_seq w"
proof -
  obtain y s1 where io: "next_io s = (y, s1)" by fastforce
  have seg: "seg_is s1 (w_seq w) (log_bytes c es) (log_bytes c (take m es))"
    using assms(1) by (simp add: wal_inv_def seg_is_def io_frame [OF io])
  have sync: "sys_sync (WalSegment (w_seq w)) s1 = (Inr (), s')" "w' = w\<lparr>last_flush := mono_clock s'\<rparr>"
    using assms by (auto simp: inner_flush_and_sync_def io wal_inv_def
        split: io_outcome.splits prod.splits sum.splits)
  note f = sys_sync_seg [OF sync(1) seg]
  show ?thesis
    using wal_inv_sync [OF assms(1), of s' w'] f io_frame [OF io] sync(2) by simp
qed

lemma wal_inv_current:
  "wal_inv c old es m w s \<Longrightarrow> seg_is s (w_seq w) (log_bytes c es) (log_bytes c (take m es))"
  by (simp add: wal_inv_def)

text \<open>Closing the current segment and starting the next one.\<close>

lemma wal_inv_rotate:
  assumes inv: "wal_inv c old es m w s" and rot: "wal_rotate w s = (Inr x, w', s')"
    and seq: "w_seq w < u64_max"
  shows "wal_inv c (old @ [(w_seq w, es)]) [] 0 w' s' \<and> queue w' = queue w \<and> w_config w' = w_config w \<and>
    w_max_file_size w' = w_max_file_size w \<and> w_seq w' = w_seq w + 1"
proof -
  obtain r1 s1 where 1: "sys_sync (WalSegment (w_seq w)) s = (r1, s1)" by fastforce
  obtain y s2 where io: "next_io s1 = (y, s2)" by fastforce
  let ?q = "w_seq w" and ?q' = "w_seq w + 1"
  have wt: "\<not> w_write_through w" and dir: "WalDir \<in> set (dirs s)"
    using inv by (simp_all add: wal_inv_def)
  have r1: "r1 = Inr ()" using rot wt by (auto simp: wal_rotate_def 1 split: sum.splits)
  have f1: "files s1 = hm_insert (WalSegment ?q) \<lparr>fdata = log_bytes c es, fdurable = log_bytes c es\<rparr> (files s)"
      "dirs s1 = dirs s"
    using sys_sync_seg [OF 1 [unfolded r1] wal_inv_current [OF inv]] by simp_all
  have inv1: "wal_inv c old es (length es) w s1"
    by (rule wal_inv_sync [OF inv f1]) simp_all
  have lt: "?q < ?q'" using seq by (rule u64_less_succ)
  have less: "\<forall>q \<in> set (map fst old @ [?q]). q < ?q'"
  proof -
    have "\<forall>q \<in> set (map fst old). q < ?q" using inv by (auto simp: wal_inv_def sorted_wrt_append)
    with lt show ?thesis by auto
  qed
  moreover have "{q. hm_contains (files s1) (WalSegment q)} = set (map fst old @ [?q])"
    using inv1 unfolding wal_inv_def by blast
  ultimately have new: "\<not> hm_contains (files s1) (WalSegment ?q')"
    by (metis less_irrefl mem_Collect_eq)
  then have get: "hm_get (files s1) (WalSegment ?q') = None" by (simp add: map_of_eq_None_iff)
  have s': "files s' = hm_insert (WalSegment ?q') \<lparr>fdata = [], fdurable = []\<rparr> (files s1)" "dirs s' = dirs s1"
    and w': "w' = w\<lparr>prev_segments_bytes := prev_segments_bytes w + segment_bytes w, w_seq := ?q',
      w_pos := 0, segment_bytes := 0\<rparr>"
    using rot wt get dir
    by (auto simp: wal_rotate_def 1 r1 Let_def rotate_open_def sys_create_def io io_frame [OF io] f1(2)
        split: io_outcome.splits if_splits)
  have old: "seg_is s' q d u" if "seg_is s1 q d u" "q \<noteq> ?q'" for q d u
    using that by (simp add: seg_is_def s' map_laws)
  have segs: "\<forall>(q, xs) \<in> set (old @ [(?q, es)]). (\<forall>e \<in> set xs. encodable c e) \<and>
      seg_is s' q (log_bytes c xs) (log_bytes c xs)"
  proof -
    have "\<forall>(q, xs) \<in> set (old @ [(?q, es)]). (\<forall>e \<in> set xs. encodable c e) \<and>
        seg_is s1 q (log_bytes c xs) (log_bytes c xs)"
      using inv1 by (auto simp: wal_inv_def)
    moreover have "\<forall>(q, xs) \<in> set (old @ [(?q, es)]). q \<noteq> ?q'" using less by force
    ultimately show ?thesis using old by fast
  qed
  have keys: "{q. hm_contains (files s') (WalSegment q)} = set (map fst (old @ [(?q, es)]) @ [?q'])"
    using inv1 by (auto simp: s' keys_hm_insert_fs wal_inv_def)
  have sorted: "sorted_wrt (<) (map fst (old @ [(?q, es)]) @ [?q'])"
    using inv1 less by (auto simp: wal_inv_def sorted_wrt_append)
  have "seg_is s' ?q' [] []" by (simp add: seg_is_def s' map_laws)
  moreover have "hm_wf (files s')" using inv1 by (simp add: s' wal_inv_def map_laws)
  ultimately show ?thesis
    using segs keys sorted wt dir f1(2) unfolding wal_inv_def w' by (simp add: s'(2))
qed

lemma write_seg:
  assumes "wal_inv c old es m w s"
    and "sys_write_all (WalSegment (w_seq w)) (w_pos w) bs s = (Inr x, n, s')"
  shows "n = length bs \<and> dirs s' = dirs s \<and> files s' = hm_insert (WalSegment (w_seq w))
    \<lparr>fdata = log_bytes c es @ bs, fdurable = log_bytes c (take m es)\<rparr> (files s)"
proof -
  obtain y s1 where io: "next_io s = (y, s1)" by fastforce
  have seg: "seg_is s1 (w_seq w) (log_bytes c es) (log_bytes c (take m es))" "hm_wf (files s1)"
    "w_pos w = length (log_bytes c es)"
    using assms(1) by (simp_all add: wal_inv_def seg_is_def io_frame [OF io])
  have "s' = put_bytes (WalSegment (w_seq w)) (length (log_bytes c es)) bs s1" "n = length bs"
    using assms(2) seg(3) by (auto simp: sys_write_all_def io split: io_outcome.splits)
  moreover have "dirs (put_bytes p k bs s1) = dirs s1" for p k
    by (simp add: put_bytes_def split: option.splits)
  ultimately show ?thesis
    using put_bytes_seg [OF seg(1,2)] by (simp add: io_frame [OF io])
qed

text \<open>The invariant of the whole log: all records so far, and how many of them are synced.\<close>

definition wal_holds ::
    "wal_codec \<Rightarrow> wal_entry list \<Rightarrow> nat \<Rightarrow> wal_writer \<Rightarrow> fs \<Rightarrow> bool" where
  "wal_holds c log m w s \<longleftrightarrow>
     (\<exists>old es k. wal_inv c old es k w s \<and> log = concat (map snd old) @ es \<and>
        m = length (concat (map snd old)) + k)"

lemma append_encoded_holds:
  assumes "wal_holds c log m w s" "append_encoded (enc c e) w s = (Inr x, w', s')"
    "encodable c e" "w_seq w < u64_max"
  shows "\<exists>m' \<ge> m. wal_holds c (log @ [e]) m' w' s' \<and> queue w' = queue w \<and> w_config w' = w_config w"
proof -
  obtain old es k where inv: "wal_inv c old es k w s" "log = concat (map snd old) @ es"
      "m = length (concat (map snd old)) + k"
    using assms(1) by (auto simp: wal_holds_def)
  obtain r1 w1 s1 where 1: "(if segment_bytes w + length (enc c e) > w_max_file_size w \<and> segment_bytes w > 0
      then wal_rotate w s else (Inr (), w, s)) = (r1, w1, s1)"
    by (metis prod.exhaust)
  then have r1: "r1 = Inr ()" using assms(2) by (auto simp: append_encoded_def split: sum.splits)
  have "\<exists>old1 es1 k1. wal_inv c old1 es1 k1 w1 s1 \<and> log = concat (map snd old1) @ es1 \<and>
      m \<le> length (concat (map snd old1)) + k1 \<and> queue w1 = queue w \<and> w_config w1 = w_config w"
  proof (cases "segment_bytes w + length (enc c e) > w_max_file_size w \<and> segment_bytes w > 0")
    case True
    then have rot: "wal_rotate w s = (Inr (), w1, s1)" using 1 r1 by simp
    have "k \<le> length es" using inv(1) by (simp add: wal_inv_def)
    with wal_inv_rotate [OF inv(1) rot assms(4)] inv(2,3) show ?thesis
      by (intro exI [of _ "old @ [(w_seq w, es)]"] exI [of _ "[]"] exI [of _ 0]) simp
  next
    case False
    with 1 inv show ?thesis by auto
  qed
  then obtain old1 es1 k1 where inv1: "wal_inv c old1 es1 k1 w1 s1" "log = concat (map snd old1) @ es1"
      "m \<le> length (concat (map snd old1)) + k1" "queue w1 = queue w" "w_config w1 = w_config w"
    by blast
  obtain r2 n s2 where 2: "sys_write_all (WalSegment (w_seq w1)) (w_pos w1) (enc c e) s1 = (r2, n, s2)"
    by (metis prod.exhaust)
  have r2: "r2 = Inr ()" and w': "w' = w1\<lparr>w_pos := w_pos w1 + n, segment_bytes := segment_bytes w1 + length (enc c e)\<rparr>"
    and s': "s' = s2"
    using assms(2) 1 r1 2 by (auto simp: append_encoded_def split: sum.splits)
  note wr = write_seg [OF inv1(1) 2 [unfolded r2]]
  have "wal_inv c old1 (es1 @ [e]) k1 w' s'"
    by (rule wal_inv_write [OF inv1(1) assms(3)]) (use wr in \<open>simp_all add: w' s'\<close>)
  then have "wal_holds c (log @ [e]) (length (concat (map snd old1)) + k1) w' s'"
    using inv1(2) by (fastforce simp: wal_holds_def)
  with inv1(3-5) show ?thesis by (auto simp: w')
qed

lemma wal_holds_flush:
  assumes "wal_holds c log m w s" "inner_flush_and_sync w s = (Inr x, w', s')"
  shows "wal_holds c log (length log) w' s' \<and> queue w' = queue w \<and> w_config w' = w_config w"
proof -
  obtain old es k where inv: "wal_inv c old es k w s" "log = concat (map snd old) @ es"
    using assms(1) by (auto simp: wal_holds_def)
  from wal_inv_flush [OF inv(1) assms(2)] inv(2) show ?thesis by (fastforce simp: wal_holds_def)
qed

subsection \<open>Replay of a log\<close>

lemma in_segments: "q \<in> set (List.map_filter segment_seq ps) \<longleftrightarrow> WalSegment q \<in> set ps"
  by (induction ps) (auto simp: map_filter_simps split: option.splits elim: segment_seq.elims)

lemma set_map_filter_segments:
  "set (List.map_filter segment_seq (dir_files WalDir s)) = {q. hm_contains (files s) (WalSegment q)}"
  unfolding set_eq_iff in_segments by (auto simp: dir_files_def image_iff)

lemma distinct_map_filter_segments: "distinct ps \<Longrightarrow> distinct (List.map_filter segment_seq ps)"
  by (induction ps) (auto simp: map_filter_simps in_segments split: option.splits elim: segment_seq.elims)

lemma sorted_segments:
  assumes "hm_wf (files s)" "sorted_wrt (<) qs" "{q. hm_contains (files s) (WalSegment q)} = set qs"
  shows "sort (List.map_filter segment_seq (dir_files WalDir s)) = qs"
proof (rule sorted_distinct_set_unique)
  have "distinct (dir_files WalDir s)" using assms(1) by (simp add: dir_files_def)
  then show "distinct (sort (List.map_filter segment_seq (dir_files WalDir s)))"
    by (simp add: distinct_map_filter_segments)
  show "sorted qs" "distinct qs" using assms(2) by (simp_all add: strict_sorted_iff)
  show "set (sort (List.map_filter segment_seq (dir_files WalDir s))) = set qs"
    unfolding set_sort set_map_filter_segments by (rule assms(3))
qed simp

lemma replay_segments_old:
  assumes "codec_ok c" "script s = []" "rest \<noteq> []"
    and "\<forall>(q, xs) \<in> set old. (\<forall>e \<in> set xs. encodable c e) \<and>
      map_option fdata (hm_get (files s) (WalSegment q)) = Some (log_bytes c xs)"
  shows "replay_segments c (map fst old @ rest) out s =
    replay_segments c rest (out @ concat (map snd old)) s"
  using assms(4)
proof (induction old arbitrary: out)
  case (Cons p old)
  obtain q xs where p: "p = (q, xs)" by fastforce
  then have "sys_read (WalSegment q) s = (Inr (log_bytes c xs), s)"
    using Cons.prems assms(2) by (auto simp: sys_read_def split: option.splits)
  moreover have "replay_segment c False (log_bytes c xs) out s = (Inr (out @ xs), s)"
    using replay_segment_log [of c xs s False "[]" out] Cons.prems assms(1,2) p by simp
  ultimately show ?case using Cons assms(3) by (simp add: p)
qed simp

text \<open>A log whose last segment was cut anywhere replays to a prefix that contains every record
  that is wholly below the cut.\<close>

lemma replay_all_cut:
  assumes "codec_ok c" "script s = []" "hm_wf (files s)" "WalDir \<in> set (dirs s)"
    and "sorted_wrt (<) (map fst old @ [q])"
    and "{r. hm_contains (files s) (WalSegment r)} = set (map fst old @ [q])"
    and "\<forall>(r, xs) \<in> set old. (\<forall>e \<in> set xs. encodable c e) \<and>
      map_option fdata (hm_get (files s) (WalSegment r)) = Some (log_bytes c xs)"
    and "\<forall>e \<in> set es. encodable c e"
    and "map_option fdata (hm_get (files s) (WalSegment q)) = Some (take i (log_bytes c es))"
  shows "\<exists>n \<le> length es. replay_all c s = (Inr (concat (map snd old) @ take n es), s) \<and>
    (\<forall>m \<le> length es. length (log_bytes c (take m es)) \<le> i \<longrightarrow> m \<le> n)"
proof -
  obtain n where n: "n \<le> length es"
      "replay_segment c True (take i (log_bytes c es)) (concat (map snd old)) s =
        (Inr (concat (map snd old) @ take n es), s)"
      "\<forall>m \<le> length es. length (log_bytes c (take m es)) \<le> i \<longrightarrow> m \<le> n"
    using replay_torn_log [OF assms(1) assms(8,2), of i "concat (map snd old)"] by blast
  have "replay_all c s = replay_segments c (map fst old @ [q]) [] s"
    using assms(2,4) by (simp add: replay_all_def sys_read_dir_def sorted_segments [OF assms(3,5,6)])
  also have "\<dots> = replay_segments c [q] (concat (map snd old)) s"
    using replay_segments_old [OF assms(1,2) _ assms(7), of "[q]" "[]"] by simp
  also have "\<dots> = (Inr (concat (map snd old) @ take n es), s)"
    using assms(2,9) n(2) by (auto simp: sys_read_def split: option.splits)
  finally show ?thesis using n by blast
qed

subsection \<open>Crashes of the log\<close>

text \<open>A crash after which all names are still there: every file holds what \<open>crash_node\<close>
  allows. (Creating a segment does not sync the directory, so on a file system that does not
  persist the name with the first sync of the file, a fresh segment can also be missing.)\<close>

definition crash_of :: "fs \<Rightarrow> fs \<Rightarrow> bool" where
  "crash_of s s' \<longleftrightarrow>
     map fst (files s') = map fst (files s) \<and> dirs s' = dirs s \<and> script s' = [] \<and>
     (\<forall>p n. hm_get (files s) p = Some n \<longrightarrow>
        (\<exists>n'. hm_get (files s') p = Some n' \<and> crash_node n (fdata n')))"

text \<open>What a crash, and whatever happened since to other files, leaves of the log.\<close>

definition crash_log :: "fs \<Rightarrow> fs \<Rightarrow> bool" where
  "crash_log s s' \<longleftrightarrow>
     script s' = [] \<and> hm_wf (files s') \<and> WalDir \<in> set (dirs s') \<and>
     (\<forall>q. hm_contains (files s') (WalSegment q) \<longleftrightarrow> hm_contains (files s) (WalSegment q)) \<and>
     (\<forall>q n. hm_get (files s) (WalSegment q) = Some n \<longrightarrow>
        (\<exists>n'. hm_get (files s') (WalSegment q) = Some n' \<and> crash_node n (fdata n')))"

lemma crash_of_log:
  assumes "crash_of s s'" "hm_wf (files s)" "WalDir \<in> set (dirs s)"
  shows "crash_log s s'"
proof -
  have keys: "map fst (files s') = map fst (files s)" using assms(1) by (simp add: crash_of_def)
  then have "fst ` set (files s') = fst ` set (files s)" by (metis set_map)
  with keys show ?thesis using assms unfolding crash_log_def crash_of_def by (simp del: map_of_eq_Some_iff)
qed

lemma crash_log_seg:
  assumes "crash_log s s'" "seg_is s q d u" "is_prefix u d"
  shows "\<exists>i. length u \<le> i \<and> map_option fdata (hm_get (files s') (WalSegment q)) = Some (take i d)"
  using assms by (fastforce simp: crash_log_def seg_is_def crash_node_def)

lemma is_prefix_log: "is_prefix (log_bytes c (take m es)) (log_bytes c es)"
proof -
  have "log_bytes c es = log_bytes c (take m es) @ log_bytes c (drop m es)"
    by (metis append_take_drop_id log_bytes_simps(3))
  then show ?thesis by (simp add: is_prefix_def)
qed

lemma replay_crash_log:
  assumes "codec_ok c" "wal_holds c log m w s" "crash_log s s'"
  shows "\<exists>n. m \<le> n \<and> n \<le> length log \<and> replay_all c s' = (Inr (take n log), s')"
proof -
  obtain old es k where inv: "wal_inv c old es k w s" and log: "log = concat (map snd old) @ es"
      and m: "m = length (concat (map snd old)) + k"
    using assms(2) by (auto simp: wal_holds_def)
  have wf: "hm_wf (files s')" "WalDir \<in> set (dirs s')" "script s' = []"
    using assms(3) by (simp_all add: crash_log_def)
  have old: "\<forall>(q, xs) \<in> set old. (\<forall>e \<in> set xs. encodable c e) \<and>
      map_option fdata (hm_get (files s') (WalSegment q)) = Some (log_bytes c xs)"
  proof clarify
    fix q xs
    assume "(q, xs) \<in> set old"
    then have x: "\<forall>e \<in> set xs. encodable c e" "seg_is s q (log_bytes c xs) (log_bytes c xs)"
      using inv by (auto simp: wal_inv_def)
    from crash_log_seg [OF assms(3) x(2)]
    show "(\<forall>e \<in> set xs. encodable c e) \<and>
        map_option fdata (hm_get (files s') (WalSegment q)) = Some (log_bytes c xs)"
      using x(1) by (auto simp: is_prefix_def)
  qed
  obtain i where i: "length (log_bytes c (take k es)) \<le> i"
      "map_option fdata (hm_get (files s') (WalSegment (w_seq w))) = Some (take i (log_bytes c es))"
    using crash_log_seg [OF assms(3) wal_inv_current [OF inv] is_prefix_log] by blast
  have inv': "sorted_wrt (<) (map fst old @ [w_seq w])"
      "{r. hm_contains (files s') (WalSegment r)} = set (map fst old @ [w_seq w])"
      "\<forall>e \<in> set es. encodable c e" "k \<le> length es"
    using inv assms(3) by (simp_all add: wal_inv_def crash_log_def)
  obtain n where n: "n \<le> length es" "replay_all c s' = (Inr (concat (map snd old) @ take n es), s')"
      "\<forall>m \<le> length es. length (log_bytes c (take m es)) \<le> i \<longrightarrow> m \<le> n"
    using replay_all_cut [OF assms(1) wf(3,1,2) inv'(1,2) old inv'(3) i(2)] by blast
  have "k \<le> n" using n(3) inv'(4) i(1) by blast
  with n(1,2) show ?thesis
    by (intro exI [of _ "length (concat (map snd old)) + n"]) (simp add: log m)
qed

lemma replay_after_crash:
  assumes "codec_ok c" "wal_holds c log m w s" "crash_of s s'"
  shows "\<exists>n. m \<le> n \<and> n \<le> length log \<and> replay_all c s' = (Inr (take n log), s')"
proof (rule replay_crash_log [OF assms(1,2)])
  show "crash_log s s'" using assms(2) by (auto simp: wal_holds_def wal_inv_def intro: crash_of_log [OF assms(3)])
qed

subsection \<open>Runs of a writer\<close>

text \<open>
  A writer on a fresh directory whose calls all reported success so far, with the records it
  was given and the number of them known to be synced. Which calls fail later is decided by
  the script, which the environment may change between calls.
\<close>

inductive wal_run :: "wal_codec \<Rightarrow> wal_entry list \<Rightarrow> nat \<Rightarrow> wal_writer \<Rightarrow> fs \<Rightarrow> bool" for c where
  opened: "wal_open cfg s = (Inr w, s') \<Longrightarrow> hm_wf (files s) \<Longrightarrow>
     (\<nexists>q. hm_contains (files s) (WalSegment q)) \<Longrightarrow> enabled cfg \<Longrightarrow> wal_run c [] 0 w s'"
| faults: "wal_run c log m w s \<Longrightarrow> wal_run c log m w (s\<lparr>script := x, mono_clock := t\<rparr>)"
| appended: "wal_run c log m w s \<Longrightarrow> w_seq w < u64_max \<Longrightarrow> wal_append c t r w s = (Inr (), w', s') \<Longrightarrow>
     wal_run c (log @ [\<lparr>we_txn_id = t, we_record = r\<rparr>]) m w' s'"
| committed: "wal_run c log m w s \<Longrightarrow> w_seq w < u64_max \<Longrightarrow>
     sync_policy_of (w_config w) \<noteq> GroupCommitStrict \<Longrightarrow> append_durable c t r w s = (Inr (), w', s') \<Longrightarrow>
     wal_run c (log @ [\<lparr>we_txn_id = t, we_record = r\<rparr>]) (Suc (length log)) w' s'"
| flushed: "wal_run c log m w s \<Longrightarrow> queue w = [] \<Longrightarrow> flush_and_sync c w s = (Inr (), w', s') \<Longrightarrow>
     wal_run c log (length log) w' s'"

lemma wal_holds_weaken:
  assumes "wal_holds c log m w s" "n \<le> m"
  shows "\<exists>k. n \<le> k \<and> wal_holds c log k w s"
  using assms by blast

lemma wal_holds_open:
  assumes "wal_open cfg s = (Inr w, s')" "hm_wf (files s)" "\<nexists>q. hm_contains (files s) (WalSegment q)"
  shows "wal_holds c [] 0 w s' \<and> queue w = [] \<and> w_config w = cfg"
proof -
  obtain r1 s1 where 1: "sys_create_dir_all WalDir s = (r1, s1)" by fastforce
  have r1: "r1 = Inr ()" using assms(1) by (auto simp: wal_open_def 1 split: sum.splits)
  note f1 = create_dir_Inr [OF 1 [unfolded r1]]
  obtain r2 s2 where 2: "sys_read_dir WalDir s1 = (r2, s2)" by fastforce
  obtain ps where r2: "r2 = Inr ps"
    using assms(1) by (cases r2) (auto simp: wal_open_def 1 r1 open_latest_segment_def 2 Let_def)
  note f2 = read_dir_Inr [OF 2 [unfolded r2]]
  have none: "highest_segment ps None = None" if "\<forall>p \<in> set ps. segment_seq p = None" for ps
    using that by (induction ps) auto
  have "\<forall>p \<in> set ps. segment_seq p = None"
  proof
    fix p
    assume "p \<in> set ps"
    then have "hm_contains (files s) p" using f1 f2 by (auto simp: dir_files_def)
    with assms(3) show "segment_seq p = None" by (cases p) auto
  qed
  note high = none [OF this]
  obtain r3 s3 where 3: "sys_create (WalSegment 0) s2 = (r3, s3)" by fastforce
  have r3: "r3 = Inr ()" and w: "s' = s3" "w_seq w = 0" "w_pos w = 0" "segment_bytes w = 0"
      "\<not> w_write_through w" "queue w = []" "w_config w = cfg"
    using assms(1)
    by (auto simp: wal_open_def 1 r1 open_latest_segment_def 2 r2 high rotate_open_def 3
        cfg_windows_def Let_def split: sum.splits)
  have get: "hm_get (files s2) (WalSegment 0) = None"
    using assms(3) f1 f2 by (simp add: map_of_eq_None_iff)
  note f3 = create_new_Inr [OF 3 [unfolded r3] get]
  have s': "files s' = hm_insert (WalSegment 0) \<lparr>fdata = [], fdurable = []\<rparr> (files s)" "WalDir \<in> set (dirs s')"
    using f1 f2 f3 w(1) by simp_all
  have "wal_inv c [] [] 0 w s'"
    using assms(2,3) w s' by (auto simp: wal_inv_def seg_is_def keys_hm_insert_fs map_laws)
  then have "wal_holds c [] 0 w s'" by (force simp: wal_holds_def)
  with w show ?thesis by simp
qed

lemma wal_holds_script: "wal_holds c log m w s \<Longrightarrow> wal_holds c log m w (s\<lparr>script := x, mono_clock := t\<rparr>)"
  by (simp add: wal_holds_def wal_inv_def seg_is_def)

lemma append_durable_holds:
  assumes "wal_holds c log m w s" "append_durable c t r w s = (Inr (), w', s')" "w_seq w < u64_max"
    "enabled (w_config w)" "sync_policy_of (w_config w) \<noteq> GroupCommitStrict"
  shows "wal_holds c (log @ [\<lparr>we_txn_id = t, we_record = r\<rparr>]) (Suc (length log)) w' s' \<and>
    queue w' = queue w \<and> w_config w' = w_config w"
proof -
  let ?e = "\<lparr>we_txn_id = t, we_record = r\<rparr>"
  obtain bs where bs: "encode_record c ?e = Inr bs"
    using assms(2,4,5) by (auto simp: append_durable_def Let_def split: sync_policy.splits sum.splits)
  obtain r1 w1 s1 where 1: "append_encoded bs w s = (r1, w1, s1)" by (metis prod.exhaust)
  have r1: "r1 = Inr ()" and 2: "inner_flush_and_sync w1 s1 = (Inr (), w', s')"
    using assms(2,4,5) by (auto simp: append_durable_def Let_def bs 1 split: sync_policy.splits sum.splits)
  have e: "encodable c ?e" "enc c ?e = bs" using encode_record_Inr [OF bs] by simp_all
  obtain m' where h: "wal_holds c (log @ [?e]) m' w1 s1" "queue w1 = queue w" "w_config w1 = w_config w"
    using append_encoded_holds [OF assms(1) _ e(1) assms(3)] 1 r1 e(2) by blast
  show ?thesis using wal_holds_flush [OF h(1) 2] h(2,3) by simp
qed

lemma wal_run_holds:
  "wal_run c log m w s \<Longrightarrow> (\<exists>k \<ge> m. wal_holds c log k w s) \<and> enabled (w_config w) \<and> queue w = []"
proof (induction rule: wal_run.induct)
  case (opened cfg s w s')
  then show ?case using wal_holds_open by blast
next
  case (faults log m w s x t)
  then show ?case by (auto intro: wal_holds_script)
next
  case (appended log m w s t r w' s')
  let ?e = "\<lparr>we_txn_id = t, we_record = r\<rparr>"
  obtain k where k: "m \<le> k" "wal_holds c log k w s" using appended by blast
  have en: "enabled (w_config w)" "queue w = []" using appended by blast+
  obtain bs where bs: "encode_record c ?e = Inr bs" "append_encoded bs w s = (Inr (), w', s')"
    using appended.hyps(3) en by (auto simp: wal_append_def split: sum.splits)
  have e: "encodable c ?e" "enc c ?e = bs" using encode_record_Inr [OF bs(1)] by simp_all
  from append_encoded_holds [OF k(2) _ e(1) appended.hyps(2)] bs(2) e(2) k(1) en show ?case
    by (metis order_trans)
next
  case (committed log m w s t r w' s')
  then obtain k where k: "wal_holds c log k w s" "enabled (w_config w)" "queue w = []" by blast
  from append_durable_holds [OF k(1) committed.hyps(4,2) k(2) committed.hyps(3)] k(2,3) show ?case
    by auto
next
  case (flushed log m w s w' s')
  then obtain k where k: "wal_holds c log k w s" "enabled (w_config w)" by blast
  have "inner_flush_and_sync w s = (Inr (), w', s')"
    using flushed.hyps(2,3) by (simp add: flush_and_sync_def flush_queue_def)
  from wal_holds_flush [OF k(1) this] flushed.hyps(2) k(2) show ?case by auto
qed


text \<open>A small entry codec for concrete runs: it encodes begin and commit records.\<close>

definition sample_ser :: "wal_entry \<Rightarrow> bytes option" where
  "sample_ser e =
     (case we_record e of
        WalBegin \<Rightarrow> Some (u64_to_le (we_txn_id e))
      | WalCommit ts ins \<Rightarrow> Some (u64_to_le (we_txn_id e) @ u64_to_le ts @ u64_to_le ins)
      | _ \<Rightarrow> None)"

definition sample_de :: "bytes \<Rightarrow> wal_entry option" where
  "sample_de b =
     (if length b = 8 then Some \<lparr>we_txn_id = u64_from_le b, we_record = WalBegin\<rparr>
      else if length b = 24 then
        Some \<lparr>we_txn_id = u64_from_le (take 8 b),
              we_record = WalCommit (u64_from_le (take 8 (drop 8 b))) (u64_from_le (drop 16 b))\<rparr>
      else None)"

definition sample_codec :: wal_codec where
  "sample_codec = \<lparr>wc_ser = sample_ser, wc_de = sample_de, wc_crc = (\<lambda>b. of_nat (length b))\<rparr>"

lemma sample_codec_ok: "codec_ok sample_codec"
  by (auto simp: serde_ok_def sample_codec_def sample_ser_def sample_de_def split: wal_record.splits)

definition empty_fs :: fs where
  "empty_fs = \<lparr>files = [], unsynced = [], dirs = [], script = [], mono_clock = 0\<rparr>"

definition sync_each_config :: wal_config where
  "sync_each_config = default_wal_config
     \<lparr>group_commit := Some (default_group_commit_config\<lparr>policy := SyncEach\<rparr>)\<rparr>"

lemma crash_of_synced:
  assumes "script s = []" "\<forall>(p, n) \<in> set (files s). fdurable n = fdata n"
  shows "crash_of s s"
  using assms by (fastforce simp: crash_of_def crash_node_def is_prefix_def dest: map_of_SomeD)

text \<open>Evaluation of writer calls on concrete states.\<close>

lemmas wal_eval = wal_open_def open_latest_segment_def rotate_open_def append_durable_def wal_append_def
  append_encoded_def inner_flush_and_sync_def encode_record_def sync_policy_of_def wal_rotate_def
  cfg_windows_def default_wal_config_def default_group_commit_config_def sync_each_config_def
  max_wal_record_len_def sys_defs name_changes_def put_bytes_def write_at_def dir_files_def
  hm_insert_def hm_remove_def empty_fs_def sample_codec_def sample_ser_def Let_def

definition fresh_writer :: wal_writer where
  "fresh_writer = \<lparr>w_seq = 0, w_pos = 0, w_write_through = False, prev_segments_bytes = 0,
     segment_bytes = 0, queue = [], w_max_file_size = 134217728, last_flush = 0,
     w_config = sync_each_config\<rparr>"

definition fresh_fs :: "fnode \<Rightarrow> fs" where
  "fresh_fs n = \<lparr>files = [(WalSegment 0, n)], unsynced = [(WalSegment 0, None)],
     dirs = [DataDir, WalDir], script = [], mono_clock = 0\<rparr>"

lemma open_fresh: "wal_open sync_each_config empty_fs = (Inr fresh_writer, fresh_fs \<lparr>fdata = [], fdurable = []\<rparr>)"
  by (simp add: wal_eval fresh_writer_def fresh_fs_def)

abbreviation sample_commit :: wal_entry where
  "sample_commit \<equiv> \<lparr>we_txn_id = 1, we_record = WalCommit 1 7\<rparr>"

lemma commit_fresh:
  "append_durable sample_codec 1 (WalCommit 1 7) fresh_writer (fresh_fs \<lparr>fdata = [], fdurable = []\<rparr>) =
   (Inr (), fresh_writer\<lparr>w_pos := 32, segment_bytes := 32\<rparr>,
    fresh_fs \<lparr>fdata = enc sample_codec sample_commit, fdurable = enc sample_codec sample_commit\<rparr>)"
  by (simp add: wal_eval fresh_writer_def fresh_fs_def enc_def)


subsection \<open>Where the log loses records\<close>

lemma highest_segment_Some:
  assumes "best = Some q \<or> WalSegment q \<in> set ps" "\<forall>r. WalSegment r \<in> set ps \<longrightarrow> r \<le> q"
    "\<forall>b. best = Some b \<longrightarrow> b \<le> q"
  shows "highest_segment ps best = Some q"
  using assms
proof (induction ps best rule: highest_segment.induct)
  case (2 p ps best)
  show ?case
  proof (cases "segment_seq p")
    case None
    then have "p \<noteq> WalSegment q" by auto
    with 2 None show ?thesis by auto
  next
    case (Some r)
    then have p: "p = WalSegment r" by (cases p) auto
    have "r \<le> q" using 2(3) p by simp
    let ?best = "case best of None \<Rightarrow> Some r | Some b \<Rightarrow> if r > b then Some r else best"
    have "?best = Some q \<or> WalSegment q \<in> set ps" "\<forall>b. ?best = Some b \<longrightarrow> b \<le> q"
      using 2(2,4) p \<open>r \<le> q\<close> by (auto simp: not_less split: option.splits)
    moreover have "highest_segment (p # ps) best = highest_segment ps ?best" by (simp add: p)
    ultimately show ?thesis using 2(1,3) p by simp
  qed
qed simp

text \<open>
  C31. Reopening overwrites the log. Opening an existing log puts the cursor of its last
  segment at position 0, so the first record appended afterwards (unless the segment is full)
  overwrites the beginning of the segment.
\<close>

theorem reopen_overwrites_log:
  assumes "hm_get (files s) (WalSegment q) = Some n"
    and "\<forall>r. hm_contains (files s) (WalSegment r) \<longrightarrow> r \<le> q"
    and "wal_open cfg s = (Inr w, s1)" and "append_encoded bs w s1 = (Inr (), w2, s2)"
    and "length (fdata n) + length bs \<le> max_file_size cfg"
  shows "map_option fdata (hm_get (files s2) (WalSegment q)) = Some (bs @ drop (length bs) (fdata n))"
proof -
  obtain r1 t1 where 1: "sys_create_dir_all WalDir s = (r1, t1)" by fastforce
  have r1: "r1 = Inr ()" using assms(3) by (auto simp: wal_open_def 1 split: sum.splits)
  note f1 = create_dir_Inr [OF 1 [unfolded r1]]
  obtain r2 t2 where 2: "sys_read_dir WalDir t1 = (r2, t2)" by fastforce
  obtain ps where r2: "r2 = Inr ps"
    using assms(3) by (cases r2) (auto simp: wal_open_def 1 r1 open_latest_segment_def 2 Let_def)
  note f2 = read_dir_Inr [OF 2 [unfolded r2]]
  have "WalSegment q \<in> fst ` set (files s)" using assms(1) by (force dest: map_of_SomeD)
  then have "highest_segment ps None = Some q"
    using assms(2) f1 f2 by (intro highest_segment_Some) (auto simp: dir_files_def)
  note high = this
  obtain r3 t3 where 3: "sys_open (WalSegment q) t2 = (r3, t3)" by fastforce
  obtain r4 t4 where 4: "sys_read (WalSegment q) t3 = (r4, t4)" by fastforce
  have r3: "r3 = Inr ()" and r4: "\<exists>d. r4 = Inr d"
    using assms(3) by (auto simp: wal_open_def 1 r1 open_latest_segment_def 2 r2 high 3 4 cfg_windows_def
        Let_def split: sum.splits)
  then obtain d where d: "r4 = Inr d" by blast
  have t3: "files t3 = files t2" using 3 by (auto simp: sys_open_def io_frame split: prod.splits io_outcome.splits if_splits)
  have t4: "files t4 = files s" "d = fdata n"
    using read_Inr [OF 4 [unfolded d]] t3 f1 f2 assms(1) by (simp_all add: same_files_def)
  have w: "s1 = t4" "w_seq w = q" "w_pos w = 0" "segment_bytes w = length (fdata n)"
      "w_max_file_size w = max_file_size cfg"
    using assms(3) by (auto simp: wal_open_def 1 r1 open_latest_segment_def 2 r2 high 3 r3 4 d
        cfg_windows_def Let_def t4(2))
  obtain y t5 where io: "next_io t4 = (y, t5)" by fastforce
  have "s2 = put_bytes (WalSegment q) 0 bs t5"
    using assms(4,5) w by (auto simp: append_encoded_def sys_write_all_def io split: io_outcome.splits)
  then show ?thesis
    using assms(1) t4(1) by (simp add: put_bytes_def io_frame [OF io] write_at_def map_laws)
qed

lemma reopen_sample:
  "wal_open sync_each_config (fresh_fs n) =
     (Inr (fresh_writer\<lparr>segment_bytes := length (fdata n)\<rparr>), fresh_fs n)"
  by (simp add: wal_eval fresh_writer_def fresh_fs_def)

theorem reopen_overwrites_log_witness:
  "map_option fdata (hm_get (files (snd (snd (append_encoded [9] (fresh_writer\<lparr>segment_bytes := 3\<rparr>)
      (fresh_fs \<lparr>fdata = [1, 2, 3], fdurable = [1, 2, 3]\<rparr>))))) (WalSegment 0)) = Some [9, 2, 3]"
proof -
  let ?n = "\<lparr>fdata = [1, 2, 3], fdurable = [1, 2, 3]\<rparr> :: fnode"
  let ?a = "append_encoded [9] (fresh_writer\<lparr>segment_bytes := 3\<rparr>) (fresh_fs ?n)"
  have a: "?a = (Inr (), fst (snd ?a), snd (snd ?a))"
    by (simp add: wal_eval fresh_writer_def fresh_fs_def)
  have o: "wal_open sync_each_config (fresh_fs ?n) =
      (Inr (fresh_writer\<lparr>segment_bytes := 3\<rparr>), fresh_fs ?n)"
    using reopen_sample [of ?n] by simp
  have "map_option fdata (hm_get (files (snd (snd ?a))) (WalSegment 0)) = Some ([9] @ drop (length [9 :: u8]) (fdata ?n))"
    by (rule reopen_overwrites_log [OF _ _ o a])
      (simp_all add: fresh_fs_def sync_each_config_def default_wal_config_def)
  then show ?thesis by simp
qed

text \<open>
  A commit is lost after a reopen. A commit record written and synced, a reopen of the
  log, and one more commit: replay finds the second commit only, without any error.
\<close>

lemma reopen_loses_commit:
  "let s1 = snd (snd (append_durable sample_codec 1 (WalCommit 1 7) fresh_writer
               (fresh_fs \<lparr>fdata = [], fdurable = []\<rparr>)));
       s2 = snd (snd (append_durable sample_codec 2 (WalCommit 2 8)
               (fresh_writer\<lparr>segment_bytes := 32\<rparr>) s1))
   in wal_open sync_each_config s1 = (Inr (fresh_writer\<lparr>segment_bytes := 32\<rparr>), s1) \<and>
      fst (replay_all sample_codec s1) = Inr [\<lparr>we_txn_id = 1, we_record = WalCommit 1 7\<rparr>] \<and>
      fst (replay_all sample_codec s2) = Inr [\<lparr>we_txn_id = 2, we_record = WalCommit 2 8\<rparr>]"
proof -
  let ?e1 = "enc sample_codec sample_commit"
  let ?c2 = "\<lparr>we_txn_id = 2, we_record = WalCommit 2 8\<rparr> :: wal_entry"
  let ?e2 = "enc sample_codec ?c2"
  let ?s1 = "fresh_fs \<lparr>fdata = ?e1, fdurable = ?e1\<rparr>" and ?s2 = "fresh_fs \<lparr>fdata = ?e2, fdurable = ?e2\<rparr>"
  have len: "length ?e1 = 32" "length ?e2 = 32"
    by (simp_all add: enc_def encode_record_def sample_codec_def sample_ser_def max_wal_record_len_def)
  have s2: "append_durable sample_codec 2 (WalCommit 2 8) (fresh_writer\<lparr>segment_bytes := 32\<rparr>) ?s1 =
      (Inr (), fresh_writer\<lparr>w_pos := 32, segment_bytes := 64\<rparr>, ?s2)"
    using len by (simp add: wal_eval fresh_writer_def fresh_fs_def enc_def)
  have enc: "encodable sample_codec sample_commit" "encodable sample_codec ?c2"
    by (simp_all add: encodable_def encode_record_def sample_codec_def sample_ser_def max_wal_record_len_def)
  have "replay_all sample_codec (fresh_fs \<lparr>fdata = enc sample_codec e, fdurable = d\<rparr>) =
      (Inr [e], fresh_fs \<lparr>fdata = enc sample_codec e, fdurable = d\<rparr>)" if "encodable sample_codec e" for e d
    using replay_segment_encoded [OF sample_codec_ok that, of _ True "[]" "[]"]
    by (simp add: replay_all_def sys_read_dir_def sys_read_def fresh_fs_def dir_files_def map_filter_simps)
  with enc len show ?thesis
    by (simp add: Let_def commit_fresh s2 reopen_sample)
qed


end
