(* ===== verification/Recovery.thy ===== *)
theory Recovery
  imports Wal_Log
begin

section \<open>Recovery from the log\<close>

text \<open>
  Models \<^verbatim>\<open>src/src/wal/recovery.rs\<close>: the records of the log are grouped by transaction,
  and the operations of committed transactions are handed to a callback in ascending order
  of their transactions, with the classification of the callback's errors. The callback works
  on a state of its own. A message is the error it was formatted from. The record appended
  to the side log \<^verbatim>\<open>replay_failure\<close> is formatted by \<^verbatim>\<open>serde_json\<close> with the wall clock; its
  bytes are the argument \<open>json\<close>. The counters of the metrics module are passed along.
\<close>

datatype recoverable_reason = ReasonAlreadyExists | ReasonPermissionDenied | ReasonUnknown

datatype corruption_location = LocDeserialize | LocUnknown

datatype fatal_source = WalReader | IoSource io_kind

datatype replay_error_kind =
    Recoverable recoverable_reason z1error
  | Ambiguous z1error
  | Corruption corruption_location z1error
  | FatalReplay fatal_source z1error

record replay_error =
  re_kind :: replay_error_kind
  re_txn_id :: txn_id

record recovery_result =
  last_committed_txn :: txn_id
  max_seen_committed_txn :: txn_id
  committed_count :: nat
  discarded_count :: nat
  rr_commit_ts_map :: "(txn_id, u64) hmap"
  rr_inserted_at_map :: "(txn_id, u64) hmap"
  rr_replay_watermark :: u64
  committed_puts :: "(txn_id \<times> wal_record) list"

definition classify_apply_error :: "z1error \<Rightarrow> replay_error_kind" where
  "classify_apply_error err =
     (case err of
        Deserialize _ \<Rightarrow> Corruption LocDeserialize err
      | Io k \<Rightarrow>
          (case k of
             AlreadyExists \<Rightarrow> Recoverable ReasonAlreadyExists err
           | PermissionDenied \<Rightarrow> Recoverable ReasonPermissionDenied err
           | _ \<Rightarrow> FatalReplay (IoSource k) err)
      | _ \<Rightarrow> Ambiguous err)"

subsection \<open>Grouping the records\<close>

record scan_state =
  pending :: "(txn_id, wal_entry list) hmap"
  committed_txns :: "(txn_id, u64) hmap"
  rolled_back :: "txn_id list"
  max_seen_committed :: txn_id
  inserted_at_map :: "(txn_id, u64) hmap"
  max_inserted_at :: u64

definition scan_start :: scan_state where
  "scan_start = \<lparr>pending = [], committed_txns = [], rolled_back = [], max_seen_committed = 0,
     inserted_at_map = [], max_inserted_at = 0\<rparr>"

definition scan_record :: "wal_entry \<Rightarrow> scan_state \<Rightarrow> scan_state" where
  "scan_record entry st =
     (let t = we_txn_id entry in
      case we_record entry of
        WalPut _ _ _ \<Rightarrow> st\<lparr>pending := hm_insert t (unwrap_or [] (hm_get (pending st) t) @ [entry]) (pending st)\<rparr>
      | WalBegin \<Rightarrow> st\<lparr>pending := hm_insert t (unwrap_or [] (hm_get (pending st) t)) (pending st)\<rparr>
      | WalCommit commit_ts inserted_at \<Rightarrow>
          st\<lparr>committed_txns := hm_insert t commit_ts (committed_txns st),
             inserted_at_map := hm_insert t inserted_at (inserted_at_map st),
             max_inserted_at := max (max_inserted_at st) inserted_at,
             max_seen_committed := max (max_seen_committed st) t\<rparr>
      | WalRollback \<Rightarrow>
          st\<lparr>rolled_back := List.insert t (rolled_back st), pending := hm_remove t (pending st)\<rparr>
      | WalCheckpoint _ \<Rightarrow> st)"

subsection \<open>The side log\<close>

definition sys_open_append :: "path \<Rightarrow> fs \<Rightarrow> unit z1result \<times> fs" where
  "sys_open_append p s =
     (case next_io s of
        (IoFail k _, s') \<Rightarrow> (Inl (Io k), s')
      | (IoDone, s') \<Rightarrow>
          if parent_dir p \<notin> set (dirs s') then (Inl (Io NotFound), s')
          else case hm_get (files s') p of
                 None \<Rightarrow> (Inr (), (name_changes p s')\<lparr>files := hm_insert p \<lparr>fdata = [], fdurable = []\<rparr> (files s')\<rparr>)
               | Some n \<Rightarrow> (Inr (), s'))"

definition write_replay_failure :: "(txn_id \<Rightarrow> z1error \<Rightarrow> bytes) \<Rightarrow> txn_id \<Rightarrow> z1error \<Rightarrow> fs \<Rightarrow> unit z1result \<times> fs" where
  "write_replay_failure json t reason s =
     (case sys_open_append ReplayFailure s of
        (Inl e, s1) \<Rightarrow> (Inl e, s1)
      | (Inr _, s1) \<Rightarrow>
          (case sys_write_all ReplayFailure
                  (case hm_get (files s1) ReplayFailure of None \<Rightarrow> 0 | Some n \<Rightarrow> length (fdata n)) (json t reason) s1 of
             (r, _, s2) \<Rightarrow> (r, s2)))"

subsection \<open>Replay\<close>

fun apply_ops ::
    "(wal_entry \<Rightarrow> 'a \<Rightarrow> unit z1result \<times> 'a) \<Rightarrow> wal_entry list \<Rightarrow> 'a \<Rightarrow> z1error option \<times> 'a" where
  "apply_ops f [] a = (None, a)"
| "apply_ops f (op # ops) a =
     (case f op a of
        (Inl e, a1) \<Rightarrow> (Some e, a1)
      | (Inr _, a1) \<Rightarrow> apply_ops f ops a1)"

text \<open>What happens after the callback failed: recovery stops with an error, or the transaction
  is skipped.\<close>

definition on_apply_error ::
    "bool \<Rightarrow> (txn_id \<Rightarrow> z1error \<Rightarrow> bytes) \<Rightarrow> txn_id \<Rightarrow> z1error \<Rightarrow> degrade_counts \<Rightarrow> fs \<Rightarrow>
     replay_error option \<times> degrade_counts \<times> fs" where
  "on_apply_error strict json t e counts s =
     (let kind = classify_apply_error e in
      case kind of
        FatalReplay _ _ \<Rightarrow> (Some \<lparr>re_kind = kind, re_txn_id = t\<rparr>, counts, s)
      | Corruption _ detail \<Rightarrow>
          (case handle_degrade (degrade ''wal_record_corrupt'' (Wrapped detail)) strict counts of
             (Break, counts1) \<Rightarrow> (Some \<lparr>re_kind = kind, re_txn_id = t\<rparr>, counts1, s)
           | (Continue, counts1) \<Rightarrow> (None, counts1, snd (write_replay_failure json t detail s)))
      | Recoverable _ _ \<Rightarrow> (None, counts, s)
      | Ambiguous _ \<Rightarrow> (None, counts, s))"

definition is_put :: "wal_entry \<Rightarrow> bool" where
  "is_put e \<longleftrightarrow> (case we_record e of WalPut _ _ _ \<Rightarrow> True | _ \<Rightarrow> False)"

fun replay_txns ::
    "bool \<Rightarrow> (txn_id \<Rightarrow> z1error \<Rightarrow> bytes) \<Rightarrow> (wal_entry \<Rightarrow> 'a \<Rightarrow> unit z1result \<times> 'a) \<Rightarrow>
     (txn_id, u64) hmap \<Rightarrow> txn_id list \<Rightarrow> (txn_id, wal_entry list) hmap \<Rightarrow> recovery_result \<Rightarrow> 'a \<Rightarrow>
     degrade_counts \<Rightarrow> fs \<Rightarrow> (replay_error + recovery_result) \<times> 'a \<times> degrade_counts \<times> fs" where
  "replay_txns strict json f ctxns [] pend res a counts s = (Inr res, a, counts, s)"
| "replay_txns strict json f ctxns (t # ts) pend res a counts s =
     (let commit_ts = unwrap_or 0 (hm_get ctxns t) in
      case hm_get pend t of
        None \<Rightarrow> replay_txns strict json f ctxns ts pend res a counts s
      | Some ops \<Rightarrow>
          (let pend1 = hm_remove t pend in
           case apply_ops f ops a of
             (Some e, a1) \<Rightarrow>
               (case on_apply_error strict json t e counts s of
                  (Some err, counts1, s1) \<Rightarrow> (Inl err, a1, counts1, s1)
                | (None, counts1, s1) \<Rightarrow> replay_txns strict json f ctxns ts pend1 res a1 counts1 s1)
           | (None, a1) \<Rightarrow>
               replay_txns strict json f ctxns ts pend1
                 (res\<lparr>last_committed_txn := max (last_committed_txn res) t,
                      committed_count := committed_count res + 1,
                      rr_commit_ts_map := hm_insert t commit_ts (rr_commit_ts_map res),
                      committed_puts := committed_puts res @ map (\<lambda>op. (t, we_record op)) (filter is_put ops)\<rparr>)
                 a1 counts s))"

definition replay_committed_ops ::
    "wal_codec \<Rightarrow> bool \<Rightarrow> (txn_id \<Rightarrow> z1error \<Rightarrow> bytes) \<Rightarrow> (wal_entry \<Rightarrow> 'a \<Rightarrow> unit z1result \<times> 'a) \<Rightarrow>
     'a \<Rightarrow> degrade_counts \<Rightarrow> fs \<Rightarrow> (replay_error + recovery_result) \<times> 'a \<times> degrade_counts \<times> fs" where
  "replay_committed_ops c strict json f a counts s =
     (case replay_all c s of
        (Inl e, s1) \<Rightarrow> (Inl \<lparr>re_kind = FatalReplay WalReader e, re_txn_id = 0\<rparr>, a, counts, s1)
      | (Inr records, s1) \<Rightarrow>
          (let st = fold scan_record records scan_start;
               result = \<lparr>last_committed_txn = 0, max_seen_committed_txn = max_seen_committed st,
                         committed_count = 0,
                         discarded_count = length (filter (\<lambda>(t, _). \<not> hm_contains (committed_txns st) t \<and>
                                                                     t \<notin> set (rolled_back st)) (pending st)),
                         rr_commit_ts_map = [], rr_inserted_at_map = inserted_at_map st,
                         rr_replay_watermark = max_inserted_at st, committed_puts = []\<rparr>;
               ordered = sort (map fst (committed_txns st))
           in replay_txns strict json f (committed_txns st) ordered (pending st) result a counts s1))"

subsection \<open>What the log says of a transaction\<close>

text \<open>The part of the log after the last rollback of a transaction, the writes of the
  transaction in it, whether it appears there at all, and its last commit record.\<close>

definition live_tail :: "txn_id \<Rightarrow> wal_entry list \<Rightarrow> wal_entry list" where
  "live_tail t log = rev (takeWhile (\<lambda>e. \<not> (we_txn_id e = t \<and> we_record e = WalRollback)) (rev log))"

definition live_ops :: "txn_id \<Rightarrow> wal_entry list \<Rightarrow> wal_entry list" where
  "live_ops t log = filter (\<lambda>e. we_txn_id e = t \<and> is_put e) (live_tail t log)"

definition logged :: "txn_id \<Rightarrow> wal_entry list \<Rightarrow> bool" where
  "logged t log \<longleftrightarrow> (\<exists>e \<in> set (live_tail t log). we_txn_id e = t \<and> (is_put e \<or> we_record e = WalBegin))"

definition commits_in :: "wal_entry list \<Rightarrow> (txn_id \<times> u64) list" where
  "commits_in log = List.map_filter (\<lambda>e. case we_record e of WalCommit ts _ \<Rightarrow> Some (we_txn_id e, ts) | _ \<Rightarrow> None) log"

definition committed_at :: "txn_id \<Rightarrow> wal_entry list \<Rightarrow> u64 option" where
  "committed_at t log = map_of (rev (commits_in log)) t"

lemma live_tail_snoc:
  "live_tail t (log @ [e]) = (if we_txn_id e = t \<and> we_record e = WalRollback then [] else live_tail t log @ [e])"
  by (simp add: live_tail_def)

lemma commits_in_snoc:
  "commits_in (log @ [e]) = commits_in log @ (case we_record e of WalCommit ts _ \<Rightarrow> [(we_txn_id e, ts)] | _ \<Rightarrow> [])"
  by (simp add: commits_in_def map_filter_def split: wal_record.splits)

lemma scan_snoc: "fold scan_record (log @ [e]) st = scan_record e (fold scan_record log st)"
  by simp

lemma scan_pending:
  "hm_get (pending (fold scan_record log scan_start)) t = (if logged t log then Some (live_ops t log) else None)"
proof (induction log rule: rev_induct)
  case Nil
  then show ?case by (simp add: scan_start_def logged_def live_tail_def)
next
  case (snoc e log)
  then show ?case
    by (cases "we_record e"; cases "we_txn_id e = t")
      (auto simp: scan_snoc scan_record_def [of e] map_laws logged_def live_ops_def live_tail_snoc is_put_def Let_def
        simp del: fold_append)
qed

lemma scan_committed: "hm_get (committed_txns (fold scan_record log scan_start)) t = committed_at t log"
proof (induction log rule: rev_induct)
  case Nil
  then show ?case by (simp add: scan_start_def committed_at_def commits_in_def map_filter_def)
next
  case (snoc e log)
  then show ?case
    by (cases "we_record e")
      (simp_all add: scan_snoc scan_record_def [of e] map_laws committed_at_def commits_in_snoc Let_def del: fold_append)
qed

lemma scan_wf: "hm_wf (committed_txns (fold scan_record log scan_start))"
proof (induction log rule: rev_induct)
  case (snoc e log)
  then show ?case
    by (cases "we_record e") (simp_all add: scan_snoc scan_record_def [of e] map_laws Let_def del: fold_append)
qed (simp add: scan_start_def)

lemma scan_max:
  "max_seen_committed (fold scan_record log scan_start) = unwrap_or 0 (iter_max (map fst (commits_in log)))"
proof (induction log rule: rev_induct)
  case Nil
  then show ?case by (simp add: scan_start_def commits_in_def map_filter_def)
next
  case (snoc e log)
  have m: "unwrap_or 0 (iter_max (xs @ [x])) = max (unwrap_or 0 (iter_max xs)) x" for xs :: "u64 list" and x
    by (induction xs) (auto split: option.splits simp: max.assoc)
  from snoc show ?case
    by (cases "we_record e")
      (simp_all add: scan_snoc scan_record_def [of e] commits_in_snoc m Let_def del: fold_append)
qed

text \<open>The transactions recovery replays, in its order.\<close>

definition replayed_txns :: "wal_entry list \<Rightarrow> txn_id list" where
  "replayed_txns log = sorted_list_of_set {t. committed_at t log \<noteq> None \<and> logged t log}"

lemma ordered_replayed:
  "filter (\<lambda>t. logged t log) (sort (map fst (committed_txns (fold scan_record log scan_start)))) = replayed_txns log"
  (is "?l = _")
proof -
  let ?m = "committed_txns (fold scan_record log scan_start)"
  have "t \<in> fst ` set ?m \<longleftrightarrow> committed_at t log \<noteq> None" for t
    unfolding scan_committed [symmetric] map_of_eq_None_iff by blast
  then have l: "set ?l = {t. committed_at t log \<noteq> None \<and> logged t log}" by auto
  have "sorted ?l" "distinct ?l"
    using scan_wf [of log] by (simp_all add: sorted_filter [of id, simplified])
  then have "sorted_list_of_set (set ?l) = ?l" by (rule sorted_list_of_set.idem_if_sorted_distinct)
  then show ?thesis unfolding replayed_txns_def l by (rule sym)
qed

subsection \<open>Replaying the transactions\<close>

lemma apply_ops_total:
  "\<forall>op a. fst (f op a) = Inr () \<Longrightarrow> apply_ops f ops a = (None, fold (\<lambda>op a. snd (f op a)) ops a)"
proof (induction ops arbitrary: a)
  case (Cons op ops)
  obtain r a1 where fo: "f op a = (r, a1)" by fastforce
  with Cons.prems have "r = Inr ()" by (metis fst_conv)
  with Cons fo show ?case by simp
qed simp

text \<open>The result record after replaying some transactions.\<close>

definition replayed_result ::
    "(txn_id, u64) hmap \<Rightarrow> txn_id list \<Rightarrow> (txn_id, wal_entry list) hmap \<Rightarrow> recovery_result \<Rightarrow> recovery_result \<Rightarrow> bool" where
  "replayed_result ctxns ts pend res res' \<longleftrightarrow>
     max_seen_committed_txn res' = max_seen_committed_txn res \<and>
     rr_inserted_at_map res' = rr_inserted_at_map res \<and> rr_replay_watermark res' = rr_replay_watermark res \<and>
     (\<forall>t. hm_get (rr_commit_ts_map res') t =
        (if t \<in> set ts \<and> hm_get pend t \<noteq> None then Some (unwrap_or 0 (hm_get ctxns t)) else hm_get (rr_commit_ts_map res) t))"

lemma replayed_result_skip:
  "replayed_result ctxns ts pend res res' \<Longrightarrow> hm_get pend t = None \<Longrightarrow> replayed_result ctxns (t # ts) pend res res'"
  unfolding replayed_result_def by (metis set_ConsD set_subset_Cons subsetD)

lemma replayed_result_add:
  assumes "replayed_result ctxns ts (hm_remove t pend) (res\<lparr>last_committed_txn := l, committed_count := n,
      rr_commit_ts_map := hm_insert t (unwrap_or 0 (hm_get ctxns t)) (rr_commit_ts_map res), committed_puts := ps\<rparr>) res'"
    "hm_get pend t = Some ops"
  shows "replayed_result ctxns (t # ts) pend res res'"
  using assms by (auto simp: replayed_result_def map_laws simp del: map_of_eq_None_iff)

lemma replay_txns_total:
  assumes f: "\<forall>op a. fst (f op a) = Inr ()" and "distinct ts"
  shows "\<exists>res'. replay_txns strict json f ctxns ts pend res a counts s =
      (Inr res', fold (\<lambda>op a. snd (f op a)) (concat (map (\<lambda>t. unwrap_or [] (hm_get pend t)) ts)) a, counts, s) \<and>
    replayed_result ctxns ts pend res res'"
  using assms(2)
proof (induction ts arbitrary: pend res a)
  case (Cons t ts)
  then have d: "distinct ts" "t \<notin> set ts" by simp_all
  show ?case
  proof (cases "hm_get pend t")
    case None
    from Cons.IH [OF d(1), of pend res a] None show ?thesis
      by (auto intro: replayed_result_skip simp del: map_of_eq_None_iff)
  next
    case (Some ops)
    have same: "map (\<lambda>u. unwrap_or [] (hm_get (hm_remove t pend) u)) ts = map (\<lambda>u. unwrap_or [] (hm_get pend u)) ts"
      using d(2) by (auto simp: map_laws)
    let ?a = "fold (\<lambda>op a. snd (f op a)) ops a"
    let ?res = "res\<lparr>last_committed_txn := max (last_committed_txn res) t, committed_count := committed_count res + 1,
        rr_commit_ts_map := hm_insert t (unwrap_or 0 (hm_get ctxns t)) (rr_commit_ts_map res),
        committed_puts := committed_puts res @ map (\<lambda>op. (t, we_record op)) (filter is_put ops)\<rparr>"
    from Cons.IH [OF d(1), of "hm_remove t pend" ?res ?a] obtain res' where
      r: "replay_txns strict json f ctxns ts (hm_remove t pend) ?res ?a counts s =
          (Inr res', fold (\<lambda>op a. snd (f op a)) (concat (map (\<lambda>u. unwrap_or [] (hm_get pend u)) ts)) ?a, counts, s)"
        "replayed_result ctxns ts (hm_remove t pend) ?res res'" unfolding same by blast
    have "replay_txns strict json f ctxns (t # ts) pend res a counts s =
        replay_txns strict json f ctxns ts (hm_remove t pend) ?res ?a counts s"
      using Some by (simp add: Let_def apply_ops_total [OF f])
    with r replayed_result_add [OF r(2) Some] Some show ?thesis by simp
  qed
qed (simp add: replayed_result_def)

lemma replay_txns_outcome:
  assumes "replay_txns strict json f ctxns ts pend res a counts s = (r, a', counts', s')"
  shows "case r of
      Inl err \<Rightarrow> re_txn_id err \<in> set ts \<and>
        ((\<exists>k. re_kind err = FatalReplay (IoSource k) (Io k) \<and> k \<notin> {AlreadyExists, PermissionDenied}) \<or>
         (strict \<and> (\<exists>d. re_kind err = Corruption LocDeserialize (Deserialize d))))
    | Inr res' \<Rightarrow> \<forall>t. hm_get (rr_commit_ts_map res') t \<noteq> hm_get (rr_commit_ts_map res) t \<longrightarrow>
        t \<in> set ts \<and> hm_get pend t \<noteq> None \<and> hm_get (rr_commit_ts_map res') t = Some (unwrap_or 0 (hm_get ctxns t))"
  using assms
proof (induction ts arbitrary: pend res a counts s)
  case (Cons t ts)
  have err: "\<exists>err. o1 = Some err \<and> re_txn_id err = t \<and>
        ((\<exists>k. re_kind err = FatalReplay (IoSource k) (Io k) \<and> k \<notin> {AlreadyExists, PermissionDenied}) \<or>
         (strict \<and> (\<exists>d. re_kind err = Corruption LocDeserialize (Deserialize d))))"
    if "on_apply_error strict json t e counts s = (o1, c1, s1)" "o1 \<noteq> None" for e o1 c1 s1
    using that
    by (auto simp: on_apply_error_def classify_apply_error_def handle_degrade_def degrade_def Let_def
        split: z1error.splits io_kind.splits prod.splits control_flow.splits if_splits)
      (cases strict; simp)+
  have mono: "hm_get (hm_remove t pend) u \<noteq> None \<Longrightarrow> hm_get pend u \<noteq> None" for u
    by (auto simp: map_laws split: if_splits simp del: map_of_eq_None_iff)
  show ?case
  proof (cases "hm_get pend t")
    case None
    with Cons show ?thesis by (fastforce split: sum.splits simp del: map_of_eq_None_iff)
  next
    case (Some ops)
    obtain o1 a1 where ap: "apply_ops f ops a = (o1, a1)" by fastforce
    show ?thesis
    proof (cases o1)
      case None
      from Cons.IH [of "hm_remove t pend"] Cons.prems Some ap None mono show ?thesis
        by (fastforce simp: Let_def map_laws split: sum.splits if_splits simp del: map_of_eq_None_iff)
    next
      case e: (Some e)
      obtain o2 c2 s2 where oe: "on_apply_error strict json t e counts s = (o2, c2, s2)" using prod_cases3 by blast
      show ?thesis
      proof (cases o2)
        case None
        from Cons.IH [of "hm_remove t pend" res a1 c2 s2] Cons.prems Some ap e oe None mono show ?thesis
          by (fastforce simp: Let_def split: sum.splits simp del: map_of_eq_None_iff)
      next
        case err2: (Some x)
        with Cons.prems Some ap e oe have "r = Inl x" by (simp add: Let_def)
        with err [OF oe] err2 show ?thesis by auto
      qed
    qed
  qed
qed auto

subsection \<open>Properties\<close>

text \<open>
  Recovery applies exactly the committed writes. When the log can be read and the callback
  accepts every operation, recovery succeeds, hands to the callback the writes of the
  transactions with a commit record, in ascending order of the transactions and within one
  in log order (writes before a rollback are dropped), and records their commit timestamps;
  a committed transaction of which the log has no other record is not restored.
\<close>

lemma recovery_total:
  assumes log: "replay_all c s = (Inr log, s1)" and f: "\<forall>op a. fst (f op a) = Inr ()"
  shows "\<exists>res. replay_committed_ops c strict json f a counts s =
      (Inr res, fold (\<lambda>op a. snd (f op a)) (concat (map (\<lambda>t. live_ops t log) (replayed_txns log))) a, counts, s1) \<and>
    (\<forall>t. hm_get (rr_commit_ts_map res) t = (if logged t log then committed_at t log else None)) \<and>
    max_seen_committed_txn res = unwrap_or 0 (iter_max (map fst (commits_in log)))"
proof -
  define st where "st = fold scan_record log scan_start"
  let ?ord = "sort (map fst (committed_txns st))"
  have d: "distinct ?ord" using scan_wf [of log] by (simp add: st_def)
  have pend: "hm_get (pending st) t = (if logged t log then Some (live_ops t log) else None)" for t
    unfolding st_def by (rule scan_pending)
  have ops: "concat (map (\<lambda>t. unwrap_or [] (hm_get (pending st) t)) ts) = concat (map (\<lambda>t. live_ops t log) (filter (\<lambda>t. logged t log) ts))" for ts
    by (induction ts) (simp_all add: pend)
  have com: "t \<in> set ?ord \<longleftrightarrow> committed_at t log \<noteq> None" for t
    unfolding st_def scan_committed [symmetric] map_of_eq_None_iff set_sort set_map by blast
  let ?r0 = "\<lparr>last_committed_txn = 0, max_seen_committed_txn = max_seen_committed st, committed_count = 0,
      discarded_count = length (filter (\<lambda>(t, _). \<not> hm_contains (committed_txns st) t \<and> t \<notin> set (rolled_back st)) (pending st)),
      rr_commit_ts_map = [], rr_inserted_at_map = inserted_at_map st, rr_replay_watermark = max_inserted_at st,
      committed_puts = []\<rparr>"
  from replay_txns_total [OF f d] obtain res where
    res: "replay_txns strict json f (committed_txns st) ?ord (pending st) ?r0 a counts s1 =
        (Inr res, fold (\<lambda>op a. snd (f op a)) (concat (map (\<lambda>t. unwrap_or [] (hm_get (pending st) t)) ?ord)) a, counts, s1)"
      and post: "replayed_result (committed_txns st) ?ord (pending st) ?r0 res" by blast
  have "hm_get (committed_txns st) t = committed_at t log" for t unfolding st_def by (rule scan_committed)
  then have map: "hm_get (rr_commit_ts_map res) t = (if logged t log then committed_at t log else None)" for t
    using post com [of t] by (auto simp: replayed_result_def pend)
  have "replay_committed_ops c strict json f a counts s =
      replay_txns strict json f (committed_txns st) ?ord (pending st) ?r0 a counts s1"
    by (simp add: replay_committed_ops_def log Let_def st_def)
  moreover have "filter (\<lambda>t. logged t log) ?ord = replayed_txns log" unfolding st_def by (rule ordered_replayed)
  moreover have "max_seen_committed_txn res = unwrap_or 0 (iter_max (map fst (commits_in log)))"
    using post scan_max [of log] by (simp add: replayed_result_def st_def)
  ultimately show ?thesis using res map unfolding ops by (intro exI [of _ res]) simp
qed

lemma one_segment_replay:
  assumes "codec_ok c" "\<forall>e \<in> set log. encodable c e" "script s = []" "WalDir \<in> set (dirs s)"
    "files s = [(WalSegment 0, \<lparr>fdata = log_bytes c log, fdurable = d\<rparr>)]"
  shows "replay_all c s = (Inr log, s)"
  using replay_segment_log [OF assms(1-3), of True "[]" "[]"] assms
  by (simp add: replay_all_def sys_read_dir_def sys_read_def dir_files_def map_filter_def)

definition sample_log :: "wal_entry list" where
  "sample_log = [\<lparr>we_txn_id = 1, we_record = WalPut 0 [1] (Some [7])\<rparr>,
     \<lparr>we_txn_id = 2, we_record = WalPut 0 [1] (Some [8])\<rparr>, \<lparr>we_txn_id = 1, we_record = WalCommit 1 5\<rparr>]"

definition log_codec :: wal_codec where
  "log_codec = \<lparr>wc_ser = map_of (zip sample_log [[1], [2], [3]]),
     wc_de = map_of (zip [[1], [2], [3]] sample_log), wc_crc = (\<lambda>_. 0)\<rparr>"

definition log_fs :: fs where
  "log_fs = fresh_fs \<lparr>fdata = log_bytes log_codec sample_log, fdurable = []\<rparr>"

lemma sample_log_replay: "replay_all log_codec log_fs = (Inr sample_log, log_fs)"
proof (rule one_segment_replay)
  show "codec_ok log_codec"
    by (auto simp: serde_ok_def log_codec_def sample_log_def split: if_splits)
  show "\<forall>e \<in> set sample_log. encodable log_codec e"
    by (auto simp: encodable_def encode_record_def log_codec_def sample_log_def max_wal_record_len_def)
qed (simp_all add: log_fs_def fresh_fs_def)

lemma sample_log_recovered:
  "fst (snd (replay_committed_ops log_codec True (\<lambda>_ _. []) (\<lambda>op a. (Inr (), a @ [we_record op])) [] [] log_fs)) =
     [WalPut 0 [1] (Some [7])]"
proof -
  let ?f = "\<lambda>op a. (Inr (), a @ [we_record op])"
  have "{t. committed_at t sample_log \<noteq> None \<and> logged t sample_log} = {1}"
    by (auto simp: committed_at_def commits_in_def map_filter_def sample_log_def logged_def live_tail_def is_put_def)
  then have "concat (map (\<lambda>t. live_ops t sample_log) (replayed_txns sample_log)) = [hd sample_log]"
    by (simp add: replayed_txns_def live_ops_def live_tail_def sample_log_def is_put_def)
  then show ?thesis
    using recovery_total [OF sample_log_replay, of ?f True "\<lambda>_ _. []" "[]" "[]"]
    by (auto simp: sample_log_def)
qed

text \<open>
  C35. How recovery can fail. Recovery stops only when the log cannot be read, when the
  callback meets a fatal I/O error, or, in strict mode, when it finds a corrupt record; then
  it names a committed transaction. Otherwise it completes, and it restores a commit
  timestamp only for transactions whose commit record is in the log, with the timestamp of
  that record.
\<close>

theorem recovery_outcomes:
  assumes "replay_all c s = (lr, s1)" and "replay_committed_ops c strict json f a counts s = (r, a', counts', s')"
  shows "case lr of
      Inl e \<Rightarrow> r = Inl \<lparr>re_kind = FatalReplay WalReader e, re_txn_id = 0\<rparr> \<and> a' = a
    | Inr log \<Rightarrow>
        (case r of
           Inl err \<Rightarrow> committed_at (re_txn_id err) log \<noteq> None \<and>
             ((\<exists>k. re_kind err = FatalReplay (IoSource k) (Io k) \<and> k \<notin> {AlreadyExists, PermissionDenied}) \<or>
              (strict \<and> (\<exists>d. re_kind err = Corruption LocDeserialize (Deserialize d))))
         | Inr res \<Rightarrow> \<forall>t ts. hm_get (rr_commit_ts_map res) t = Some ts \<longrightarrow> logged t log \<and> committed_at t log = Some ts)"
proof (cases lr)
  case (Inl e)
  with assms show ?thesis by (simp add: replay_committed_ops_def)
next
  case (Inr log)
  define st where "st = fold scan_record log scan_start"
  have run: "\<exists>r0. rr_commit_ts_map r0 = [] \<and> replay_txns strict json f (committed_txns st) (sort (map fst (committed_txns st)))
      (pending st) r0 a counts s1 = (r, a', counts', s')"
    using assms Inr by (force simp: replay_committed_ops_def Let_def st_def)
  have com: "t \<in> set (sort (map fst (committed_txns st))) \<longleftrightarrow> committed_at t log \<noteq> None" for t
    unfolding st_def scan_committed [symmetric] map_of_eq_None_iff set_sort set_map by blast
  have get: "hm_get (committed_txns st) t = committed_at t log"
      "hm_get (pending st) t = (if logged t log then Some (live_ops t log) else None)" for t
    unfolding st_def by (rule scan_committed, rule scan_pending)
  from run obtain r0 where r0: "rr_commit_ts_map r0 = []" and run: "replay_txns strict json f (committed_txns st)
      (sort (map fst (committed_txns st))) (pending st) r0 a counts s1 = (r, a', counts', s')" by blast
  note out = replay_txns_outcome [OF run, unfolded com get]
  show ?thesis
  proof (cases r)
    case (Inl err)
    with out \<open>lr = Inr log\<close> show ?thesis by simp
  next
    case (Inr res)
    have "logged t log \<and> committed_at t log = Some ts" if "hm_get (rr_commit_ts_map res) t = Some ts" for t ts
    proof -
      have "hm_get (rr_commit_ts_map res) t \<noteq> hm_get (rr_commit_ts_map r0) t" using that r0 by simp
      with out Inr have "committed_at t log \<noteq> None" "logged t log"
          "hm_get (rr_commit_ts_map res) t = Some (unwrap_or 0 (committed_at t log))" by (auto split: if_splits)
      with that show ?thesis by (auto simp del: map_of_eq_Some_iff)
    qed
    with Inr \<open>lr = Inr log\<close> show ?thesis by simp
  qed
qed

theorem recovery_outcomes_witness:
  "fst (replay_committed_ops log_codec True (\<lambda>_ _. []) (\<lambda>op a. (Inl (Deserialize PostcardDecode), a)) () [] log_fs) =
     Inl \<lparr>re_kind = Corruption LocDeserialize (Deserialize PostcardDecode), re_txn_id = 1\<rparr> \<and>
   committed_at 1 sample_log \<noteq> None"
proof -
  let ?f = "\<lambda>op a. (Inl (Deserialize PostcardDecode), a)"
  obtain r a' counts' s' where
    run: "replay_committed_ops log_codec True (\<lambda>_ _. []) ?f () [] log_fs = (r, a', counts', s')"
    by (metis prod_cases4)
  have "r = Inl \<lparr>re_kind = Corruption LocDeserialize (Deserialize PostcardDecode), re_txn_id = 1\<rparr>"
    using run by (simp add: replay_committed_ops_def sample_log_replay Let_def sample_log_def scan_record_def scan_start_def
        hm_insert_def on_apply_error_def classify_apply_error_def handle_degrade_def degrade_def)
  with recovery_outcomes [OF sample_log_replay run] show ?thesis by (simp add: run)
qed

end
