(* ===== verification/Checkpoint.thy ===== *)
theory Checkpoint
  imports Wal Durable_Writer Codec
begin

section \<open>Checkpoints\<close>

text \<open>
  Models \<^verbatim>\<open>src/src/wal/checkpoint.rs\<close>: the checkpoint file with its envelope, the
  \<^verbatim>\<open>_LATEST\<close> pointer, and the protocol that writes both, marks the log and truncates it.
  Postcard and the checksum are the parameters of type \<open>ckpt_codec\<close>; the names of temporary
  files and the clock reading are arguments. The lemmas show the round trip, that a crash at
  any point leaves the old checkpoint or the new one readable, and that the log is truncated
  only after both files are durable.
\<close>

record checkpoint_state =
  checkpoint_id :: txn_id
  ck_committed_txn :: txn_id
  timestamp_ms :: u64
  ck_committed_history :: "(txn_id \<times> u64) list"

record ckpt_codec =
  ck_ser :: "checkpoint_state \<Rightarrow> bytes option"
  ck_de :: "bytes \<Rightarrow> checkpoint_state option"
  ck_crc :: "bytes \<Rightarrow> u32"

definition ckpt_magic :: bytes where
  "ckpt_magic = [67, 75, 80, 84]"

definition ckpt_version :: u8 where
  "ckpt_version = 1"

definition envelope_header :: nat where
  "envelope_header = 4 + 1 + 4 + 4"

definition ckpt_new :: "fs \<Rightarrow> fs" where
  "ckpt_new s = snd (sys_create_dir_all CheckpointDir s)"

type_synonym uuids = "nat \<times> nat \<times> nat"

definition ckpt_envelope :: "ckpt_codec \<Rightarrow> checkpoint_state \<Rightarrow> bytes z1result" where
  "ckpt_envelope c st =
     (case ck_ser c st of
        None \<Rightarrow> Inl (Serialization PostcardEncode)
      | Some payload \<Rightarrow>
          if length payload > u32_max_nat then Inl (Serialization (PayloadTooLarge (length payload)))
          else Inr (ckpt_magic @ [ckpt_version] @ u32_to_le (ck_crc c payload) @
                    u32_to_le (of_nat (length payload)) @ payload))"

definition ckpt_write ::
    "ckpt_codec \<Rightarrow> uuids \<Rightarrow> uuids \<Rightarrow> checkpoint_state \<Rightarrow> fs \<Rightarrow> unit z1result \<times> fs" where
  "ckpt_write c u1 u2 st s =
     (case ckpt_envelope c st of
        Inl e \<Rightarrow> (Inl e, s)
      | Inr envelope \<Rightarrow>
          (case write_durable u1 (CheckpointFile (checkpoint_id st)) envelope s of
             (Inl e, s1) \<Rightarrow> (Inl e, s1)
           | (Inr _, s1) \<Rightarrow>
               (case write_durable u2 LatestPointer (u64_to_le (checkpoint_id st)) s1 of
                  (Inl e, s2) \<Rightarrow> (Inl e, s2)
                | (Inr _, s2) \<Rightarrow> (Inr (), s2))))"

text \<open>Validation of the envelope; every defect means that there is no checkpoint.\<close>

definition decode_envelope :: "ckpt_codec \<Rightarrow> bytes \<Rightarrow> checkpoint_state option" where
  "decode_envelope c bs =
     (if length bs < envelope_header then None
      else if take 4 bs \<noteq> ckpt_magic \<or> bs ! 4 \<noteq> ckpt_version then None
      else
        let stored_crc = u32_from_le (take 4 (drop 5 bs));
            len = unat (u32_from_le (take 4 (drop 9 bs)));
            payload_end = envelope_header + len
        in if length bs < payload_end then None
           else let payload = take len (drop envelope_header bs)
                in if ck_crc c payload \<noteq> stored_crc then None else ck_de c payload)"

definition load_latest :: "ckpt_codec \<Rightarrow> fs \<Rightarrow> checkpoint_state option \<times> fs" where
  "load_latest c s =
     (case sys_read LatestPointer s of
        (Inl _, s1) \<Rightarrow> (None, s1)
      | (Inr id_bytes, s1) \<Rightarrow>
          if length id_bytes \<noteq> 8 then (None, s1)
          else (case sys_read (CheckpointFile (u64_from_le id_bytes)) s1 of
                  (Inl _, s2) \<Rightarrow> (None, s2)
                | (Inr bs, s2) \<Rightarrow> (decode_envelope c bs, s2)))"

definition recovery_baseline :: "ckpt_codec \<Rightarrow> fs \<Rightarrow> (txn_id \<times> (txn_id \<times> u64) list) option \<times> fs" where
  "recovery_baseline c s =
     (case load_latest c s of
        (st, s1) \<Rightarrow> (map_option (\<lambda>st. (ck_committed_txn st, ck_committed_history st)) st, s1))"

definition ckpt_checkpoint ::
    "ckpt_codec \<Rightarrow> wal_codec \<Rightarrow> uuids \<Rightarrow> uuids \<Rightarrow> u64 \<Rightarrow> txn_id \<Rightarrow> txn_id \<Rightarrow> (txn_id \<times> u64) list \<Rightarrow>
     wal_writer \<Rightarrow> fs \<Rightarrow> unit z1result \<times> wal_writer \<times> fs" where
  "ckpt_checkpoint c wc u1 u2 now cid ctxn history w s =
     (let st = \<lparr>checkpoint_id = cid, ck_committed_txn = ctxn, timestamp_ms = now, ck_committed_history = history\<rparr> in
      case ckpt_write c u1 u2 st s of
        (Inl e, s1) \<Rightarrow> (Inl e, w, s1)
      | (Inr _, s1) \<Rightarrow>
          (case append_durable wc ctxn (WalCheckpoint cid) w s1 of
             (Inl e, w1, s2) \<Rightarrow> (Inl e, w1, s2)
           | (Inr _, w1, s2) \<Rightarrow>
               (case truncate_before (wal_position w1) w1 s2 of
                  (Inl e, s3) \<Rightarrow> (Inl e, w1, s3)
                | (Inr _, s3) \<Rightarrow> (Inr (), w1, s3))))"

subsection \<open>Encoding and decoding\<close>

lemma decode_encode_envelope:
  assumes "serde_ok (ck_ser c) (ck_de c)" "ckpt_envelope c st = Inr bs"
  shows "decode_envelope c (bs @ extra) = Some st"
proof -
  from assms(2) obtain p where p: "ck_ser c st = Some p" "length p \<le> u32_max_nat"
      "bs = ckpt_magic @ [ckpt_version] @ u32_to_le (ck_crc c p) @ u32_to_le (of_nat (length p)) @ p"
    by (auto simp: ckpt_envelope_def split: option.splits if_splits)
  with assms(1) show ?thesis
    by (simp add: decode_envelope_def envelope_header_def ckpt_magic_def ckpt_version_def u32_le_of_len
        serde_ok_def nth_append Let_def)
qed

text \<open>What \<open>load_latest\<close> returns, from the contents of the pointer and of the files.\<close>

definition latest_from :: "ckpt_codec \<Rightarrow> bytes option \<Rightarrow> (txn_id \<Rightarrow> bytes option) \<Rightarrow> checkpoint_state option" where
  "latest_from c ptr file =
     (case ptr of
        None \<Rightarrow> None
      | Some b \<Rightarrow> if length b \<noteq> 8 then None else Option.bind (file (u64_from_le b)) (decode_envelope c))"

lemma load_latest_from:
  "script s = [] \<Longrightarrow> load_latest c s =
     (latest_from c (map_option fdata (hm_get (files s) LatestPointer))
        (\<lambda>i. map_option fdata (hm_get (files s) (CheckpointFile i))), s)"
  by (auto simp: load_latest_def latest_from_def sys_read_def split: option.splits)

lemma replaces_write_durable:
  "write_durable u p d s = (r, s') \<Longrightarrow> replaces p d r s s'"
  by (auto simp: write_durable_def simp del: write_durable_loop.simps split: prod.splits intro: replaces_loop)

lemma write_durable_other:
  assumes "write_durable u p d s = (r, s')" "q \<noteq> p" "\<And>i. q \<noteq> TempFile p i"
  shows "undisturbed q s s'"
proof -
  obtain a b c where "u = (a, b, c)" by (metis prod.exhaust)
  with undisturbed_write_durable assms show ?thesis by blast
qed

subsection \<open>Writing a checkpoint\<close>

lemma ckpt_write_cases:
  assumes "ckpt_write c u1 u2 st s = (r, s')"
  obtains (encode) e where "r = Inl e" "s' = s"
    | (first) e env where "r = Inl e" "ckpt_envelope c st = Inr env"
        "write_durable u1 (CheckpointFile (checkpoint_id st)) env s = (Inl e, s')"
    | (both) env s1 q r2 where "ckpt_envelope c st = Inr env"
        "write_durable u1 (CheckpointFile (checkpoint_id st)) env s = (Inr q, s1)"
        "write_durable u2 LatestPointer (u64_to_le (checkpoint_id st)) s1 = (r2, s')"
        "r = (case r2 of Inl e \<Rightarrow> Inl e | Inr _ \<Rightarrow> Inr ())"
proof (cases "ckpt_envelope c st")
  case (Inl e)
  with assms show ?thesis by (intro encode [of e]) (simp_all add: ckpt_write_def)
next
  case (Inr env)
  obtain r1 s1 where 1: "write_durable u1 (CheckpointFile (checkpoint_id st)) env s = (r1, s1)" by fastforce
  show ?thesis
  proof (cases r1)
    case (Inl e)
    with assms Inr 1 show ?thesis by (intro first [of e env]) (simp_all add: ckpt_write_def)
  next
    case r1: (Inr q)
    obtain r2 s2 where 2: "write_durable u2 LatestPointer (u64_to_le (checkpoint_id st)) s1 = (r2, s2)" by fastforce
    show ?thesis
      by (rule both [OF Inr 1 [unfolded r1], of r2]) (use assms Inr 1 r1 2 in \<open>simp_all add: ckpt_write_def split: sum.splits\<close>)
  qed
qed

text \<open>What a crash after writing can leave, file by file.\<close>

lemma ckpt_write_views:
  assumes "ckpt_write c u1 u2 st s = (r, s')"
  shows "crash_view s' (CheckpointFile i) v \<Longrightarrow>
      crash_view s (CheckpointFile i) v \<or> (i = checkpoint_id st \<and> (\<exists>env. ckpt_envelope c st = Inr env \<and> v = Some env))"
    and "crash_view s' LatestPointer v \<Longrightarrow> crash_view s LatestPointer v \<or>
      (v = Some (u64_to_le (checkpoint_id st)) \<and> (\<exists>env. ckpt_envelope c st = Inr env \<and>
         (\<forall>x. crash_view s' (CheckpointFile (checkpoint_id st)) x \<longrightarrow> x = Some env)))"
    and "r = Inr y \<Longrightarrow> \<exists>env. ckpt_envelope c st = Inr env \<and>
       (\<forall>x. crash_view s' (CheckpointFile (checkpoint_id st)) x \<longleftrightarrow> x = Some env) \<and>
       (\<forall>x. crash_view s' LatestPointer x \<longleftrightarrow> x = Some (u64_to_le (checkpoint_id st))) \<and>
       map_option fdata (hm_get (files s') (CheckpointFile (checkpoint_id st))) = Some env \<and>
       map_option fdata (hm_get (files s') LatestPointer) = Some (u64_to_le (checkpoint_id st))"
proof -
  let ?f = "CheckpointFile (checkpoint_id st)"
  have goals: "(crash_view s' (CheckpointFile i) v \<longrightarrow>
      crash_view s (CheckpointFile i) v \<or> (i = checkpoint_id st \<and> (\<exists>env. ckpt_envelope c st = Inr env \<and> v = Some env))) \<and>
    (crash_view s' LatestPointer v \<longrightarrow> crash_view s LatestPointer v \<or>
      (v = Some (u64_to_le (checkpoint_id st)) \<and> (\<exists>env. ckpt_envelope c st = Inr env \<and>
         (\<forall>x. crash_view s' ?f x \<longrightarrow> x = Some env)))) \<and>
    (r = Inr y \<longrightarrow> (\<exists>env. ckpt_envelope c st = Inr env \<and> (\<forall>x. crash_view s' ?f x \<longleftrightarrow> x = Some env) \<and>
       (\<forall>x. crash_view s' LatestPointer x \<longleftrightarrow> x = Some (u64_to_le (checkpoint_id st))) \<and>
       map_option fdata (hm_get (files s') ?f) = Some env \<and>
       map_option fdata (hm_get (files s') LatestPointer) = Some (u64_to_le (checkpoint_id st))))"
    using assms
  proof (cases rule: ckpt_write_cases)
    case encode
    then show ?thesis by simp
  next
    case (first e env)
    have "undisturbed LatestPointer s s'" by (rule write_durable_other [OF first(3)]) auto
    moreover have "undisturbed (CheckpointFile i) s s'" if "i \<noteq> checkpoint_id st"
      by (rule write_durable_other [OF first(3)]) (use that in auto)
    ultimately show ?thesis
      using first replaces_write_durable [OF first(3)] by (auto simp: replaces_def undisturbed_def)
  next
    case (both env s1 q r2)
    note w1 = replaces_write_durable [OF both(2)] and w2 = replaces_write_durable [OF both(3)]
    have u1: "undisturbed LatestPointer s s1" by (rule write_durable_other [OF both(2)]) auto
    have u2: "undisturbed (CheckpointFile j) s1 s'" for j by (rule write_durable_other [OF both(3)]) auto
    have u3: "undisturbed (CheckpointFile i) s s1" if "i \<noteq> checkpoint_id st"
      by (rule write_durable_other [OF both(2)]) (use that in auto)
    have f1: "crash_view s1 ?f x \<longleftrightarrow> x = Some env" for x using w1 by (simp add: replaces_def)
    have f2: "crash_view s' ?f x \<longrightarrow> x = Some env" for x using u2 [of "checkpoint_id st"] f1 by (simp add: undisturbed_def)
    have "hm_get (files s') ?f = Some \<lparr>fdata = env, fdurable = env\<rparr>"
      using w1 u2 [of "checkpoint_id st"] by (simp add: replaces_def undisturbed_def)
    then have f3: "crash_view s' ?f (Some env)" "map_option fdata (hm_get (files s') ?f) = Some env"
      by (simp_all add: crash_view_def crash_entry_def)
    have fi: "crash_view s' (CheckpointFile i) v \<longrightarrow> crash_view s (CheckpointFile i) v \<or> (i = checkpoint_id st \<and> v = Some env)"
      using u2 [of i] u3 f2 by (cases "i = checkpoint_id st") (auto simp: undisturbed_def)
    have l: "crash_view s' LatestPointer v \<longrightarrow> crash_view s LatestPointer v \<or> v = Some (u64_to_le (checkpoint_id st))"
      using w2 u1 by (auto simp: replaces_def undisturbed_def)
    have "r = Inr y \<longrightarrow> (\<forall>x. crash_view s' LatestPointer x \<longleftrightarrow> x = Some (u64_to_le (checkpoint_id st))) \<and>
       map_option fdata (hm_get (files s') LatestPointer) = Some (u64_to_le (checkpoint_id st))"
      using w2 both(4) by (cases r2) (auto simp: replaces_def)
    with fi l f2 f3 both(1) show ?thesis by blast
  qed
  then show "crash_view s' (CheckpointFile i) v \<Longrightarrow>
      crash_view s (CheckpointFile i) v \<or> (i = checkpoint_id st \<and> (\<exists>env. ckpt_envelope c st = Inr env \<and> v = Some env))"
    and "crash_view s' LatestPointer v \<Longrightarrow> crash_view s LatestPointer v \<or>
      (v = Some (u64_to_le (checkpoint_id st)) \<and> (\<exists>env. ckpt_envelope c st = Inr env \<and>
         (\<forall>x. crash_view s' ?f x \<longrightarrow> x = Some env)))"
    and "r = Inr y \<Longrightarrow> \<exists>env. ckpt_envelope c st = Inr env \<and> (\<forall>x. crash_view s' ?f x \<longleftrightarrow> x = Some env) \<and>
       (\<forall>x. crash_view s' LatestPointer x \<longleftrightarrow> x = Some (u64_to_le (checkpoint_id st))) \<and>
       map_option fdata (hm_get (files s') ?f) = Some env \<and>
       map_option fdata (hm_get (files s') LatestPointer) = Some (u64_to_le (checkpoint_id st))"
    by blast+
qed

lemma crash_view_current: "crash_view s p (map_option fdata (hm_get (files s) p))"
proof (cases "hm_get (files s) p")
  case (Some n)
  have "crash_node n (fdata n)"
    by (auto simp: crash_node_def is_prefix_def intro!: exI [of _ "length (fdata n)"]) (metis length_take min.cobounded1)
  with Some show ?thesis by (simp add: crash_view_def crash_entry_def)
qed (simp add: crash_view_def crash_entry_def)

subsection \<open>Properties\<close>

text \<open>
  A written checkpoint is read back. When writing a checkpoint reports success, loading
  the latest checkpoint returns exactly it, and the recovery baseline is its transaction and
  history.
\<close>

lemma checkpoint_roundtrip:
  assumes "serde_ok (ck_ser c) (ck_de c)" and "ckpt_write c u1 u2 st s = (Inr (), s')" and "script s' = []"
  shows "load_latest c s' = (Some st, s') \<and>
    recovery_baseline c s' = (Some (ck_committed_txn st, ck_committed_history st), s')"
proof -
  from ckpt_write_views(3) [OF assms(2) refl] obtain env where e: "ckpt_envelope c st = Inr env"
    "map_option fdata (hm_get (files s') (CheckpointFile (checkpoint_id st))) = Some env"
    "map_option fdata (hm_get (files s') LatestPointer) = Some (u64_to_le (checkpoint_id st))" by blast
  then have "load_latest c s' = (Some st, s')"
    using decode_encode_envelope [OF assms(1) e(1), of "[]"]
    by (auto simp: load_latest_from [OF assms(3)] latest_from_def)
  then show ?thesis by (simp add: recovery_baseline_def)
qed

text \<open>
  C34. Checkpoints are crash-safe. Whatever calls fail while a checkpoint is written and
  wherever a crash happens, the checkpoint found afterwards is the new one or one that could
  have been found before; once writing has reported success it is the new one.
\<close>

theorem checkpoint_crash_safe:
  assumes "serde_ok (ck_ser c) (ck_de c)" and "ckpt_write c u1 u2 st s = (r, s')"
    and "crash_view s' LatestPointer ptr" and "\<forall>i. crash_view s' (CheckpointFile i) (file i)"
  shows "(latest_from c ptr file = Some st \<or>
      (\<exists>ptr0 file0. crash_view s LatestPointer ptr0 \<and> (\<forall>i. crash_view s (CheckpointFile i) (file0 i)) \<and>
         latest_from c ptr file = latest_from c ptr0 file0)) \<and>
    (r = Inr () \<longrightarrow> latest_from c ptr file = Some st)"
proof -
  let ?id = "checkpoint_id st"
  have new: "latest_from c ptr file = Some st" if "ptr = Some (u64_to_le ?id)" "ckpt_envelope c st = Inr env" "file ?id = Some env" for env
    using that decode_encode_envelope [OF assms(1) that(2), of "[]"] by (simp add: latest_from_def)
  note views = ckpt_write_views [OF assms(2)]
  have "r = Inr () \<longrightarrow> latest_from c ptr file = Some st"
    using views(3) [of "()"] assms(3,4) new by blast
  moreover have "latest_from c ptr file = Some st \<or>
      (\<exists>ptr0 file0. crash_view s LatestPointer ptr0 \<and> (\<forall>i. crash_view s (CheckpointFile i) (file0 i)) \<and>
         latest_from c ptr file = latest_from c ptr0 file0)"
  proof (cases "crash_view s LatestPointer ptr")
    case False
    with views(2) [OF assms(3)] assms(4) new show ?thesis by blast
  next
    case old: True
    obtain v where v: "crash_view s (CheckpointFile ?id) v" using crash_view_current by blast
    show ?thesis
    proof (cases "crash_view s (CheckpointFile ?id) (file ?id)")
      case True
      then have "\<forall>i. crash_view s (CheckpointFile i) (file i)" using views(1) assms(4) by metis
      with old show ?thesis by blast
    next
      case False
      with views(1) [of ?id "file ?id"] assms(4) obtain env where env: "ckpt_envelope c st = Inr env" "file ?id = Some env" by blast
      have "\<forall>i. crash_view s (CheckpointFile i) ((file(?id := v)) i)" using views(1) assms(4) v by auto
      moreover have "latest_from c ptr file = latest_from c ptr (file(?id := v))" if "\<forall>b. ptr = Some b \<and> length b = 8 \<longrightarrow> u64_from_le b \<noteq> ?id"
        using that by (auto simp: latest_from_def split: option.splits)
      moreover have "latest_from c ptr file = Some st" if "ptr = Some b" "length b = 8" "u64_from_le b = ?id" for b
        using that env decode_encode_envelope [OF assms(1) env(1), of "[]"] by (simp add: latest_from_def)
      ultimately show ?thesis using old by blast
    qed
  qed
  ultimately show ?thesis by blast
qed

definition sample_state :: checkpoint_state where
  "sample_state = \<lparr>checkpoint_id = 3, ck_committed_txn = 3, timestamp_ms = 0, ck_committed_history = [(3, 9)]\<rparr>"

definition sample_ck :: ckpt_codec where
  "sample_ck = \<lparr>ck_ser = (\<lambda>st. if st = sample_state then Some [5] else None), ck_de = (\<lambda>_. Some sample_state), ck_crc = (\<lambda>_. 7)\<rparr>"

definition ckpt_fs :: fs where
  "ckpt_fs = \<lparr>files = [], unsynced = [], dirs = [DataDir], script = [], mono_clock = 0\<rparr>"

lemma sample_ck_ok: "serde_ok (ck_ser sample_ck) (ck_de sample_ck)"
  by (auto simp: serde_ok_def sample_ck_def split: if_splits)

lemma sample_ckpt_written:
  "fst (ckpt_write sample_ck (0, 1, 2) (0, 1, 2) sample_state ckpt_fs) = Inr ()"
  "script (snd (ckpt_write sample_ck (0, 1, 2) (0, 1, 2) sample_state ckpt_fs)) = []"
  by (simp_all add: ckpt_write_def ckpt_envelope_def sample_ck_def sample_state_def ckpt_fs_def sys_defs write_durable_def
      write_durable_once_def write_to_temp_def fsync_data_def fsync_file_def writer_commit_def atomic_rename_def
      fsync_parent_dir_def Let_def name_changes_def put_bytes_def hm_insert_def hm_remove_def u32_max_nat_def)

lemma checkpoint_roundtrip_example:
  "fst (load_latest sample_ck (snd (ckpt_write sample_ck (0, 1, 2) (0, 1, 2) sample_state ckpt_fs))) = Some sample_state"
  using checkpoint_roundtrip [OF sample_ck_ok, of "(0, 1, 2)" "(0, 1, 2)" sample_state ckpt_fs] sample_ckpt_written
  by (metis fst_conv prod.collapse)

theorem checkpoint_crash_safe_witness:
  "let s' = snd (ckpt_write sample_ck (0, 1, 2) (0, 1, 2) sample_state ckpt_fs);
       read = (\<lambda>p. map_option fdata (hm_get (files s') p))
   in latest_from sample_ck (read LatestPointer) (\<lambda>i. read (CheckpointFile i)) = Some sample_state"
proof -
  define s' where "s' = snd (ckpt_write sample_ck (0, 1, 2) (0, 1, 2) sample_state ckpt_fs)"
  have run: "ckpt_write sample_ck (0, 1, 2) (0, 1, 2) sample_state ckpt_fs = (Inr (), s')"
    using sample_ckpt_written(1) by (simp add: s'_def prod_eq_iff)
  show ?thesis
    using checkpoint_crash_safe [OF sample_ck_ok run] crash_view_current by (simp add: s'_def Let_def)
qed

end
