(* ===== verification/Protocol.thy ===== *)
theory Protocol
  imports Errors
begin

section \<open>The commit protocol\<close>

text \<open>
  Models \<^verbatim>\<open>src/src/txn/protocol.rs\<close>: the side effects of a commit as a list of pending
  operations, and the loop that hands them to an applier, stopping at the first failure. The
  trait \<^verbatim>\<open>CommitApplier\<close> is a record of functions on the state of its implementor.
\<close>

datatype pending_op =
    MvccCommit u64
  | PutCommittedTxn u64
  | CommitTxnRecord u64 u64
  | SnapshotInvalidate

record commit_protocol =
  cp_txn_id :: txn_id
  pending_ops :: "pending_op list"

record 'a commit_applier =
  apply_mvcc_commit :: "txn_id \<Rightarrow> u64 \<Rightarrow> 'a \<Rightarrow> unit z1result \<times> 'a"
  apply_put_committed_txn :: "u64 \<Rightarrow> 'a \<Rightarrow> unit z1result \<times> 'a"
  apply_commit_txn_record :: "u64 \<Rightarrow> u64 \<Rightarrow> 'a \<Rightarrow> unit z1result \<times> 'a"
  apply_snapshot_invalidate :: "'a \<Rightarrow> unit z1result \<times> 'a"

definition protocol_new :: "txn_id \<Rightarrow> commit_protocol" where
  "protocol_new t = \<lparr>cp_txn_id = t, pending_ops = []\<rparr>"

definition protocol_validate :: "commit_protocol \<Rightarrow> unit z1result" where
  "protocol_validate p = (if pending_ops p = [] then Inl (Internal EmptyProtocol) else Inr ())"

definition apply_op :: "'a commit_applier \<Rightarrow> txn_id \<Rightarrow> pending_op \<Rightarrow> 'a \<Rightarrow> unit z1result \<times> 'a" where
  "apply_op applier t op =
     (case op of
        MvccCommit inserted_at \<Rightarrow> apply_mvcc_commit applier t inserted_at
      | PutCommittedTxn counter \<Rightarrow> apply_put_committed_txn applier counter
      | CommitTxnRecord t' commit_ts \<Rightarrow> apply_commit_txn_record applier t' commit_ts
      | SnapshotInvalidate \<Rightarrow> apply_snapshot_invalidate applier)"

fun apply_pending :: "'a commit_applier \<Rightarrow> txn_id \<Rightarrow> pending_op list \<Rightarrow> 'a \<Rightarrow> unit z1result \<times> 'a" where
  "apply_pending applier t [] a = (Inr (), a)"
| "apply_pending applier t (op # ops) a =
     (case apply_op applier t op a of
        (Inl e, a1) \<Rightarrow> (Inl e, a1)
      | (Inr _, a1) \<Rightarrow> apply_pending applier t ops a1)"

definition apply_all :: "'a commit_applier \<Rightarrow> commit_protocol \<Rightarrow> 'a \<Rightarrow> unit z1result \<times> 'a" where
  "apply_all applier p a =
     (case protocol_validate p of
        Inl e \<Rightarrow> (Inl e, a)
      | Inr _ \<Rightarrow> apply_pending applier (cp_txn_id p) (pending_ops p) a)"

text \<open>Every operation before the first failing one is applied, in order, and none after it.\<close>

lemma apply_pending_append:
  "apply_pending applier t (xs @ ys) a =
     (case apply_pending applier t xs a of
        (Inl e, a1) \<Rightarrow> (Inl e, a1)
      | (Inr _, a1) \<Rightarrow> apply_pending applier t ys a1)"
  by (induction applier t xs a rule: apply_pending.induct) (auto split: prod.splits sum.splits)

lemma apply_pending_stops:
  assumes "apply_pending applier t ops a = (Inl e, a')"
  shows "\<exists>xs op ys a1. ops = xs @ op # ys \<and> apply_pending applier t xs a = (Inr (), a1) \<and>
    apply_op applier t op a1 = (Inl e, a')"
  using assms
proof (induction ops arbitrary: a)
  case (Cons op ops)
  obtain r a1 where op: "apply_op applier t op a = (r, a1)" by fastforce
  show ?case
  proof (cases r)
    case (Inl e1)
    with Cons.prems op show ?thesis by (intro exI [of _ "[]"] exI [of _ op] exI [of _ ops]) simp
  next
    case (Inr x)
    with Cons op obtain xs op' ys a2 where "ops = xs @ op' # ys" "apply_pending applier t xs a1 = (Inr (), a2)"
      "apply_op applier t op' a2 = (Inl e, a')" by (auto split: sum.splits) blast
    with op Inr show ?thesis by (intro exI [of _ "op # xs"] exI [of _ op'] exI [of _ ys] exI [of _ a2]) simp
  qed
qed simp

end
