(* ===== verification/Config.thy ===== *)
theory Config
  imports Prelude
begin

section \<open>Configuration\<close>

text \<open>
  Models \<^verbatim>\<open>src/src/config.rs\<close>: the two configuration structs as records, their defaults
  and the builder methods.
\<close>

record visibility_config =
  max_history_entries :: nat
  history_ttl_secs :: u64

record z1_config =
  visibility :: visibility_config
  strict_mode :: bool
  checkpoint_wal_size_threshold :: u64
  l2_compaction_threshold :: nat

definition default_visibility_config :: visibility_config where
  "default_visibility_config = \<lparr>max_history_entries = 100000, history_ttl_secs = 3600\<rparr>"

definition default_z1_config :: z1_config where
  "default_z1_config =
     \<lparr>visibility = default_visibility_config, strict_mode = True,
      checkpoint_wal_size_threshold = 64 * 1024 * 1024, l2_compaction_threshold = 64\<rparr>"

definition with_strict_mode :: "bool \<Rightarrow> z1_config \<Rightarrow> z1_config" where
  "with_strict_mode strict c = c\<lparr>strict_mode := strict\<rparr>"

definition with_checkpoint_wal_size_threshold :: "u64 \<Rightarrow> z1_config \<Rightarrow> z1_config" where
  "with_checkpoint_wal_size_threshold b c = c\<lparr>checkpoint_wal_size_threshold := b\<rparr>"

definition with_l2_compaction_threshold :: "nat \<Rightarrow> z1_config \<Rightarrow> z1_config" where
  "with_l2_compaction_threshold n c = c\<lparr>l2_compaction_threshold := n\<rparr>"

definition with_visibility :: "visibility_config \<Rightarrow> z1_config \<Rightarrow> z1_config" where
  "with_visibility v c = c\<lparr>visibility := v\<rparr>"

definition with_max_history_entries :: "nat \<Rightarrow> visibility_config \<Rightarrow> visibility_config" where
  "with_max_history_entries n v = v\<lparr>max_history_entries := n\<rparr>"

definition with_history_ttl_secs :: "u64 \<Rightarrow> visibility_config \<Rightarrow> visibility_config" where
  "with_history_ttl_secs s v = v\<lparr>history_ttl_secs := s\<rparr>"

lemmas config_defs = default_visibility_config_def default_z1_config_def with_strict_mode_def
  with_checkpoint_wal_size_threshold_def with_l2_compaction_threshold_def with_visibility_def
  with_max_history_entries_def with_history_ttl_secs_def

end
