(* ===== verification/Visibility.thy ===== *)
theory Visibility
  imports Types Config "HOL-Library.Multiset"
begin

section \<open>The MVCC visibility manager\<close>

text \<open>
  Models \<^verbatim>\<open>src/src/mvcc/visibility.rs\<close>: the transaction table, the committed history
  with its two eviction strategies, snapshot construction, the two implementations of
  \<^verbatim>\<open>VisFilter\<close> and the conflict detection of \<^verbatim>\<open>commit_txn\<close> with its key index. A
  method of \<^verbatim>\<open>&mut self\<close> takes the manager and returns its result with the new
  manager. The wall clock is read at fixed points of the code; each reading is an argument.
\<close>

datatype txn_status = Active | Committed | Aborted

record txn_meta =
  begin_ts :: u64
  meta_commit_ts :: "u64 option"
  status :: txn_status
  read_keys :: "bytes list"
  written_keys :: "bytes list"

definition txn_meta_new :: "u64 \<Rightarrow> txn_meta" where
  "txn_meta_new ts = \<lparr>begin_ts = ts, meta_commit_ts = None, status = Active,
     read_keys = [], written_keys = []\<rparr>"

definition meta_record_read :: "bytes \<Rightarrow> txn_meta \<Rightarrow> txn_meta" where
  "meta_record_read k m = m\<lparr>read_keys := List.insert k (read_keys m)\<rparr>"

definition meta_record_write :: "bytes \<Rightarrow> txn_meta \<Rightarrow> txn_meta" where
  "meta_record_write k m = m\<lparr>written_keys := List.insert k (written_keys m)\<rparr>"

definition meta_commit :: "u64 \<Rightarrow> txn_meta \<Rightarrow> txn_meta" where
  "meta_commit ts m = m\<lparr>status := Committed, meta_commit_ts := Some ts\<rparr>"

datatype isolation_level = ReadCommitted | RepeatableRead | SnapshotLevel

record txn_snapshot =
  snapshot_id :: txn_id
  snap_active_txns :: "txn_id set"
  isolation :: isolation_level
  commit_ts_map :: "(txn_id, u64) hmap"

definition txn_snapshot_new :: "txn_id \<Rightarrow> txn_id set \<Rightarrow> isolation_level \<Rightarrow> txn_snapshot" where
  "txn_snapshot_new sid active level =
     \<lparr>snapshot_id = sid, snap_active_txns = active, isolation = level, commit_ts_map = []\<rparr>"

record visibility_manager =
  committed_txn :: u64
  replay_watermark :: u64
  active_txns :: "(txn_id, txn_meta) hmap"
  committed_history :: "(txn_id, u64 \<times> u64) hmap"
  committed_ts_shadow :: "(txn_id, u64) hmap"
  commit_seq :: u64
  last_ttl_check_seq :: u64
  last_ttl_check_ms :: u64
  vis_config :: visibility_config

definition new_with_config :: "visibility_config \<Rightarrow> visibility_manager" where
  "new_with_config cfg =
     \<lparr>committed_txn = 0, replay_watermark = 0, active_txns = [], committed_history = [],
      committed_ts_shadow = [], commit_seq = 0, last_ttl_check_seq = 0, last_ttl_check_ms = 0,
      vis_config = cfg\<rparr>"

definition set_committed_txn :: "txn_id \<Rightarrow> visibility_manager \<Rightarrow> visibility_manager" where
  "set_committed_txn t m = m\<lparr>committed_txn := t\<rparr>"

definition set_replay_watermark :: "u64 \<Rightarrow> visibility_manager \<Rightarrow> visibility_manager" where
  "set_replay_watermark w m = m\<lparr>replay_watermark := w\<rparr>"

subsection \<open>Beginning a transaction and snapshots\<close>

definition mgr_begin_txn :: "txn_id \<Rightarrow> visibility_manager \<Rightarrow> unit z1result \<times> visibility_manager" where
  "mgr_begin_txn t m =
     (if hm_contains (active_txns m) t then (Inl (MvccConflict (AlreadyActive t)), m)
      else if t \<le> committed_txn m then (Inl (MvccConflict (AlreadyCommitted t)), m)
      else (Inr (), m\<lparr>active_txns := hm_insert t (txn_meta_new t) (active_txns m)\<rparr>))"

definition snapshot_with_commit_ts_map :: "isolation_level \<Rightarrow> visibility_manager \<Rightarrow> txn_snapshot" where
  "snapshot_with_commit_ts_map level m =
     (let active_ids = fst ` set (active_txns m);
          max_commit_ts = unwrap_or 0 (iter_max (map (\<lambda>(_, ts, _). ts) (committed_history m)));
          sid = max (committed_txn m) max_commit_ts;
          ctm = map (\<lambda>(k, ts, _). (k, ts)) (filter (\<lambda>(_, ts, _). ts \<le> sid) (committed_history m))
      in (txn_snapshot_new sid active_ids level)\<lparr>commit_ts_map := ctm\<rparr>)"

definition mgr_snapshot :: "isolation_level \<Rightarrow> visibility_manager \<Rightarrow> txn_snapshot" where
  "mgr_snapshot level m = snapshot_with_commit_ts_map level m"

definition begin_txn_with_snapshot ::
    "txn_id \<Rightarrow> isolation_level \<Rightarrow> visibility_manager \<Rightarrow> txn_snapshot z1result \<times> visibility_manager" where
  "begin_txn_with_snapshot t level m =
     (case mgr_begin_txn t m of
        (Inl e, m') \<Rightarrow> (Inl e, m')
      | (Inr _, m') \<Rightarrow> (Inr (snapshot_with_commit_ts_map level m'), m'))"

definition snapshot_at :: "txn_id \<Rightarrow> isolation_level \<Rightarrow> visibility_manager \<Rightarrow> txn_snapshot" where
  "snapshot_at t level m =
     \<lparr>snapshot_id = t,
      snap_active_txns = fst ` set (filter (\<lambda>(_, meta). begin_ts meta \<le> t) (active_txns m)),
      isolation = level,
      commit_ts_map =
        map (\<lambda>(k, ts, _). (k, ts)) (filter (\<lambda>(_, ts, _). ts \<le> t) (committed_history m))\<rparr>"

subsection \<open>Read and write sets\<close>

definition record_read :: "txn_id \<Rightarrow> bytes \<Rightarrow> visibility_manager \<Rightarrow> visibility_manager" where
  "record_read t k m =
     (case hm_get (active_txns m) t of
        Some meta \<Rightarrow> m\<lparr>active_txns := hm_insert t (meta_record_read k meta) (active_txns m)\<rparr>
      | None \<Rightarrow> m)"

definition record_write :: "txn_id \<Rightarrow> bytes \<Rightarrow> visibility_manager \<Rightarrow> visibility_manager" where
  "record_write t k m =
     (case hm_get (active_txns m) t of
        Some meta \<Rightarrow> m\<lparr>active_txns := hm_insert t (meta_record_write k meta) (active_txns m)\<rparr>
      | None \<Rightarrow> m)"

subsection \<open>Conflict detection with a key index\<close>

definition index_push :: "txn_id \<Rightarrow> bytes \<Rightarrow> (bytes, txn_id list) hmap \<Rightarrow> (bytes, txn_id list) hmap" where
  "index_push other k idx = hm_insert k (unwrap_or [] (hm_get idx k) @ [other]) idx"

fun key_index ::
    "(txn_meta \<Rightarrow> bytes list) \<Rightarrow> txn_id \<Rightarrow> (txn_id, txn_meta) hmap \<Rightarrow> (bytes, txn_id list) hmap \<Rightarrow>
     (bytes, txn_id list) hmap" where
  "key_index keys t [] idx = idx"
| "key_index keys t ((other, meta) # rest) idx =
     key_index keys t rest
       (if other = t then idx else fold (index_push other) (keys meta) idx)"

fun first_holder :: "(bytes, txn_id list) hmap \<Rightarrow> bytes \<Rightarrow> txn_id option" where
  "first_holder idx k = (case hm_get idx k of Some (w # _) \<Rightarrow> Some w | _ \<Rightarrow> None)"

fun rw_conflict_loop :: "(bytes, txn_id list) hmap \<Rightarrow> bytes list \<Rightarrow> txn_id option" where
  "rw_conflict_loop writers [] = None"
| "rw_conflict_loop writers (k # ks) =
     (case first_holder writers k of Some w \<Rightarrow> Some w | None \<Rightarrow> rw_conflict_loop writers ks)"

fun ww_conflict_loop ::
    "(bytes, txn_id list) hmap \<Rightarrow> (bytes, txn_id list) hmap \<Rightarrow> bytes list \<Rightarrow> txn_id option" where
  "ww_conflict_loop readers writers [] = None"
| "ww_conflict_loop readers writers (k # ks) =
     (case first_holder readers k of
        Some r \<Rightarrow> Some r
      | None \<Rightarrow> (case first_holder writers k of
                  Some w \<Rightarrow> Some w
                | None \<Rightarrow> ww_conflict_loop readers writers ks))"

text \<open>The conflicting transaction and the two flags of the error message.\<close>

definition detect_conflict ::
    "txn_id \<Rightarrow> txn_meta \<Rightarrow> (txn_id, txn_meta) hmap \<Rightarrow> (txn_id \<times> bool \<times> bool) option" where
  "detect_conflict t meta active =
     (let key_writers = key_index written_keys t active [];
          key_readers = key_index read_keys t active []
      in case rw_conflict_loop key_writers (read_keys meta) of
           Some w \<Rightarrow> Some (w, True, False)
         | None \<Rightarrow> (case ww_conflict_loop key_readers key_writers (written_keys meta) of
                      Some w \<Rightarrow> Some (w, False, True)
                    | None \<Rightarrow> None))"

subsection \<open>History eviction\<close>

definition prune_by_count :: "visibility_manager \<Rightarrow> visibility_manager" where
  "prune_by_count m =
     (if length (committed_history m) > max_history_entries (vis_config m) then
        let items = sort_key fst (map (\<lambda>(k, _, inserted_at). (inserted_at, k)) (committed_history m));
            keep_count = max_history_entries (vis_config m) * 4 div 5;
            evict_count = length items - keep_count;
            hist = fold (\<lambda>item. hm_remove (snd item)) (take evict_count items) (committed_history m)
        in m\<lparr>committed_history := hist,
             committed_ts_shadow := filter (\<lambda>p. hm_contains hist (fst p)) (committed_ts_shadow m)\<rparr>
      else m)"

definition ttl_cutoff :: "u64 \<Rightarrow> visibility_manager \<Rightarrow> u64" where
  "ttl_cutoff now_ms m =
     max (saturating_sub now_ms (history_ttl_secs (vis_config m) * 1000)) (replay_watermark m)"

definition ttl_due :: "u64 \<Rightarrow> visibility_manager \<Rightarrow> bool" where
  "ttl_due now_ms m \<longleftrightarrow>
     commit_seq m - last_ttl_check_seq m \<ge> 256 \<or> saturating_sub now_ms (last_ttl_check_ms m) \<ge> 1000"

definition prune_by_ttl :: "u64 \<Rightarrow> visibility_manager \<Rightarrow> visibility_manager" where
  "prune_by_ttl now_ms m =
     (if ttl_due now_ms m then
        let hist = filter (\<lambda>(_, _, inserted_at). inserted_at \<ge> ttl_cutoff now_ms m) (committed_history m)
        in m\<lparr>last_ttl_check_seq := commit_seq m, last_ttl_check_ms := now_ms,
             committed_history := hist,
             committed_ts_shadow := filter (\<lambda>p. hm_contains hist (fst p)) (committed_ts_shadow m)\<rparr>
      else m)"

definition prune_history :: "u64 \<Rightarrow> visibility_manager \<Rightarrow> visibility_manager" where
  "prune_history now_ms m = prune_by_ttl now_ms (prune_by_count m)"

subsection \<open>Commit, abort, recovery\<close>

definition abort_txn :: "txn_id \<Rightarrow> visibility_manager \<Rightarrow> visibility_manager" where
  "abort_txn t m = m\<lparr>active_txns := hm_remove t (active_txns m)\<rparr>"

definition mgr_rollback_txn :: "txn_id \<Rightarrow> visibility_manager \<Rightarrow> visibility_manager" where
  "mgr_rollback_txn t m = abort_txn t m"

text \<open>The state after the conflict check passed, before pruning.\<close>

definition commit_record :: "txn_id \<Rightarrow> u64 \<Rightarrow> u64 \<Rightarrow> visibility_manager \<Rightarrow> visibility_manager" where
  "commit_record t inserted_at ts m =
     (let active' = (case hm_get (active_txns m) t of
                       Some meta \<Rightarrow> hm_insert t (meta_commit ts meta) (active_txns m)
                     | None \<Rightarrow> active_txns m)
      in m\<lparr>committed_txn := (if t > committed_txn m then t else committed_txn m),
           active_txns := active',
           committed_history := hm_insert t (ts, inserted_at) (committed_history m),
           commit_seq := commit_seq m + 1,
           committed_ts_shadow := hm_insert t ts (committed_ts_shadow m)\<rparr>)"

definition commit_txn ::
    "txn_id \<Rightarrow> u64 \<Rightarrow> u64 \<Rightarrow> u64 \<Rightarrow> visibility_manager \<Rightarrow> txn_snapshot z1result \<times> visibility_manager" where
  "commit_txn t inserted_at ts now_ms m =
     (case hm_get (active_txns m) t of
        None \<Rightarrow> (Inl (MvccConflict (NotActive t)), m)
      | Some meta \<Rightarrow>
          (case detect_conflict t meta (active_txns m) of
             Some (other, rw, ww) \<Rightarrow> (Inl (MvccConflict (SsiConflict t other rw ww)), abort_txn t m)
           | None \<Rightarrow>
               let m1 = prune_history now_ms (commit_record t inserted_at ts m);
                   m2 = m1\<lparr>active_txns := hm_remove t (active_txns m1)\<rparr>
               in (Inr (mgr_snapshot SnapshotLevel m2), m2)))"

definition recover_committed_history_with_config ::
    "(txn_id \<times> u64) list \<Rightarrow> visibility_config option \<Rightarrow> (txn_id, u64) hmap \<Rightarrow> u64 \<Rightarrow>
     visibility_manager \<Rightarrow> visibility_manager" where
  "recover_committed_history_with_config history config_override wal_inserted_at now m =
     (let m0 = (case config_override of Some cfg \<Rightarrow> m\<lparr>vis_config := cfg\<rparr> | None \<Rightarrow> m)
      in m0\<lparr>committed_history :=
              fold (\<lambda>p. hm_insert (fst p) (snd p, unwrap_or now (hm_get wal_inserted_at (fst p)))) history [],
            committed_txn := fold (\<lambda>p c. if fst p > c then fst p else c) history (committed_txn m0)\<rparr>)"

subsection \<open>Accessors\<close>

definition oldest_active_begin_ts :: "visibility_manager \<Rightarrow> txn_id" where
  "oldest_active_begin_ts m = unwrap_or u64_max (iter_min (map (begin_ts \<circ> snd) (active_txns m)))"

definition committed_entry :: "txn_id \<Rightarrow> visibility_manager \<Rightarrow> (u64 \<times> u64) option" where
  "committed_entry t m = hm_get (committed_history m) t"

definition get_begin_ts :: "txn_id \<Rightarrow> visibility_manager \<Rightarrow> u64 option" where
  "get_begin_ts t m = map_option begin_ts (hm_get (active_txns m) t)"

definition get_commit_ts :: "txn_id \<Rightarrow> visibility_manager \<Rightarrow> u64 option" where
  "get_commit_ts t m = map_option fst (hm_get (committed_history m) t)"

definition committed_history_entries :: "visibility_manager \<Rightarrow> (txn_id \<times> u64) list" where
  "committed_history_entries m =
     sort_key fst (map (\<lambda>(k, ts, _). (k, ts)) (committed_history m))"

subsection \<open>The visibility rules\<close>

text \<open>The implementation for \<^verbatim>\<open>TxnSnapshot\<close>, with its early returns.\<close>

definition is_row_visible_snapshot ::
    "txn_id \<Rightarrow> txn_id \<Rightarrow> txn_id option \<Rightarrow> txn_id set \<Rightarrow> (txn_id, u64) hmap \<Rightarrow> bool" where
  "is_row_visible_snapshot sid created deleted active ctm =
     (if created > sid then False
      else if created \<in> active then False
      else if \<not> hm_contains ctm created then False
      else if (case hm_get ctm created of Some commit_ts \<Rightarrow> commit_ts > sid | None \<Rightarrow> False) then False
      else case deleted of
             None \<Rightarrow> True
           | Some del \<Rightarrow>
               if del \<in> active then True
               else (case hm_get ctm del of
                       Some del_commit_ts \<Rightarrow> \<not> del_commit_ts \<le> sid
                     | None \<Rightarrow> True))"

text \<open>The implementation for \<^verbatim>\<open>VisibilityManager\<close>.\<close>

definition is_row_visible_manager ::
    "txn_id \<Rightarrow> txn_id \<Rightarrow> txn_id option \<Rightarrow> txn_id set \<Rightarrow> (txn_id, u64) hmap \<Rightarrow> bool" where
  "is_row_visible_manager sid created deleted active ctm =
     (if created > sid then False
      else if created \<in> active then False
      else case hm_get ctm created of
        None \<Rightarrow> False
      | Some commit_ts \<Rightarrow>
          if commit_ts > sid then False
          else case deleted of
                 None \<Rightarrow> True
               | Some del \<Rightarrow>
                   if del \<in> active then True
                   else (case hm_get ctm del of
                           Some del_commit_ts \<Rightarrow> \<not> del_commit_ts \<le> sid
                         | None \<Rightarrow> True))"

definition is_visible :: "txn_snapshot \<Rightarrow> txn_id \<Rightarrow> txn_id option \<Rightarrow> bool" where
  "is_visible snap created deleted =
     is_row_visible_manager (snapshot_id snap) created deleted (snap_active_txns snap) (commit_ts_map snap)"

subsection \<open>The rules agree\<close>

lemma is_row_visible_manager_iff:
  "is_row_visible_manager sid c d active ctm \<longleftrightarrow>
     c \<le> sid \<and> c \<notin> active \<and> (\<exists>ts. map_of ctm c = Some ts \<and> ts \<le> sid) \<and>
     (\<forall>del. d = Some del \<longrightarrow> del \<in> active \<or> (\<forall>ts. map_of ctm del = Some ts \<longrightarrow> sid < ts))"
  by (auto simp: is_row_visible_manager_def not_less not_le split: option.splits)

lemma is_row_visible_snapshot_iff:
  "is_row_visible_snapshot sid c d active ctm = is_row_visible_manager sid c d active ctm"
proof -
  have "hm_contains ctm c \<longleftrightarrow> map_of ctm c \<noteq> None"
    by (simp add: map_of_eq_None_iff)
  then show ?thesis
    by (simp add: is_row_visible_snapshot_def is_row_visible_manager_def split: option.splits)
qed

text \<open>
  One visibility rule. The two implementations of the visibility filter (for a snapshot
  and for the manager) agree on every input, and the filter the storage layers apply to an
  entry is the same rule without a deleting transaction.
\<close>

lemma visibility_filters_agree:
  "is_row_visible_snapshot sid c d active ctm = is_row_visible_manager sid c d active ctm \<and>
   is_visible_at_commit e sid ctm active = is_row_visible_manager sid (e_txn_id e) None active ctm"
  by (simp add: is_row_visible_snapshot_iff is_visible_iff is_row_visible_manager_iff)

subsection \<open>The key index finds exactly the conflicts of the double loop\<close>

definition keys_clash :: "txn_meta \<Rightarrow> txn_meta \<Rightarrow> bool" where
  "keys_clash mine theirs \<longleftrightarrow>
     set (read_keys mine) \<inter> set (written_keys theirs) \<noteq> {} \<or>
     set (written_keys mine) \<inter> (set (read_keys theirs) \<union> set (written_keys theirs)) \<noteq> {}"

definition ssi_conflict :: "txn_id \<Rightarrow> txn_meta \<Rightarrow> (txn_id, txn_meta) hmap \<Rightarrow> bool" where
  "ssi_conflict t meta active \<longleftrightarrow>
     (\<exists>(other, om) \<in> set active. other \<noteq> t \<and> keys_clash meta om)"

abbreviation holders :: "(bytes, txn_id list) hmap \<Rightarrow> bytes \<Rightarrow> txn_id list" where
  "holders idx k \<equiv> unwrap_or [] (map_of idx k)"

lemma first_holder_None: "first_holder idx k = None \<longleftrightarrow> holders idx k = []"
  by (auto split: option.splits list.splits)

lemma first_holder_Some: "first_holder idx k = Some w \<Longrightarrow> w \<in> set (holders idx k)"
  by (auto split: option.splits list.splits)

declare first_holder.simps [simp del]

lemma holders_index_push:
  "holders (index_push other k idx) k' = (if k' = k then holders idx k @ [other] else holders idx k')"
  by (simp add: index_push_def map_laws)

lemma set_holders_push_all:
  "set (holders (fold (index_push other) ks idx) k) =
     set (holders idx k) \<union> (if k \<in> set ks then {other} else {})"
  by (induction ks arbitrary: idx) (auto simp: holders_index_push)

lemma set_holders_key_index:
  "set (holders (key_index keys t active idx) k) =
     set (holders idx k) \<union> {o1. \<exists>meta. (o1, meta) \<in> set active \<and> o1 \<noteq> t \<and> k \<in> set (keys meta)}"
proof (induction keys t active idx rule: key_index.induct)
  case (1 keys t idx)
  then show ?case by simp
next
  case (2 keys t other meta rest idx)
  then show ?case by (auto simp: set_holders_push_all)
qed

lemma rw_conflict_loop_None:
  "rw_conflict_loop w ks = None \<longleftrightarrow> (\<forall>k \<in> set ks. holders w k = [])"
  by (induction ks) (auto simp: first_holder_None dest: first_holder_Some split: option.splits)

lemma ww_conflict_loop_None:
  "ww_conflict_loop r w ks = None \<longleftrightarrow> (\<forall>k \<in> set ks. holders r k = [] \<and> holders w k = [])"
  by (induction ks) (auto simp: first_holder_None dest: first_holder_Some split: option.splits)

lemma rw_conflict_loop_Some:
  "rw_conflict_loop w ks = Some c \<Longrightarrow> \<exists>k \<in> set ks. c \<in> set (holders w k)"
  by (induction ks) (auto dest: first_holder_Some split: option.splits)

lemma ww_conflict_loop_Some:
  "ww_conflict_loop r w ks = Some c \<Longrightarrow> \<exists>k \<in> set ks. c \<in> set (holders r k) \<union> set (holders w k)"
  by (induction ks) (auto dest: first_holder_Some split: option.splits)

lemma holders_key_index_Nil:
  "holders (key_index keys t active []) k = [] \<longleftrightarrow>
     (\<forall>o1 meta. (o1, meta) \<in> set active \<longrightarrow> o1 \<noteq> t \<longrightarrow> k \<notin> set (keys meta))"
  using set_holders_key_index [of keys t active "[]" k] by (auto simp flip: set_empty)

lemma detect_conflict_loops:
  "detect_conflict t meta active = None \<longleftrightarrow>
     rw_conflict_loop (key_index written_keys t active []) (read_keys meta) = None \<and>
     ww_conflict_loop (key_index read_keys t active []) (key_index written_keys t active [])
       (written_keys meta) = None"
  by (simp add: detect_conflict_def Let_def split: option.splits)

lemma detect_conflict_None:
  "detect_conflict t meta active = None \<longleftrightarrow> \<not> ssi_conflict t meta active"
  unfolding detect_conflict_loops rw_conflict_loop_None ww_conflict_loop_None
    holders_key_index_Nil ssi_conflict_def keys_clash_def
  by blast

lemma detect_conflict_Some:
  assumes "detect_conflict t meta active = Some (c, rw, ww)"
  shows "\<exists>om. (c, om) \<in> set active \<and> c \<noteq> t \<and> keys_clash meta om"
proof -
  let ?W = "key_index written_keys t active []" and ?R = "key_index read_keys t active []"
  consider "rw_conflict_loop ?W (read_keys meta) = Some c"
    | "ww_conflict_loop ?R ?W (written_keys meta) = Some c"
    using assms by (auto simp: detect_conflict_def Let_def split: option.splits)
  then show ?thesis
  proof cases
    case 1
    then obtain k where "k \<in> set (read_keys meta)" "c \<in> set (holders ?W k)"
      by (auto dest: rw_conflict_loop_Some)
    then show ?thesis by (auto simp: set_holders_key_index keys_clash_def)
  next
    case 2
    then obtain k where "k \<in> set (written_keys meta)" "c \<in> set (holders ?R k) \<union> set (holders ?W k)"
      by (auto dest: ww_conflict_loop_Some)
    then show ?thesis by (auto simp: set_holders_key_index keys_clash_def)
  qed
qed

subsection \<open>Eviction\<close>

lemma fold_hm_remove:
  "fold (\<lambda>i. hm_remove (f i)) xs m = filter (\<lambda>p. fst p \<notin> f ` set xs) m"
  by (induction xs arbitrary: m) (auto simp: hm_remove_def intro: filter_cong)

lemma length_filter_keys:
  assumes "hm_wf m" "A \<subseteq> fst ` set m"
  shows "length (filter (\<lambda>p. fst p \<notin> A) m) = length m - card A"
proof -
  have "distinct (map fst (filter (\<lambda>p. fst p \<in> A) m))"
    using assms(1) by (rule hm_wf_filter)
  then have "length (filter (\<lambda>p. fst p \<in> A) m) = card (set (map fst (filter (\<lambda>p. fst p \<in> A) m)))"
    by (metis distinct_card length_map)
  also have "set (map fst (filter (\<lambda>p. fst p \<in> A) m)) = A"
    using assms(2) by auto
  finally show ?thesis
    using sum_length_filter_compl [of "\<lambda>p. fst p \<in> A" m] by simp
qed

text \<open>The keys the count strategy evicts: the oldest by insertion time.\<close>

definition eviction_order :: "(txn_id, u64 \<times> u64) hmap \<Rightarrow> (u64 \<times> txn_id) list" where
  "eviction_order hist = sort_key fst (map (\<lambda>(k, _, inserted_at). (inserted_at, k)) hist)"

lemma set_eviction_order: "set (eviction_order hist) = (\<lambda>(k, _, ins). (ins, k)) ` set hist"
  by (simp add: eviction_order_def)

lemma keys_eviction_order: "snd ` set (eviction_order hist) = fst ` set hist"
  by (force simp: set_eviction_order)

lemma length_eviction_order [simp]: "length (eviction_order hist) = length hist"
  by (simp add: eviction_order_def)

lemma distinct_eviction_keys:
  assumes "hm_wf hist"
  shows "distinct (map snd (eviction_order hist))"
proof -
  have "mset (map snd (eviction_order hist)) = mset (map fst hist)"
    by (simp add: eviction_order_def case_prod_beta image_mset.compositionality comp_def)
  with assms show ?thesis by (metis mset_eq_imp_distinct_iff)
qed

lemma committed_history_prune_by_count:
  "committed_history (prune_by_count m) =
     (if length (committed_history m) > max_history_entries (vis_config m) then
        filter (\<lambda>p. fst p \<notin> snd ` set (take (length (committed_history m)
            - max_history_entries (vis_config m) * 4 div 5) (eviction_order (committed_history m))))
          (committed_history m)
      else committed_history m)"
  by (simp add: prune_by_count_def Let_def fold_hm_remove eviction_order_def)

lemma length_prune_by_count:
  assumes "hm_wf (committed_history m)"
  shows "length (committed_history (prune_by_count m)) =
     (if length (committed_history m) > max_history_entries (vis_config m)
      then max_history_entries (vis_config m) * 4 div 5 else length (committed_history m))"
proof (cases "length (committed_history m) > max_history_entries (vis_config m)")
  case True
  let ?h = "committed_history m" and ?k = "max_history_entries (vis_config m) * 4 div 5"
  let ?xs = "take (length ?h - ?k) (eviction_order ?h)"
  have sub: "snd ` set ?xs \<subseteq> fst ` set ?h"
    unfolding keys_eviction_order [symmetric] by (intro image_mono set_take_subset)
  have "distinct (map snd ?xs)"
    using distinct_eviction_keys [OF assms] by (simp add: take_map [symmetric])
  then have "card (snd ` set ?xs) = length ?xs"
    by (metis distinct_card length_map set_map)
  moreover have "?k \<le> length ?h" using True by linarith
  ultimately show ?thesis
    using True length_filter_keys [OF assms sub] by (simp add: committed_history_prune_by_count)
next
  case False
  then show ?thesis by (simp add: committed_history_prune_by_count)
qed

lemma prune_frame [simp]:
  "active_txns (prune_history now m) = active_txns m"
  "committed_txn (prune_history now m) = committed_txn m"
  "vis_config (prune_history now m) = vis_config m"
  "replay_watermark (prune_history now m) = replay_watermark m"
  "active_txns (prune_by_count m) = active_txns m"
  "committed_txn (prune_by_count m) = committed_txn m"
  "vis_config (prune_by_count m) = vis_config m"
  "replay_watermark (prune_by_count m) = replay_watermark m"
  "commit_seq (prune_by_count m) = commit_seq m"
  "last_ttl_check_seq (prune_by_count m) = last_ttl_check_seq m"
  "last_ttl_check_ms (prune_by_count m) = last_ttl_check_ms m"
  by (simp_all add: prune_history_def prune_by_ttl_def prune_by_count_def Let_def)

lemma ttl_due_prune_by_count [simp]: "ttl_due now (prune_by_count m) = ttl_due now m"
  by (simp add: ttl_due_def)

lemma ttl_cutoff_prune_by_count [simp]: "ttl_cutoff now (prune_by_count m) = ttl_cutoff now m"
  by (simp add: ttl_cutoff_def)

lemma committed_history_prune:
  "committed_history (prune_history now m) =
     (if ttl_due now m
      then filter (\<lambda>(_, _, inserted_at). inserted_at \<ge> ttl_cutoff now m) (committed_history (prune_by_count m))
      else committed_history (prune_by_count m))"
  by (simp add: prune_history_def prune_by_ttl_def Let_def)

lemma prune_history_filter:
  obtains P where "committed_history (prune_history now m) = filter P (committed_history m)"
proof -
  have "\<exists>Q. committed_history (prune_by_count m) = filter Q (committed_history m)"
    unfolding committed_history_prune_by_count by (metis filter_True)
  then obtain Q where Q: "committed_history (prune_by_count m) = filter Q (committed_history m)" ..
  then show ?thesis
    by (intro that [of "\<lambda>p. Q p \<and> (ttl_due now m \<longrightarrow> (case p of (_, _, i) \<Rightarrow> i \<ge> ttl_cutoff now m))"])
       (auto simp: committed_history_prune conj_commute intro!: filter_cong)
qed

text \<open>
  C22. The history is bounded. After pruning, the committed history has at most the
  configured number of entries, and the count strategy evicts oldest first: an entry that
  stays was not inserted before one that went.
\<close>

theorem prune_history_bounded:
  assumes "hm_wf (committed_history m)"
  shows "length (committed_history (prune_history now m)) \<le> max_history_entries (vis_config m) \<and>
    (\<forall>k ts ins k' ts' ins'. (k, ts, ins) \<in> set (committed_history m) - set (committed_history (prune_by_count m)) \<longrightarrow>
       (k', ts', ins') \<in> set (committed_history (prune_by_count m)) \<longrightarrow> ins \<le> ins')"
proof (intro conjI allI impI)
  have "length (committed_history (prune_history now m)) \<le> length (committed_history (prune_by_count m))"
    by (simp add: committed_history_prune)
  also have "\<dots> \<le> max_history_entries (vis_config m)"
    unfolding length_prune_by_count [OF assms] by auto
  finally show "length (committed_history (prune_history now m)) \<le> max_history_entries (vis_config m)" .
next
  fix k ts ins k' ts' ins'
  let ?h = "committed_history m"
  let ?n = "length ?h - max_history_entries (vis_config m) * 4 div 5"
  assume e: "(k, ts, ins) \<in> set ?h - set (committed_history (prune_by_count m))"
    and r: "(k', ts', ins') \<in> set (committed_history (prune_by_count m))"
  have out: "k \<in> snd ` set (take ?n (eviction_order ?h))"
    and stay: "k' \<notin> snd ` set (take ?n (eviction_order ?h))" and r': "(k', ts', ins') \<in> set ?h"
    using e r by (auto simp: committed_history_prune_by_count split: if_splits)
  then obtain ins0 where "(ins0, k) \<in> set (take ?n (eviction_order ?h))" by auto
  moreover from this have "(ins0, k) \<in> set (eviction_order ?h)" by (rule in_set_takeD)
  then have "ins0 = ins"
    using e assms by (auto simp: set_eviction_order dest: eq_key_imp_eq_value)
  moreover have "(ins', k') \<in> set (eviction_order ?h)"
    using r' by (force simp: set_eviction_order)
  with stay have "(ins', k') \<in> set (drop ?n (eviction_order ?h))"
    by (metis append_take_drop_id in_set_conv_decomp Un_iff set_append image_eqI snd_conv)
  moreover have "sorted (map fst (take ?n (eviction_order ?h)) @ map fst (drop ?n (eviction_order ?h)))"
    by (simp add: eviction_order_def flip: map_append)
  ultimately show "ins \<le> ins'" by (fastforce simp: sorted_append)
qed

theorem prune_history_bounded_witness:
  "length (committed_history (prune_history 0
     ((new_with_config \<lparr>max_history_entries = 1, history_ttl_secs = 1\<rparr>)
       \<lparr>committed_history := [(1, 5, 5), (2, 6, 6)]\<rparr>))) \<le> 1"
  using prune_history_bounded [of "(new_with_config \<lparr>max_history_entries = 1, history_ttl_secs = 1\<rparr>)
       \<lparr>committed_history := [(1, 5, 5), (2, 6, 6)]\<rparr>" 0]
  by (simp add: new_with_config_def)

text \<open>
  C24. The replay watermark evicts. Once a time check is due, no history entry inserted
  before the replay watermark survives pruning, whatever the time-to-live: the watermark is
  an upper bound on what is evicted, not a protection of recovered entries.
\<close>

theorem prune_evicts_below_watermark:
  assumes "ttl_due now m" and "(t, ts, ins) \<in> set (committed_history (prune_history now m))"
  shows "replay_watermark m \<le> ins"
  using assms by (auto simp: committed_history_prune ttl_cutoff_def)

theorem prune_evicts_below_watermark_witness:
  "let m = (new_with_config default_visibility_config)
       \<lparr>replay_watermark := 7, committed_history := [(1, 1, 6), (2, 2, 9)]\<rparr> in
   ttl_due 5000 m \<and> committed_history (prune_history 5000 m) = [(2, 2, 9)] \<and> replay_watermark m \<le> 9"
  using prune_evicts_below_watermark [of 5000 "(new_with_config default_visibility_config)
       \<lparr>replay_watermark := 7, committed_history := [(1, 1, 6), (2, 2, 9)]\<rparr>" 2 2 9]
  by (simp add: committed_history_prune committed_history_prune_by_count new_with_config_def
      default_visibility_config_def ttl_due_def ttl_cutoff_def saturating_sub_def)

subsection \<open>The manager's invariant\<close>

definition vis_wf :: "visibility_manager \<Rightarrow> bool" where
  "vis_wf m \<longleftrightarrow>
     hm_wf (active_txns m) \<and> hm_wf (committed_history m) \<and>
     (\<forall>t \<in> fst ` set (committed_history m). t \<le> committed_txn m) \<and>
     fst ` set (active_txns m) \<inter> fst ` set (committed_history m) = {} \<and>
     (\<forall>(t, meta) \<in> set (active_txns m). begin_ts meta = t)"

definition shadow_ok :: "visibility_manager \<Rightarrow> bool" where
  "shadow_ok m \<longleftrightarrow>
     map_of (committed_ts_shadow m) = map_option fst \<circ> map_of (committed_history m)"

text \<open>One step of the manager, and the managers that occur: what opening the engine builds,
  followed by any sequence of operations.\<close>

inductive vis_step :: "visibility_manager \<Rightarrow> visibility_manager \<Rightarrow> bool" where
  begun: "mgr_begin_txn t m = (r, m') \<Longrightarrow> vis_step m m'"
| read_key: "vis_step m (record_read t k m)"
| write_key: "vis_step m (record_write t k m)"
| committed: "commit_txn t ins ts now m = (r, m') \<Longrightarrow> vis_step m m'"
| rolled_back: "vis_step m (mgr_rollback_txn t m)"

inductive vis_reachable :: "visibility_manager \<Rightarrow> bool" where
  opened: "vis_reachable (set_replay_watermark w (recover_committed_history_with_config h None ins now
     (set_committed_txn c (new_with_config cfg))))"
| stepped: "vis_reachable m \<Longrightarrow> vis_step m m' \<Longrightarrow> vis_reachable m'"

inductive_cases vis_stepE: "vis_step m m'"

lemma set_hm_remove: "set (hm_remove k m) = {p \<in> set m. fst p \<noteq> k}"
  by (simp add: hm_remove_def)

lemma keys_hm_insert: "fst ` set (hm_insert k v m) = insert k (fst ` set m)"
  by (simp add: hm_insert_def AList.dom_update)

lemma vis_wf_abort: "vis_wf m \<Longrightarrow> vis_wf (abort_txn t m)"
  by (auto simp: vis_wf_def abort_txn_def set_hm_remove map_laws)

lemma vis_wf_begin:
  assumes "vis_wf m" "mgr_begin_txn t m = (r, m')"
  shows "vis_wf m'"
proof (cases "hm_contains (active_txns m) t \<or> t \<le> committed_txn m")
  case True
  with assms show ?thesis by (auto simp: mgr_begin_txn_def split: if_splits)
next
  case False
  then have m': "m' = m\<lparr>active_txns := hm_insert t (txn_meta_new t) (active_txns m)\<rparr>"
    using assms(2) by (simp add: mgr_begin_txn_def)
  have "t \<notin> fst ` set (committed_history m)"
    using False assms(1) by (auto simp: vis_wf_def)
  with False assms(1) show ?thesis
    by (auto simp: m' vis_wf_def map_laws keys_hm_insert hm.set_insert txn_meta_new_def)
qed

lemma vis_wf_update_meta:
  assumes "vis_wf m" "hm_get (active_txns m) t = Some meta" "begin_ts meta' = begin_ts meta"
  shows "vis_wf (m\<lparr>active_txns := hm_insert t meta' (active_txns m)\<rparr>)"
proof -
  have "(t, meta) \<in> set (active_txns m)" using assms(2) by (rule map_of_SomeD)
  with assms(1,3) show ?thesis
    by (auto simp: vis_wf_def map_laws keys_hm_insert hm.set_insert) force
qed

lemma vis_wf_record_read: "vis_wf m \<Longrightarrow> vis_wf (record_read t k m)"
  by (auto simp: record_read_def meta_record_read_def intro!: vis_wf_update_meta split: option.splits)

lemma vis_wf_record_write: "vis_wf m \<Longrightarrow> vis_wf (record_write t k m)"
  by (auto simp: record_write_def meta_record_write_def intro!: vis_wf_update_meta split: option.splits)

definition commit_state :: "txn_id \<Rightarrow> u64 \<Rightarrow> u64 \<Rightarrow> u64 \<Rightarrow> visibility_manager \<Rightarrow> visibility_manager" where
  "commit_state t ins ts now m =
     (let m1 = prune_history now (commit_record t ins ts m)
      in m1\<lparr>active_txns := hm_remove t (active_txns m1)\<rparr>)"

lemma commit_txn_cases:
  "commit_txn t ins ts now m =
     (case hm_get (active_txns m) t of
        None \<Rightarrow> (Inl (MvccConflict (NotActive t)), m)
      | Some meta \<Rightarrow>
          (case detect_conflict t meta (active_txns m) of
             Some (other, rw, ww) \<Rightarrow> (Inl (MvccConflict (SsiConflict t other rw ww)), abort_txn t m)
           | None \<Rightarrow> (Inr (mgr_snapshot SnapshotLevel (commit_state t ins ts now m)),
                      commit_state t ins ts now m)))"
  by (simp add: commit_txn_def commit_state_def Let_def split: option.splits)

lemma hm_remove_insert: "hm_remove t (hm_insert t v m) = hm_remove t m"
  unfolding hm_remove_def hm_insert_def by (induction m) auto

lemma active_commit_state [simp]:
  "active_txns (commit_state t ins ts now m) = hm_remove t (active_txns m)"
  by (simp add: commit_state_def commit_record_def Let_def hm_remove_insert split: option.splits)

lemma committed_txn_commit_state [simp]:
  "committed_txn (commit_state t ins ts now m) = max t (committed_txn m)"
  by (auto simp: commit_state_def commit_record_def Let_def max_def)

lemma history_commit_record [simp]:
  "committed_history (commit_record t ins ts m) = hm_insert t (ts, ins) (committed_history m)"
  by (simp add: commit_record_def Let_def)

lemma history_commit_state:
  "committed_history (commit_state t ins ts now m) =
     committed_history (prune_history now (commit_record t ins ts m))"
  by (simp add: commit_state_def Let_def)

lemma vis_wf_commit_state: "vis_wf m \<Longrightarrow> vis_wf (commit_state t ins ts now m)"
proof -
  assume wf: "vis_wf m"
  obtain P where P: "committed_history (commit_state t ins ts now m) =
      filter P (hm_insert t (ts, ins) (committed_history m))"
    using prune_history_filter [of now "commit_record t ins ts m"]
    by (metis history_commit_state history_commit_record)
  have hwf: "hm_wf (filter P (hm_insert t (ts, ins) (committed_history m)))"
    using wf by (simp add: vis_wf_def map_laws)
  have K: "a = t \<or> a \<in> fst ` set (committed_history m)"
    if "a \<in> fst ` set (filter P (hm_insert t (ts, ins) (committed_history m)))" for a
    using that keys_hm_insert [of t "(ts, ins)" "committed_history m"] by auto
  show ?thesis
    unfolding vis_wf_def P active_commit_state committed_txn_commit_state
  proof (intro conjI)
    show "\<forall>a \<in> fst ` set (filter P (hm_insert t (ts, ins) (committed_history m))).
        a \<le> max t (committed_txn m)"
    proof
      fix a
      assume "a \<in> fst ` set (filter P (hm_insert t (ts, ins) (committed_history m)))"
      then have "a = t \<or> a \<in> fst ` set (committed_history m)" by (rule K)
      with wf show "a \<le> max t (committed_txn m)" by (auto simp: vis_wf_def le_max_iff_disj)
    qed
    show "fst ` set (hm_remove t (active_txns m)) \<inter>
        fst ` set (filter P (hm_insert t (ts, ins) (committed_history m))) = {}"
    proof -
      have "a \<noteq> t \<and> a \<in> fst ` set (active_txns m)" if "a \<in> fst ` set (hm_remove t (active_txns m))" for a
        using that by (auto simp: set_hm_remove)
      moreover have "fst ` set (active_txns m) \<inter> fst ` set (committed_history m) = {}"
        using wf by (simp add: vis_wf_def)
      ultimately show ?thesis using K by blast
    qed
  qed (use wf hwf in \<open>auto simp: vis_wf_def set_hm_remove map_laws\<close>)
qed

lemma vis_wf_commit: "vis_wf m \<Longrightarrow> commit_txn t ins ts now m = (r, m') \<Longrightarrow> vis_wf m'"
  by (auto simp: commit_txn_cases vis_wf_abort vis_wf_commit_state split: option.splits)

lemma vis_wf_step: "vis_step m m' \<Longrightarrow> vis_wf m \<Longrightarrow> vis_wf m'"
  by (induction rule: vis_step.induct)
    (auto intro: vis_wf_begin vis_wf_record_read vis_wf_record_write vis_wf_commit vis_wf_abort
      simp: mgr_rollback_txn_def)

lemma fold_max_ge: "c \<le> fold (\<lambda>p c. if fst p > c then fst p else c) h (c :: u64) \<and>
    (\<forall>p \<in> set h. fst p \<le> fold (\<lambda>p c. if fst p > c then fst p else c) h c)"
proof (induction h arbitrary: c)
  case Nil
  then show ?case by simp
next
  case (Cons p h)
  from Cons [of "if fst p > c then fst p else c"] show ?case
    by (auto split: if_splits)
qed

lemma keys_insert_all: "fst ` set (fold (\<lambda>x. hm_insert (f x) (g x)) xs m) = f ` set xs \<union> fst ` set m"
  by (induction xs arbitrary: m) (auto simp: keys_hm_insert)

lemma vis_wf_recovered:
  "vis_wf (set_replay_watermark w (recover_committed_history_with_config h None ins now
     (set_committed_txn c (new_with_config cfg))))"
  using fold_max_ge [of c h]
  by (auto simp: vis_wf_def set_replay_watermark_def recover_committed_history_with_config_def
      set_committed_txn_def new_with_config_def keys_insert_all intro: hm.invar_insert_all)

text \<open>
  C20. The manager's invariant. In every state reachable from an opened engine by begins,
  reads, writes, commits and rollbacks, the transaction table and the history have distinct
  keys and share none, every committed id is at most the highest committed one, and every
  active transaction is registered under its begin timestamp.
\<close>

theorem vis_reachable_wf:
  assumes "vis_reachable m"
  shows "vis_wf m"
  using assms
proof (induction rule: vis_reachable.induct)
  case (opened w h ins now c cfg)
  show ?case by (rule vis_wf_recovered)
next
  case (stepped m m')
  then show ?case by (blast intro: vis_wf_step)
qed

theorem vis_reachable_wf_witness:
  "vis_wf (snd (mgr_begin_txn 4 (set_replay_watermark 9 (recover_committed_history_with_config
      [(3, 3)] None [(3, 9)] 10 (set_committed_txn 3 (new_with_config default_visibility_config))))))"
  by (rule vis_reachable_wf, rule vis_reachable.stepped [OF vis_reachable.opened], rule vis_step.begun)
     (simp add: prod_eq_iff)

subsection \<open>Snapshots see exactly the committed history\<close>

lemma snapshot_fields [simp]:
  "snap_active_txns (mgr_snapshot level m) = fst ` set (active_txns m)"
  "isolation (mgr_snapshot level m) = level"
  by (simp_all add: mgr_snapshot_def snapshot_with_commit_ts_map_def Let_def txn_snapshot_new_def)

lemma snapshot_id_ge:
  "committed_txn m \<le> snapshot_id (mgr_snapshot level m)"
  "(t, ts, ins) \<in> set (committed_history m) \<Longrightarrow> ts \<le> snapshot_id (mgr_snapshot level m)"
proof -
  let ?tss = "map (\<lambda>(_, ts, _). ts) (committed_history m)"
  have sid: "snapshot_id (mgr_snapshot level m) = max (committed_txn m) (unwrap_or 0 (iter_max ?tss))"
    by (simp add: mgr_snapshot_def snapshot_with_commit_ts_map_def Let_def txn_snapshot_new_def)
  then show "committed_txn m \<le> snapshot_id (mgr_snapshot level m)" by simp
  show "ts \<le> snapshot_id (mgr_snapshot level m)" if "(t, ts, ins) \<in> set (committed_history m)"
  proof -
    have "ts \<in> set ?tss" using that by force
    then show ?thesis unfolding sid by (simp add: le_max_iff_disj le_unwrap_iter_max)
  qed
qed

lemma commit_ts_map_snapshot:
  "commit_ts_map (mgr_snapshot level m) = map (\<lambda>(k, ts, _). (k, ts)) (committed_history m)"
proof -
  have "filter (\<lambda>(_, ts, _). ts \<le> snapshot_id (mgr_snapshot level m)) (committed_history m)
      = committed_history m"
    by (rule filter_True) (auto intro: snapshot_id_ge)
  then show ?thesis
    by (simp add: mgr_snapshot_def snapshot_with_commit_ts_map_def Let_def txn_snapshot_new_def)
qed

lemma map_of_project: "map_of (map (\<lambda>(k, ts, _). (k, ts)) h) t = map_option fst (map_of h t)"
  by (induction h) auto

lemma visible_in_snapshot:
  assumes "vis_wf m"
  shows "is_visible (mgr_snapshot level m) t None \<longleftrightarrow> hm_contains (committed_history m) t"
proof
  assume "is_visible (mgr_snapshot level m) t None"
  then show "hm_contains (committed_history m) t"
    by (auto simp: is_visible_def is_row_visible_manager_iff commit_ts_map_snapshot map_of_project
        simp flip: dom_map_of_conv_image_fst)
next
  assume "hm_contains (committed_history m) t"
  then obtain ts ins where e: "(t, ts, ins) \<in> set (committed_history m)" by auto
  have "t \<le> committed_txn m" and "t \<notin> fst ` set (active_txns m)"
    using assms e by (force simp: vis_wf_def)+
  moreover have "map_of (committed_history m) t = Some (ts, ins)"
    using assms e by (simp add: vis_wf_def)
  ultimately show "is_visible (mgr_snapshot level m) t None"
    using snapshot_id_ge(1) [of m level] snapshot_id_ge(2) [OF e, of level]
    by (auto simp: is_visible_def is_row_visible_manager_iff commit_ts_map_snapshot map_of_project
        intro: order_trans)
qed

text \<open>
  Strict snapshot isolation (rule D12). In every reachable state, a snapshot of the
  manager sees exactly the transactions of the committed history: a transaction that is
  active, rolled back or evicted from the history is invisible.
\<close>

lemma snapshot_sees_history:
  assumes "vis_reachable m"
  shows "is_visible (mgr_snapshot level m) t None \<longleftrightarrow> committed_entry t m \<noteq> None"
proof -
  have "vis_wf m" using assms
    by (induction rule: vis_reachable.induct) (auto intro: vis_wf_recovered vis_wf_step)
  then show ?thesis
    by (simp add: visible_in_snapshot committed_entry_def map_of_eq_None_iff)
qed

lemma snapshot_sees_history_example:
  "is_visible (mgr_snapshot SnapshotLevel (set_replay_watermark 9 (recover_committed_history_with_config
      [(3, 3)] None [(3, 9)] 10 (set_committed_txn 3 (new_with_config default_visibility_config))))) 3 None"
  by (subst snapshot_sees_history [OF vis_reachable.opened])
     (simp add: committed_entry_def set_replay_watermark_def recover_committed_history_with_config_def
       set_committed_txn_def new_with_config_def hm_insert_def)

lemma begin_txn_with_snapshot_Inr:
  assumes "begin_txn_with_snapshot t level m = (Inr snap, m')"
  shows "mgr_begin_txn t m = (Inr (), m')" "snap = mgr_snapshot level m'"
    "committed_history m' = committed_history m" "fst ` set (active_txns m') = insert t (fst ` set (active_txns m))"
proof -
  have m': "m' = m\<lparr>active_txns := hm_insert t (txn_meta_new t) (active_txns m)\<rparr>"
    and b: "mgr_begin_txn t m = (Inr (), m')" and "snap = mgr_snapshot level m'"
    using assms by (auto simp: begin_txn_with_snapshot_def mgr_begin_txn_def mgr_snapshot_def
        split: if_splits)
  then show "mgr_begin_txn t m = (Inr (), m')" "snap = mgr_snapshot level m'" by blast+
  show "committed_history m' = committed_history m" using m' by simp
  show "fst ` set (active_txns m') = insert t (fst ` set (active_txns m))"
    using m' by (simp add: keys_hm_insert)
qed

text \<open>
  Pinned snapshots. The snapshot returned when a transaction begins sees exactly what
  was committed at that moment, and neither the transaction itself nor any other active one.
\<close>

lemma begin_snapshot_pins_history:
  assumes "vis_wf m" and "begin_txn_with_snapshot t level m = (Inr snap, m')"
  shows "(is_visible snap u None \<longleftrightarrow> hm_contains (committed_history m) u) \<and>
    t \<in> snap_active_txns snap \<and> \<not> is_visible snap t None"
proof -
  note b = begin_txn_with_snapshot_Inr [OF assms(2)]
  have wf': "vis_wf m'" using assms(1) b(1) by (rule vis_wf_begin)
  then have "t \<notin> fst ` set (committed_history m')"
    using b(4) by (auto simp: vis_wf_def)
  then show ?thesis
    using visible_in_snapshot [OF wf', of level] b by auto
qed

lemma begin_snapshot_pins_history_example:
  "\<not> is_visible (mgr_snapshot SnapshotLevel (snd (mgr_begin_txn 1 (new_with_config default_visibility_config)))) 1 None"
  using begin_snapshot_pins_history [of "new_with_config default_visibility_config" 1 SnapshotLevel
     "mgr_snapshot SnapshotLevel (snd (mgr_begin_txn 1 (new_with_config default_visibility_config)))"
     "snd (mgr_begin_txn 1 (new_with_config default_visibility_config))"]
  by (simp add: vis_wf_def new_with_config_def begin_txn_with_snapshot_def mgr_begin_txn_def mgr_snapshot_def)

subsection \<open>Commit\<close>

text \<open>
  C21. The conflict check of commit. For an active transaction, the key-index check lets the
  commit through exactly when the double loop over all other active transactions finds no
  read-write, write-read or write-write clash; otherwise the error names a transaction that
  really clashes and the only change of state is that the transaction is removed.
\<close>

theorem commit_conflict_check:
  assumes "hm_get (active_txns m) t = Some meta" and "commit_txn t ins ts now m = (r, m')"
  shows "((\<exists>snap. r = Inr snap) \<longleftrightarrow> \<not> ssi_conflict t meta (active_txns m)) \<and>
    (\<forall>e. r = Inl e \<longrightarrow> m' = abort_txn t m \<and>
       (\<exists>c rw ww om. e = MvccConflict (SsiConflict t c rw ww) \<and> (c, om) \<in> set (active_txns m) \<and>
          c \<noteq> t \<and> keys_clash meta om))"
proof (cases "detect_conflict t meta (active_txns m)")
  case None
  with assms show ?thesis by (auto simp: commit_txn_cases detect_conflict_None [symmetric])
next
  case (Some x)
  obtain c rw ww where x: "x = (c, rw, ww)" by (metis prod.exhaust)
  have "ssi_conflict t meta (active_txns m)"
    using Some detect_conflict_None [of t meta "active_txns m"] by simp
  moreover obtain om where "(c, om) \<in> set (active_txns m)" "c \<noteq> t" "keys_clash meta om"
    using detect_conflict_Some [of t meta "active_txns m" c rw ww] Some x by auto
  ultimately show ?thesis
    using assms Some by (auto simp: commit_txn_cases x)
qed

theorem commit_conflict_check_witness:
  "let m1 = snd (mgr_begin_txn 2 (snd (mgr_begin_txn 1 (new_with_config default_visibility_config))));
       m2 = record_write 2 [7] (record_read 1 [7] m1)
   in fst (commit_txn 2 0 5 5 m2) = Inl (MvccConflict (SsiConflict 2 1 False True)) \<and>
      snd (commit_txn 2 0 5 5 m2) = abort_txn 2 m2"
proof -
  let ?m1 = "snd (mgr_begin_txn 2 (snd (mgr_begin_txn 1 (new_with_config default_visibility_config))))"
  let ?m2 = "record_write 2 [7] (record_read 1 [7] ?m1)"
  have a: "active_txns ?m2 =
    [(1, (txn_meta_new 1)\<lparr>read_keys := [[7]]\<rparr>), (2, (txn_meta_new 2)\<lparr>written_keys := [[7]]\<rparr>)]"
    by (simp add: mgr_begin_txn_def new_with_config_def record_read_def record_write_def hm_insert_def
        meta_record_read_def meta_record_write_def txn_meta_new_def)
  have e: "fst (commit_txn 2 0 5 5 ?m2) = Inl (MvccConflict (SsiConflict 2 1 False True))"
    by (simp add: commit_txn_cases a detect_conflict_def index_push_def hm_insert_def
        first_holder.simps txn_meta_new_def)
  have "hm_get (active_txns ?m2) 2 = Some ((txn_meta_new 2)\<lparr>written_keys := [[7]]\<rparr>)"
    by (simp add: a)
  then have "snd (commit_txn 2 0 5 5 ?m2) = abort_txn 2 ?m2"
    using commit_conflict_check [OF _ prod.collapse [symmetric], of ?m2 2 _ 0 5 5] e by blast
  with e show ?thesis by (simp only: Let_def simp_thms)
qed

lemma commit_record_frame [simp]:
  "vis_config (commit_record t ins ts m) = vis_config m"
  "replay_watermark (commit_record t ins ts m) = replay_watermark m"
  by (simp_all add: commit_record_def Let_def)

lemma length_hm_insert_new: "length (hm_insert k v m) \<le> Suc (length m)"
  unfolding hm_insert_def by (induction m) auto

lemma commit_state_entry:
  assumes "vis_wf m" "length (committed_history m) < max_history_entries (vis_config m)" "ttl_cutoff now m \<le> ins"
  shows "(t, ts, ins) \<in> set (committed_history (commit_state t ins ts now m))"
proof -
  let ?h = "hm_insert t (ts, ins) (committed_history m)"
  have "length ?h \<le> max_history_entries (vis_config m)"
    using assms(2) length_hm_insert_new [of t "(ts, ins)" "committed_history m"] by linarith
  then have "committed_history (prune_by_count (commit_record t ins ts m)) = ?h"
    by (simp add: committed_history_prune_by_count)
  moreover have "ttl_cutoff now (commit_record t ins ts m) = ttl_cutoff now m"
    by (simp add: ttl_cutoff_def)
  moreover have "(t, ts, ins) \<in> set ?h"
    using assms(1) by (simp add: hm.set_insert vis_wf_def)
  ultimately show ?thesis using assms(3) by (simp add: history_commit_state committed_history_prune)
qed

text \<open>
  A commit is visible. While the history has room for one more entry and the insertion
  time is not below the eviction cutoff, a successful commit returns a snapshot that sees the
  transaction, its history entry has the commit time and the insertion time, the transaction
  is no longer active, and the highest committed id has advanced to at least its id.
\<close>

lemma commit_becomes_visible:
  assumes "vis_wf m" and "commit_txn t ins ts now m = (Inr snap, m')"
    and "length (committed_history m) < max_history_entries (vis_config m)"
    and "ttl_cutoff now m \<le> ins"
  shows "is_visible snap t None \<and> committed_entry t m' = Some (ts, ins) \<and>
    get_begin_ts t m' = None \<and> committed_txn m' = max t (committed_txn m)"
proof -
  have m': "m' = commit_state t ins ts now m" and snap: "snap = mgr_snapshot SnapshotLevel m'"
    using assms(2) by (auto simp: commit_txn_cases split: option.splits)
  have e: "(t, ts, ins) \<in> set (committed_history m')"
    unfolding m' by (rule commit_state_entry [OF assms(1,3,4)])
  have wf': "vis_wf m'" unfolding m' using assms(1) by (rule vis_wf_commit_state)
  have "hm_contains (committed_history m') t" using e by force
  then show ?thesis
    using e wf' visible_in_snapshot [OF wf', of SnapshotLevel t]
    by (simp add: snap committed_entry_def vis_wf_def get_begin_ts_def m' map_laws)
qed

lemma commit_becomes_visible_example:
  "is_visible (mgr_snapshot SnapshotLevel (snd (commit_txn 1 900 950 960
     (snd (mgr_begin_txn 1 (new_with_config default_visibility_config)))))) 1 None"
  using commit_becomes_visible [of "snd (mgr_begin_txn 1 (new_with_config default_visibility_config))"
     1 900 950 960 "mgr_snapshot SnapshotLevel (snd (commit_txn 1 900 950 960
     (snd (mgr_begin_txn 1 (new_with_config default_visibility_config)))))"
     "snd (commit_txn 1 900 950 960 (snd (mgr_begin_txn 1 (new_with_config default_visibility_config))))"]
  by (simp add: vis_wf_def commit_txn_cases mgr_begin_txn_def new_with_config_def hm_insert_def
      txn_meta_new_def detect_conflict_def default_visibility_config_def ttl_cutoff_def saturating_sub_def)



subsection \<open>The shadow of the history\<close>

lemma map_of_filter_contains:
  "map_of (filter (\<lambda>p. hm_contains h (fst p)) s) k = (if hm_contains h k then map_of s k else None)"
  by (rule map_of_filter_fst)

lemma shadow_ok_restrict:
  assumes "hm_wf h" "map_of s = map_option fst \<circ> map_of h"
  shows "map_of (filter (\<lambda>p. hm_contains (filter P h) (fst p)) s) = map_option fst \<circ> map_of (filter P h)"
proof
  fix k
  show "map_of (filter (\<lambda>p. hm_contains (filter P h) (fst p)) s) k =
      (map_option fst \<circ> map_of (filter P h)) k"
  proof (cases "hm_contains (filter P h) k")
    case True
    then obtain v where v: "(k, v) \<in> set (filter P h)" by auto
    then have "map_of h k = Some v" "map_of (filter P h) k = Some v"
      using assms(1) by (simp_all add: hm_wf_filter)
    with True assms(2) show ?thesis by (simp add: map_of_filter_contains del: set_filter)
  next
    case False
    then have "map_of (filter P h) k = None" by (simp add: map_of_eq_None_iff)
    with False show ?thesis by (simp add: map_of_filter_contains del: set_filter)
  qed
qed

lemma shadow_prune_by_count:
  assumes "hm_wf (committed_history m)" "shadow_ok m"
  shows "shadow_ok (prune_by_count m)"
  using assms unfolding shadow_ok_def prune_by_count_def Let_def fold_hm_remove
  by (simp add: shadow_ok_restrict del: set_filter)

lemma shadow_prune_by_ttl:
  assumes "hm_wf (committed_history m)" "shadow_ok m"
  shows "shadow_ok (prune_by_ttl now m)"
  using assms unfolding shadow_ok_def prune_by_ttl_def Let_def
  by (simp add: shadow_ok_restrict del: set_filter)

lemma hm_wf_prune_by_count: "hm_wf (committed_history m) \<Longrightarrow> hm_wf (committed_history (prune_by_count m))"
  by (simp add: committed_history_prune_by_count hm_wf_filter)

lemma shadow_commit_record:
  assumes "shadow_ok m"
  shows "shadow_ok (commit_record t ins ts m)"
  using assms by (auto simp: shadow_ok_def commit_record_def Let_def map_laws fun_eq_iff)

lemma shadow_commit_state:
  assumes "vis_wf m" "shadow_ok m"
  shows "shadow_ok (commit_state t ins ts now m)"
proof -
  let ?r = "commit_record t ins ts m"
  have wf: "hm_wf (committed_history ?r)" using assms(1) by (simp add: vis_wf_def map_laws)
  have "shadow_ok (prune_history now ?r)"
    unfolding prune_history_def
    by (intro shadow_prune_by_ttl hm_wf_prune_by_count shadow_prune_by_count wf
        shadow_commit_record assms(2))
  then show ?thesis by (simp add: commit_state_def Let_def shadow_ok_def)
qed

lemma shadow_frame: "committed_history m' = committed_history m \<Longrightarrow>
    committed_ts_shadow m' = committed_ts_shadow m \<Longrightarrow> shadow_ok m \<Longrightarrow> shadow_ok m'"
  by (simp add: shadow_ok_def)

text \<open>
  The shadow map. Every operation of the manager keeps the shadow map equal to the
  commit timestamps of the history, eviction included.
\<close>

lemma vis_step_keeps_shadow:
  assumes "vis_step m m'" "vis_wf m" "shadow_ok m"
  shows "shadow_ok m'"
  using assms(1)
proof cases
  case (begun t r)
  with assms(3) show ?thesis by (auto simp: mgr_begin_txn_def shadow_ok_def split: if_splits)
next
  case (committed t ins ts now r)
  with assms show ?thesis
    by (auto simp: commit_txn_cases abort_txn_def shadow_commit_state split: option.splits
        elim: shadow_frame [rotated 2])
qed (use assms(3) in \<open>auto simp: record_read_def record_write_def mgr_rollback_txn_def abort_txn_def
      shadow_ok_def split: option.splits\<close>)

lemma vis_step_keeps_shadow_example:
  "shadow_ok (snd (mgr_begin_txn 1 (new_with_config default_visibility_config)))"
  by (rule vis_step_keeps_shadow [of "new_with_config default_visibility_config"],
      rule vis_step.begun [of 1 _ "fst (mgr_begin_txn 1 (new_with_config default_visibility_config))"])
     (simp_all add: vis_wf_def shadow_ok_def new_with_config_def fun_eq_iff)

text \<open>
  Recovery leaves the shadow map behind. Rebuilding a non-empty history on a fresh
  manager, as opening the engine does, does not fill the shadow map.
\<close>

lemma recover_leaves_shadow_stale:
  assumes "h \<noteq> []"
  shows "\<not> shadow_ok (recover_committed_history_with_config h over ins now (new_with_config cfg))"
proof -
  let ?h = "fold (\<lambda>p. hm_insert (fst p) (snd p, unwrap_or now (hm_get ins (fst p)))) h []"
  obtain p where "p \<in> set h" using assms by (cases h) auto
  then have "map_of ?h (fst p) \<noteq> None"
    by (simp add: map_of_eq_None_iff keys_insert_all)
  then show ?thesis
    by (auto simp: shadow_ok_def recover_committed_history_with_config_def new_with_config_def
        fun_eq_iff Let_def split: option.splits)
qed

lemma recover_leaves_shadow_stale_witness:
  "\<not> shadow_ok (recover_committed_history_with_config [(3, 3)] None [(3, 9)] 10
     (new_with_config default_visibility_config))"
  by (rule recover_leaves_shadow_stale) simp

end
