(* ===== verification/Snapshot_Cache.thy ===== *)
theory Snapshot_Cache
  imports Visibility
begin

section \<open>The snapshot cache\<close>

text \<open>
  Models \<^verbatim>\<open>src/src/mvcc/cache.rs\<close>: the latest snapshot tagged with a generation that
  every change of the visibility manager advances. The operations are modelled as run by one
  thread (\<open>cache_invalidate\<close>, \<open>cache_snapshot\<close>), and \<^verbatim>\<open>snapshot\<close> and \<^verbatim>\<open>invalidate\<close> once more as
  the separate loads and stores that concurrent threads can interleave.
\<close>

record snapshot_cache =
  generation :: u64
  full_cache :: "(u64 \<times> txn_snapshot) option"

definition cache_new :: snapshot_cache where
  "cache_new = \<lparr>generation = 1, full_cache = None\<rparr>"

definition cache_invalidate :: "snapshot_cache \<Rightarrow> snapshot_cache" where
  "cache_invalidate c = (let c1 = c\<lparr>full_cache := None\<rparr>; old = generation c1 in c1\<lparr>generation := old + 1\<rparr>)"

definition current_generation :: "snapshot_cache \<Rightarrow> u64" where
  "current_generation c = generation c"

text \<open>Without other threads the second reading of the generation equals the first.\<close>

definition cache_snapshot :: "visibility_manager \<Rightarrow> snapshot_cache \<Rightarrow> txn_snapshot \<times> snapshot_cache" where
  "cache_snapshot m c =
     (let gen = current_generation c in
      case full_cache c of
        Some (g, snap) \<Rightarrow>
          if g = gen then (snap, c)
          else (let snap = mgr_snapshot SnapshotLevel m in (snap, c\<lparr>full_cache := Some (gen, snap)\<rparr>))
      | None \<Rightarrow> (let snap = mgr_snapshot SnapshotLevel m in (snap, c\<lparr>full_cache := Some (gen, snap)\<rparr>)))"

subsection \<open>One thread\<close>

text \<open>A current entry is the snapshot of the manager, as far as visibility goes: the active
  transactions may be out of date.\<close>

definition same_reads :: "txn_snapshot \<Rightarrow> txn_snapshot \<Rightarrow> bool" where
  "same_reads a b \<longleftrightarrow> snapshot_id a = snapshot_id b \<and> commit_ts_map a = commit_ts_map b \<and>
     snap_active_txns a \<inter> fst ` set (commit_ts_map a) = snap_active_txns b \<inter> fst ` set (commit_ts_map b)"

definition cache_current :: "visibility_manager \<Rightarrow> snapshot_cache \<Rightarrow> bool" where
  "cache_current m c \<longleftrightarrow>
     (\<forall>g snap. full_cache c = Some (g, snap) \<longrightarrow> g = generation c \<longrightarrow> same_reads snap (mgr_snapshot SnapshotLevel m))"

lemma same_reads_refl [simp]: "same_reads a a"
  by (simp add: same_reads_def)

lemma cache_current_new [simp]: "cache_current m cache_new"
  by (simp add: cache_current_def cache_new_def)

lemma cache_current_invalidate [simp]: "cache_current m (cache_invalidate c)"
  by (simp add: cache_current_def cache_invalidate_def Let_def)

lemma cache_snapshot_current:
  assumes "cache_current m c" "cache_snapshot m c = (snap, c')"
  shows "same_reads snap (mgr_snapshot SnapshotLevel m)" "cache_current m c'" "generation c' = generation c"
  using assms by (auto simp: cache_snapshot_def cache_current_def current_generation_def Let_def
      split: option.splits prod.splits if_splits)

subsection \<open>Several threads\<close>

text \<open>The shared state is the cache and a manager; each thread runs one call, one access to
  the shared state at a time.\<close>

datatype invalidate_pc = ClearCache | LoadGeneration | StoreGeneration u64 | Invalidated

datatype snapshot_pc =
    ReadGeneration
  | CheckCache u64
  | BuildSnapshot u64
  | Recheck u64 txn_snapshot
  | WriteCache u64 txn_snapshot
  | Returned txn_snapshot

fun invalidate_step :: "invalidate_pc \<Rightarrow> snapshot_cache \<Rightarrow> invalidate_pc \<times> snapshot_cache" where
  "invalidate_step ClearCache c = (LoadGeneration, c\<lparr>full_cache := None\<rparr>)"
| "invalidate_step LoadGeneration c = (StoreGeneration (generation c), c)"
| "invalidate_step (StoreGeneration old) c = (Invalidated, c\<lparr>generation := old + 1\<rparr>)"
| "invalidate_step Invalidated c = (Invalidated, c)"

fun snapshot_step :: "visibility_manager \<Rightarrow> snapshot_pc \<Rightarrow> snapshot_cache \<Rightarrow> snapshot_pc \<times> snapshot_cache" where
  "snapshot_step m ReadGeneration c = (CheckCache (generation c), c)"
| "snapshot_step m (CheckCache gen) c =
     (case full_cache c of
        Some (g, snap) \<Rightarrow> if g = gen then (Returned snap, c) else (BuildSnapshot gen, c)
      | None \<Rightarrow> (BuildSnapshot gen, c))"
| "snapshot_step m (BuildSnapshot gen) c = (Recheck gen (mgr_snapshot SnapshotLevel m), c)"
| "snapshot_step m (Recheck gen snap) c =
     (if generation c = gen then (WriteCache gen snap, c) else (ReadGeneration, c))"
| "snapshot_step m (WriteCache gen snap) c = (Returned snap, c\<lparr>full_cache := Some (gen, snap)\<rparr>)"
| "snapshot_step m (Returned snap) c = (Returned snap, c)"

text \<open>Run alone, the small steps are the calls above.\<close>

lemma invalidate_alone:
  "(case invalidate_step ClearCache c of (p1, c1) \<Rightarrow> case invalidate_step p1 c1 of (p2, c2) \<Rightarrow> invalidate_step p2 c2) =
     (Invalidated, cache_invalidate c)"
  by (simp add: cache_invalidate_def Let_def)

fun run_snapshot :: "nat \<Rightarrow> visibility_manager \<Rightarrow> snapshot_pc \<Rightarrow> snapshot_cache \<Rightarrow> snapshot_pc \<times> snapshot_cache" where
  "run_snapshot 0 m p c = (p, c)"
| "run_snapshot (Suc n) m p c = (case snapshot_step m p c of (p1, c1) \<Rightarrow> run_snapshot n m p1 c1)"

lemma run_snapshot_numeral:
  "run_snapshot (numeral n) m p c = (case snapshot_step m p c of (p1, c1) \<Rightarrow> run_snapshot (pred_numeral n) m p1 c1)"
  by (simp add: numeral_eq_Suc)

subsection \<open>Properties\<close>




end
