(* ===== verification/Engine_Lock.thy ===== *)
theory Engine_Lock
  imports File_System
begin

section \<open>The engine lock\<close>

text \<open>
  Models \<^verbatim>\<open>src/src/engine_lock.rs\<close>. In the Unix branch the advisory lock of the kernel on
  the lock file is the flag \<open>held\<close>: \<^verbatim>\<open>flock\<close> with \<^verbatim>\<open>LOCK_EX | LOCK_NB\<close> succeeds when no
  other open file holds it, and closing the file releases it. Writing the empty byte string
  makes no system call. In the Windows branch the calls of the kernel are parameters, with the
  state of the kernel threaded through. What the engine relies on is the locale
  \<open>exclusive_lock\<close>; both branches provide it.
\<close>

subsection \<open>The contract\<close>

locale exclusive_lock =
  fixes acquire :: "'k \<Rightarrow> 'h z1result \<times> 'k"
    and release :: "'h \<Rightarrow> 'k \<Rightarrow> 'k"
    and held :: "'k \<Rightarrow> bool"
  assumes acquire_Inr: "acquire k = (Inr h, k') \<Longrightarrow> \<not> held k \<and> held k'"
    and acquire_Inl: "acquire k = (Inl e, k') \<Longrightarrow> held k' = held k"
    and release_frees: "acquire k = (Inr h, k') \<Longrightarrow> \<not> held (release h k')"
begin

lemma second_acquire_fails:
  assumes "acquire k = (Inr h, k1)" "acquire k1 = (r, k2)"
  shows "\<exists>e. r = Inl e \<and> held k2"
  using acquire_Inr [OF assms(1)] acquire_Inr [of k1 _ k2] acquire_Inl [of k1 _ k2] assms(2) by (cases r) auto

lemma attempts_keep_the_owner: "held k \<Longrightarrow> held (((\<lambda>k. snd (acquire k)) ^^ n) k)"
proof (induction n)
  case (Suc n)
  let ?k = "((\<lambda>k. snd (acquire k)) ^^ n) k"
  obtain r k' where a: "acquire ?k = (r, k')" by fastforce
  have "held k'" using acquire_Inl [of ?k _ k'] acquire_Inr [of ?k _ k'] a Suc by (cases r) auto
  with a show ?case by simp
qed simp

end

subsection \<open>Unix\<close>

definition lock_acquire :: "bool \<Rightarrow> fs \<Rightarrow> unit z1result \<times> bool \<times> fs" where
  "lock_acquire held s =
     (case next_io s of
        (IoFail k _, s1) \<Rightarrow> (Inl (Internal (Wrapped (Io k))), held, s1)
      | (IoDone, s1) \<Rightarrow>
          if parent_dir LockFile \<notin> set (dirs s1) then (Inl (Internal (Wrapped (Io NotFound))), held, s1)
          else
            let s2 = (case hm_get (files s1) LockFile of
                        None \<Rightarrow> (name_changes LockFile s1)\<lparr>files := hm_insert LockFile \<lparr>fdata = [], fdurable = []\<rparr> (files s1)\<rparr>
                      | Some _ \<Rightarrow> s1)
            in if held then (Inl (Internal LockHeld), held, s2) else (Inr (), True, s2))"

definition lock_drop :: "bool \<Rightarrow> bool" where
  "lock_drop held = False"

lemma lock_exclusive: "lock_acquire held s = (Inr x, held', s') \<Longrightarrow> \<not> held \<and> held'"
  by (auto simp: lock_acquire_def Let_def split: prod.splits io_outcome.splits if_splits)

lemma lock_failure: "lock_acquire held s = (Inl e, held', s') \<Longrightarrow> held' = held"
  by (auto simp: lock_acquire_def Let_def split: prod.splits io_outcome.splits if_splits)

lemma lock_acquire_wins:
  "script s = [] \<Longrightarrow> DataDir \<in> set (dirs s) \<Longrightarrow> fst (lock_acquire held s) = (if held then Inl (Internal LockHeld) else Inr ())"
  by (simp add: lock_acquire_def Let_def)

interpretation unix: exclusive_lock
  "\<lambda>(held, s). case lock_acquire held s of (r, held', s') \<Rightarrow> (r, held', s')" "\<lambda>_ (held, s). (lock_drop held, s)" fst
  by unfold_locales (auto simp: lock_drop_def dest: lock_exclusive lock_failure split: prod.splits)

subsection \<open>Windows\<close>

text \<open>\<^verbatim>\<open>CreateFileW\<close> with the path, the access rights and the share mode, and \<^verbatim>\<open>CloseHandle\<close>.\<close>

datatype win_handle = InvalidHandle | Handle nat

definition generic_read_write :: u32 where
  "generic_read_write = 0xC0000000"

definition lock_acquire_windows ::
    "(path \<Rightarrow> u32 \<Rightarrow> u32 \<Rightarrow> 'k \<Rightarrow> win_handle z1result \<times> 'k) \<Rightarrow> 'k \<Rightarrow> win_handle z1result \<times> 'k" where
  "lock_acquire_windows create_file k =
     (case create_file LockFile generic_read_write 0 k of
        (Inl e, k1) \<Rightarrow> (Inl (Internal (Wrapped e)), k1)
      | (Inr h, k1) \<Rightarrow> if h = InvalidHandle then (Inl (Internal LockHeld), k1) else (Inr h, k1))"

definition lock_drop_windows :: "(win_handle \<Rightarrow> 'k \<Rightarrow> unit z1result \<times> 'k) \<Rightarrow> win_handle \<Rightarrow> 'k \<Rightarrow> 'k" where
  "lock_drop_windows close_handle h k = snd (close_handle h k)"

text \<open>With share mode 0 a file that is open cannot be opened again, and closing the only handle
  makes it available.\<close>

definition share_mode_zero ::
    "(path \<Rightarrow> u32 \<Rightarrow> u32 \<Rightarrow> 'k \<Rightarrow> win_handle z1result \<times> 'k) \<Rightarrow> (win_handle \<Rightarrow> 'k \<Rightarrow> unit z1result \<times> 'k) \<Rightarrow> ('k \<Rightarrow> bool) \<Rightarrow> bool" where
  "share_mode_zero create_file close_handle is_open \<longleftrightarrow>
     (\<forall>k h k'. create_file LockFile generic_read_write 0 k = (Inr h, k') \<longrightarrow>
        (if h = InvalidHandle then is_open k' = is_open k
         else \<not> is_open k \<and> is_open k' \<and> \<not> is_open (snd (close_handle h k')))) \<and>
     (\<forall>k e k'. create_file LockFile generic_read_write 0 k = (Inl e, k') \<longrightarrow> is_open k' = is_open k)"

lemma windows_exclusive:
  assumes "share_mode_zero create_file close_handle is_open"
  shows "exclusive_lock (lock_acquire_windows create_file) (lock_drop_windows close_handle) is_open"
  by unfold_locales
    (use assms in \<open>auto simp: share_mode_zero_def lock_acquire_windows_def lock_drop_windows_def split: prod.splits sum.splits if_splits\<close>)

end
