(* ===== verification/Engine.thy ===== *)
theory Engine
  imports Storage Recovery Checkpoint Protocol Snapshot_Cache Engine_Lock
begin

section \<open>The engine\<close>

text \<open>
  Models \<^verbatim>\<open>src/src/txn/mod.rs\<close>: the operations of \<^verbatim>\<open>Z1Kv\<close> over the components. The
  memory store, the disk layers and the recent-flush cache, which the code shares by
  \<^verbatim>\<open>Arc\<close> with its flush engine, are the fields of \<open>ek_fe\<close>. An operation takes the engine and
  the file system and returns its result with both. The random names of temporary files, the
  codecs and the formatting of the side log are the fields of \<open>engine_env\<close>; each reading of
  the wall clock is an argument, in the order of the code.
\<close>

record engine_env =
  en_pc :: patch_codec
  en_wc :: wal_codec
  en_cc :: ckpt_codec
  en_uuids :: "u64 \<Rightarrow> uuids"
  en_ck_uuids :: "uuids \<times> uuids"
  en_json :: "txn_id \<Rightarrow> z1error \<Rightarrow> bytes"

record z1kv =
  ek_config :: z1_config
  ek_wal :: wal_writer
  ek_mvcc :: visibility_manager
  ek_cache :: snapshot_cache
  ek_txn_snapshots :: "(txn_id, txn_snapshot) hmap"
  ek_fe :: flush_engine
  ek_txn_counter :: u64

subsection \<open>Opening\<close>

definition engine_wal_config :: wal_config where
  "engine_wal_config =
     \<lparr>max_file_size = 128 * 1024 * 1024, enabled = True,
      group_commit = Some (default_group_commit_config\<lparr>policy := SyncEach\<rparr>),
      cfg_write_through = cfg_windows\<rparr>"

text \<open>The callback of recovery: the writes go to memory only.\<close>

definition replay_apply :: "wal_entry \<Rightarrow> mem_store \<Rightarrow> unit z1result \<times> mem_store" where
  "replay_apply op l1 =
     (case we_record op of
        WalPut cf key value \<Rightarrow>
          (Inr (), replay_put \<lparr>e_key = Z1Key cf key, e_txn_id = we_txn_id op, e_value = value, e_ts = 0\<rparr> l1)
      | _ \<Rightarrow> (Inr (), l1))"

definition open_with_config ::
    "engine_env \<Rightarrow> z1_config \<Rightarrow> u64 \<Rightarrow> bool \<Rightarrow> degrade_counts \<Rightarrow> fs \<Rightarrow>
     z1kv z1result \<times> bool \<times> degrade_counts \<times> fs" where
  "open_with_config env config now held counts s =
     (case sys_create_dir_all DataDir s of
        (Inl e, s1) \<Rightarrow> (Inl e, held, counts, s1)
      | (Inr _, s1) \<Rightarrow>
      (case lock_acquire held s1 of
        (Inl e, held1, s2) \<Rightarrow> (Inl e, held1, counts, s2)
      | (Inr _, held1, s2) \<Rightarrow>
      (case wal_open engine_wal_config s2 of
        (Inl e, s3) \<Rightarrow> (Inl e, lock_drop held1, counts, s3)
      | (Inr wal, s3) \<Rightarrow>
      (let l1 = mem_new (64 * 1024 * 1024) Async in
      (case disk_new (en_pc env) L2 s3 of (l2, s4) \<Rightarrow>
      (case disk_new (en_pc env) L3 s4 of (l3, s5) \<Rightarrow>
      (let next_patch_id = max (max_patch_id l2) (max_patch_id l3) + 1;
           mvcc = new_with_config (visibility config);
           s6 = ckpt_new s5 in
      (case recovery_baseline (en_cc env) s6 of (baseline, s7) \<Rightarrow>
      (let (cp_committed_txn, cp_history) = unwrap_or (0, []) baseline in
      (case replay_committed_ops (en_wc env) (strict_mode config) (en_json env) replay_apply l1 counts s7 of
        (Inl e, _, counts1, s8) \<Rightarrow> (Inl (Wal (Described ''recovery failed'')), lock_drop held1, counts1, s8)
      | (Inr recovery, l1', counts1, s8) \<Rightarrow>
          (let merged0 = fold (\<lambda>p. hm_insert (fst p) (snd p)) cp_history [];
               merged = fold (\<lambda>p. hm_insert (fst p) (snd p)) (rr_commit_ts_map recovery) merged0;
               ctxn = max cp_committed_txn (max_seen_committed_txn recovery);
               mvcc1 = set_committed_txn ctxn mvcc;
               mvcc2 = recover_committed_history_with_config merged None (rr_inserted_at_map recovery) now mvcc1;
               mvcc3 = set_replay_watermark (rr_replay_watermark recovery) mvcc2;
               next_txn = saturating_add ctxn 1
           in (Inr \<lparr>ek_config = config, ek_wal = wal, ek_mvcc = mvcc3, ek_cache = cache_new, ek_txn_snapshots = [],
                    ek_fe = with_l3 l1' l2 l3 rf_new 0 next_patch_id, ek_txn_counter = next_txn\<rparr>,
               held1, counts1, s8))))))))))))"

definition engine_open ::
    "engine_env \<Rightarrow> u64 \<Rightarrow> bool \<Rightarrow> degrade_counts \<Rightarrow> fs \<Rightarrow> z1kv z1result \<times> bool \<times> degrade_counts \<times> fs" where
  "engine_open env now held counts s = open_with_config env default_z1_config now held counts s"

subsection \<open>Transactions\<close>

definition next_txn_id :: "z1kv \<Rightarrow> txn_id z1result \<times> z1kv" where
  "next_txn_id e =
     (if ek_txn_counter e = u64_max then (Inl (Internal TxnCounterOverflow), e)
      else (Inr (ek_txn_counter e), e\<lparr>ek_txn_counter := ek_txn_counter e + 1\<rparr>))"

definition begin_retry :: nat where
  "begin_retry = 16"

definition says_already_committed :: "z1error \<Rightarrow> bool" where
  "says_already_committed err \<longleftrightarrow> (case err of MvccConflict (AlreadyCommitted _) \<Rightarrow> True | _ \<Rightarrow> False)"

fun begin_attempts :: "nat \<Rightarrow> z1kv \<Rightarrow> txn_id z1result \<times> z1kv" where
  "begin_attempts 0 e = (Inl (Internal BeginRetriesExhausted), e)"
| "begin_attempts (Suc n) e =
     (case next_txn_id e of
        (Inl err, e1) \<Rightarrow> (Inl err, e1)
      | (Inr t, e1) \<Rightarrow>
          (let e2 = e1\<lparr>ek_cache := cache_invalidate (ek_cache e1)\<rparr> in
           case begin_txn_with_snapshot t SnapshotLevel (ek_mvcc e2) of
             (Inr snap, m) \<Rightarrow>
               (Inr t, e2\<lparr>ek_mvcc := m, ek_txn_snapshots := hm_insert t snap (ek_txn_snapshots e2)\<rparr>)
           | (Inl err, m) \<Rightarrow>
               if says_already_committed err \<and> n > 0 then begin_attempts n (e2\<lparr>ek_mvcc := m\<rparr>)
               else (Inl (Internal (Wrapped err)), e2\<lparr>ek_mvcc := m\<rparr>)))"

definition begin_txn :: "z1kv \<Rightarrow> txn_id z1result \<times> z1kv" where
  "begin_txn e = begin_attempts begin_retry e"

definition ensure_active_txn :: "txn_id \<Rightarrow> z1kv \<Rightarrow> unit z1result" where
  "ensure_active_txn t e = (case get_begin_ts t (ek_mvcc e) of Some _ \<Rightarrow> Inr () | None \<Rightarrow> Inl (TxnNotFound t))"

definition conflict_key :: "u16 \<Rightarrow> bytes \<Rightarrow> bytes" where
  "conflict_key cf key = u16_to_be cf @ key"

subsection \<open>Reading\<close>

definition engine_snapshot :: "z1kv \<Rightarrow> txn_snapshot \<times> z1kv" where
  "engine_snapshot e =
     (case cache_snapshot (ek_mvcc e) (ek_cache e) of (snap, c) \<Rightarrow> (snap, e\<lparr>ek_cache := c\<rparr>))"

definition snap_visible :: "txn_snapshot \<Rightarrow> z1_entry \<Rightarrow> bool" where
  "snap_visible snap e = is_visible_at_commit e (snapshot_id snap) (commit_ts_map snap) (snap_active_txns snap)"

definition get_at ::
    "engine_env \<Rightarrow> txn_snapshot \<Rightarrow> u16 \<Rightarrow> bytes \<Rightarrow> z1kv \<Rightarrow> fs \<Rightarrow> bytes option z1result \<times> z1kv \<times> fs" where
  "get_at env snap cf key e s =
     (let fe = ek_fe e;
          from_l1 = mem_get_versions cf key (snapshot_id snap) (commit_ts_map snap) (snap_active_txns snap) (fe_l1 fe);
          from_recent = filter (snap_visible snap) (rf_get_for_key cf key (fe_recent fe)) in
      case disk_get_versions (en_pc env) cf key (fe_l2 fe) s of
        (Inl err, d2, s1) \<Rightarrow> (Inl err, e\<lparr>ek_fe := fe\<lparr>fe_l2 := d2\<rparr>\<rparr>, s1)
      | (Inr v2, d2, s1) \<Rightarrow>
          (case disk_get_versions (en_pc env) cf key (fe_l3 fe) s1 of
             (Inl err, d3, s2) \<Rightarrow> (Inl err, e\<lparr>ek_fe := fe\<lparr>fe_l2 := d2, fe_l3 := d3\<rparr>\<rparr>, s2)
           | (Inr v3, d3, s2) \<Rightarrow>
               (let candidates = from_l1 @ from_recent @ filter (snap_visible snap) v2 @ filter (snap_visible snap) v3
                in (Inr (read_value candidates), e\<lparr>ek_fe := fe\<lparr>fe_l2 := d2, fe_l3 := d3\<rparr>\<rparr>, s2))))"

definition engine_get ::
    "engine_env \<Rightarrow> u16 \<Rightarrow> bytes \<Rightarrow> z1kv \<Rightarrow> fs \<Rightarrow> bytes option z1result \<times> z1kv \<times> fs" where
  "engine_get env cf key e s =
     (case engine_snapshot e of (snap, e1) \<Rightarrow> get_at env snap cf key e1 s)"

definition get_for_txn ::
    "engine_env \<Rightarrow> u16 \<Rightarrow> bytes \<Rightarrow> txn_id \<Rightarrow> z1kv \<Rightarrow> fs \<Rightarrow> bytes option z1result \<times> z1kv \<times> fs" where
  "get_for_txn env cf key t e s =
     (case hm_get (ek_txn_snapshots e) t of
        None \<Rightarrow> (Inl (TxnNotFound t), e, s)
      | Some snap \<Rightarrow>
          get_at env snap cf key (e\<lparr>ek_mvcc := record_read t (conflict_key cf key) (ek_mvcc e)\<rparr>) s)"

text \<open>The merge of a scan keeps the version with the higher transaction id, the first source
  winning ties.\<close>

definition scan_record_best ::
    "bytes \<times> z1_entry \<Rightarrow> (bytes, txn_id \<times> bytes option) btmap \<Rightarrow> (bytes, txn_id \<times> bytes option) btmap" where
  "scan_record_best ke best =
     (case ke of (k, e) \<Rightarrow>
        (case hm_get best k of
           Some (cur, _) \<Rightarrow> if cur \<ge> e_txn_id e then best else bt_insert k (e_txn_id e, e_value e) best
         | None \<Rightarrow> bt_insert k (e_txn_id e, e_value e) best))"

definition scan_at ::
    "engine_env \<Rightarrow> txn_snapshot \<Rightarrow> u16 \<Rightarrow> bytes \<Rightarrow> bytes option \<Rightarrow> z1kv \<Rightarrow> fs \<Rightarrow>
     (bytes \<times> bytes) list z1result \<times> z1kv \<times> fs" where
  "scan_at env snap cf start end_key e s =
     (let fe = ek_fe e;
          best1 = fold scan_record_best
            (mem_range_visible cf start end_key (snapshot_id snap) (commit_ts_map snap) (snap_active_txns snap) (fe_l1 fe)) [];
          best2 = fold scan_record_best
            (map (\<lambda>e. (key_of (e_key e), e))
              (rf_get_filtered (\<lambda>e. cf_of (e_key e) = cf \<and> key_of (e_key e) \<ge> start \<and>
                 (case end_key of Some en \<Rightarrow> key_of (e_key e) < en | None \<Rightarrow> True) \<and> snap_visible snap e) (fe_recent fe))) best1 in
      case disk_range_visible (en_pc env) cf start end_key (fe_l2 fe) s of
        (Inl err, d2, s1) \<Rightarrow> (Inl err, e\<lparr>ek_fe := fe\<lparr>fe_l2 := d2\<rparr>\<rparr>, s1)
      | (Inr r2, d2, s1) \<Rightarrow>
          (let best3 = fold scan_record_best (filter (\<lambda>(_, e). snap_visible snap e) r2) best2 in
           case disk_range_visible (en_pc env) cf start end_key (fe_l3 fe) s1 of
             (Inl err, d3, s2) \<Rightarrow> (Inl err, e\<lparr>ek_fe := fe\<lparr>fe_l2 := d2, fe_l3 := d3\<rparr>\<rparr>, s2)
           | (Inr r3, d3, s2) \<Rightarrow>
               (let best4 = fold scan_record_best (filter (\<lambda>(_, e). snap_visible snap e) r3) best3
                in (Inr (List.map_filter (\<lambda>(k, _, v). map_option (Pair k) v) best4),
                    e\<lparr>ek_fe := fe\<lparr>fe_l2 := d2, fe_l3 := d3\<rparr>\<rparr>, s2))))"

definition engine_scan ::
    "engine_env \<Rightarrow> u16 \<Rightarrow> bytes \<Rightarrow> bytes option \<Rightarrow> z1kv \<Rightarrow> fs \<Rightarrow> (bytes \<times> bytes) list z1result \<times> z1kv \<times> fs" where
  "engine_scan env cf start end_key e s =
     (case engine_snapshot e of (snap, e1) \<Rightarrow> scan_at env snap cf start end_key e1 s)"

subsection \<open>Writing\<close>

text \<open>Handing an entry to the memory store, which writes the log first.\<close>

definition l1_put :: "engine_env \<Rightarrow> z1_entry \<Rightarrow> z1kv \<Rightarrow> fs \<Rightarrow> unit z1result \<times> z1kv \<times> fs" where
  "l1_put env entry e s =
     (case mem_put (en_wc env) entry (fe_l1 (ek_fe e)) (Some (ek_wal e)) s of
        (r, m, w, s1) \<Rightarrow>
          (r, e\<lparr>ek_fe := (ek_fe e)\<lparr>fe_l1 := m\<rparr>, ek_wal := unwrap_or (ek_wal e) w\<rparr>, s1))"

definition engine_put ::
    "engine_env \<Rightarrow> u64 \<Rightarrow> u16 \<Rightarrow> bytes \<Rightarrow> bytes \<Rightarrow> txn_id \<Rightarrow> z1kv \<Rightarrow> fs \<Rightarrow> unit z1result \<times> z1kv \<times> fs" where
  "engine_put env now cf key value t e s =
     (case ensure_active_txn t e of
        Inl err \<Rightarrow> (Inl err, e, s)
      | Inr _ \<Rightarrow>
          l1_put env (entry_put (Z1Key cf key) t value (ucast now))
            (e\<lparr>ek_mvcc := record_write t (conflict_key cf key) (ek_mvcc e)\<rparr>) s)"

definition engine_delete ::
    "engine_env \<Rightarrow> u64 \<Rightarrow> u16 \<Rightarrow> bytes \<Rightarrow> txn_id \<Rightarrow> z1kv \<Rightarrow> fs \<Rightarrow> unit z1result \<times> z1kv \<times> fs" where
  "engine_delete env now cf key t e s =
     (case ensure_active_txn t e of
        Inl err \<Rightarrow> (Inl err, e, s)
      | Inr _ \<Rightarrow>
          l1_put env (entry_tombstone (Z1Key cf key) t (ucast now))
            (e\<lparr>ek_mvcc := record_write t (conflict_key cf key) (ek_mvcc e)\<rparr>) s)"

subsection \<open>Maintenance\<close>

definition engine_flush :: "engine_env \<Rightarrow> z1kv \<Rightarrow> fs \<Rightarrow> nat option z1result \<times> z1kv \<times> fs" where
  "engine_flush env e s =
     (case try_flush (en_pc env) (en_uuids env) (ek_fe e) s of (r, fe, s1) \<Rightarrow> (r, e\<lparr>ek_fe := fe\<rparr>, s1))"

definition flush_now :: "engine_env \<Rightarrow> z1kv \<Rightarrow> fs \<Rightarrow> nat z1result \<times> z1kv \<times> fs" where
  "flush_now env e s =
     (case flush_l1_to_l2 (en_pc env) (en_uuids env) (ek_fe e) s of (r, fe, s1) \<Rightarrow> (r, e\<lparr>ek_fe := fe\<rparr>, s1))"

definition engine_compact :: "engine_env \<Rightarrow> txn_id \<Rightarrow> z1kv \<Rightarrow> fs \<Rightarrow> (nat \<times> nat) z1result \<times> z1kv \<times> fs" where
  "engine_compact env w e s =
     (case compact_l2_to_l3 (en_pc env) (en_uuids env) w (ek_fe e) s of (r, fe, s1) \<Rightarrow> (r, e\<lparr>ek_fe := fe\<rparr>, s1))"

definition engine_checkpoint :: "engine_env \<Rightarrow> u64 \<Rightarrow> z1kv \<Rightarrow> fs \<Rightarrow> unit z1result \<times> z1kv \<times> fs" where
  "engine_checkpoint env now e s =
     (case flush_l1_to_l2 (en_pc env) (en_uuids env) (ek_fe e) s of
        (Inl err, fe, s1) \<Rightarrow> (Inl err, e\<lparr>ek_fe := fe\<rparr>, s1)
      | (Inr _, fe, s1) \<Rightarrow>
          (let e1 = e\<lparr>ek_fe := fe\<rparr> in
           case flush_and_sync (en_wc env) (ek_wal e1) s1 of
             (Inl err, w, s2) \<Rightarrow> (Inl err, e1\<lparr>ek_wal := w\<rparr>, s2)
           | (Inr _, w, s2) \<Rightarrow>
               (let ctxn = committed_txn (ek_mvcc e1);
                    history = committed_history_entries (ek_mvcc e1);
                    s3 = ckpt_new s2 in
                case ckpt_checkpoint (en_cc env) (en_wc env) (fst (en_ck_uuids env)) (snd (en_ck_uuids env)) now
                       ctxn ctxn history w s3 of
                  (r, w1, s4) \<Rightarrow> (r, e1\<lparr>ek_wal := w1\<rparr>, s4))))"

definition gc_watermark :: "z1kv \<Rightarrow> txn_id" where
  "gc_watermark e =
     (let min_active = oldest_active_begin_ts (ek_mvcc e);
          min_pinned = unwrap_or u64_max (iter_min (map fst (ek_txn_snapshots e)))
      in min min_active min_pinned)"

definition maybe_auto_maintain :: "engine_env \<Rightarrow> u64 \<Rightarrow> z1kv \<Rightarrow> fs \<Rightarrow> unit z1result \<times> z1kv \<times> fs" where
  "maybe_auto_maintain env now e s =
     (case (if checkpoint_wal_size_threshold (ek_config e) > 0 then
              (case wal_size_bytes (ek_wal e) s of
                 (n, s1) \<Rightarrow> if n \<ge> unat (checkpoint_wal_size_threshold (ek_config e))
                             then engine_checkpoint env now e s1 else (Inr (), e, s1))
            else (Inr (), e, s)) of
        (Inl err, e1, s1) \<Rightarrow> (Inl err, e1, s1)
      | (Inr _, e1, s1) \<Rightarrow>
          if l2_compaction_threshold (ek_config e1) > 0 then
            (case try_compact (en_pc env) (en_uuids env) (gc_watermark e1) (l2_compaction_threshold (ek_config e1)) (ek_fe e1) s1 of
               (Inl err, fe, s2) \<Rightarrow> (Inl err, e1\<lparr>ek_fe := fe\<rparr>, s2)
             | (Inr _, fe, s2) \<Rightarrow> (Inr (), e1\<lparr>ek_fe := fe\<rparr>, s2))
          else (Inr (), e1, s1))"

subsection \<open>Ending a transaction\<close>

text \<open>The applier of the commit protocol; \<open>ts\<close> and \<open>now\<close> are the two clock readings inside
  the commit of the visibility manager.\<close>

definition engine_applier :: "u64 \<Rightarrow> u64 \<Rightarrow> z1kv commit_applier" where
  "engine_applier ts now =
     \<lparr>apply_mvcc_commit = (\<lambda>t inserted_at e.
        case commit_txn t inserted_at ts now (ek_mvcc e) of
          (Inl err, m) \<Rightarrow> (Inl err, e\<lparr>ek_mvcc := m\<rparr>)
        | (Inr _, m) \<Rightarrow> (Inr (), e\<lparr>ek_mvcc := m\<rparr>)),
      apply_put_committed_txn = (\<lambda>counter e. (Inr (), e)),
      apply_commit_txn_record = (\<lambda>t commit_ts e. (Inr (), e)),
      apply_snapshot_invalidate = (\<lambda>e. (Inr (), e\<lparr>ek_cache := cache_invalidate (ek_cache e)\<rparr>))\<rparr>"

definition commit_ops :: "txn_id \<Rightarrow> u64 \<Rightarrow> commit_protocol" where
  "commit_ops t inserted_at =
     (protocol_new t)\<lparr>pending_ops := [MvccCommit inserted_at, CommitTxnRecord t t, SnapshotInvalidate]\<rparr>"

definition engine_commit ::
    "engine_env \<Rightarrow> u64 \<times> u64 \<times> u64 \<times> u64 \<Rightarrow> txn_id \<Rightarrow> z1kv \<Rightarrow> fs \<Rightarrow> unit z1result \<times> z1kv \<times> fs" where
  "engine_commit env clock t e s =
     (case clock of (inserted_at, ts, now, now_ck) \<Rightarrow>
      case ensure_active_txn t e of
        Inl err \<Rightarrow> (Inl err, e, s)
      | Inr _ \<Rightarrow>
          (case append_durable (en_wc env) t (WalCommit t inserted_at) (ek_wal e) s of
             (Inl err, w, s1) \<Rightarrow> (Inl err, e\<lparr>ek_wal := w\<rparr>, s1)
           | (Inr _, w, s1) \<Rightarrow>
               (case apply_all (engine_applier ts now) (commit_ops t inserted_at) (e\<lparr>ek_wal := w\<rparr>) of
                  (Inl err, e1) \<Rightarrow> (Inl err, e1\<lparr>ek_txn_snapshots := hm_remove t (ek_txn_snapshots e1)\<rparr>, s1)
                | (Inr _, e1) \<Rightarrow>
                    (let e2 = e1\<lparr>ek_txn_snapshots := hm_remove t (ek_txn_snapshots e1)\<rparr> in
                     case maybe_auto_maintain env now_ck e2 s1 of (_, e3, s2) \<Rightarrow> (Inr (), e3, s2)))))"

definition engine_rollback :: "engine_env \<Rightarrow> txn_id \<Rightarrow> z1kv \<Rightarrow> fs \<Rightarrow> unit z1result \<times> z1kv \<times> fs" where
  "engine_rollback env t e s =
     (case ensure_active_txn t e of
        Inl err \<Rightarrow> (Inl err, e, s)
      | Inr _ \<Rightarrow>
          (let e1 = e\<lparr>ek_cache := cache_invalidate (ek_cache e)\<rparr> in
           case wal_append (en_wc env) t WalRollback (ek_wal e1) s of
             (Inl err, w, s1) \<Rightarrow> (Inl err, e1\<lparr>ek_wal := w\<rparr>, s1)
           | (Inr _, w, s1) \<Rightarrow>
               (Inr (), e1\<lparr>ek_wal := w, ek_mvcc := mgr_rollback_txn t (ek_mvcc e1),
                           ek_txn_snapshots := hm_remove t (ek_txn_snapshots e1)\<rparr>, s1)))"

definition engine_committed_entry :: "txn_id \<Rightarrow> z1kv \<Rightarrow> (u64 \<times> u64) option" where
  "engine_committed_entry t e = committed_entry t (ek_mvcc e)"

definition engine_replay_watermark :: "z1kv \<Rightarrow> u64" where
  "engine_replay_watermark e = replay_watermark (ek_mvcc e)"

end
