(* ===== verification/Transactions.thy ===== *)
theory Transactions
  imports Engine
begin

section \<open>Properties of the engine\<close>

text \<open>
  What the operations of the engine do across components: point reads over all layers return
  the newest visible version, beginning a transaction always succeeds with a fresh id,
  operations on unknown transactions are rejected without effect, a commit makes its writes
  readable, and what the log says of a transaction whose commit was refused.
\<close>

subsection \<open>Reading\<close>

lemma snap_visible_txn: "snap_visible snap x \<longleftrightarrow> is_visible snap (e_txn_id x) None"
  by (simp add: snap_visible_def is_visible_def is_visible_iff is_row_visible_manager_iff)

definition visible_of :: "txn_snapshot \<Rightarrow> stored set \<Rightarrow> z1_key \<Rightarrow> stored set" where
  "visible_of snap V k = {(k', t, v) \<in> V. k' = k \<and> is_visible snap t None}"

lemma visible_of_Un: "visible_of snap (A \<union> B) k = visible_of snap A k \<union> visible_of snap B k"
  by (auto simp: visible_of_def)

lemma visible_of_stored:
  "visible_of snap (stored_of ` A) k = stored_of ` {x \<in> A. e_key x = k \<and> snap_visible snap x}"
  unfolding visible_of_def stored_of_def snap_visible_txn by auto

lemma visible_of_l1:
  assumes "mem_ok m"
  shows "stored_of ` set (mem_get_versions cf key (snapshot_id snap) (commit_ts_map snap) (snap_active_txns snap) m) =
    visible_of snap (stored_of ` mem_versions m) (Z1Key cf key)"
  unfolding visible_of_stored mem_get_versions_candidates set_sort mem.candidates_holds [OF assms]
  by (simp add: snap_visible_def)

lemma visible_of_recent:
  "stored_of ` set (filter (snap_visible snap) (rf_get_for_key cf key rf)) =
    visible_of snap (stored_of ` rf_versions rf) (Z1Key cf key)"
  unfolding visible_of_stored by (rule arg_cong [of _ _ "image stored_of"]) (auto simp: rf_get_for_key_def)

lemma stored_of_patch_version [simp]: "stored_of (patch_version cf pe) = stored_in cf pe"
  by (simp add: stored_of_def patch_version_def stored_in_def)

lemma visible_of_disk:
  "stored_of ` set (filter (snap_visible snap) (map (patch_version cf) (filter (\<lambda>pe. pe_key pe = key) (layer_contents c d s cf)))) =
    visible_of snap (disk_view c d s) (Z1Key cf key)" (is "?l = ?r")
proof
  show "?l \<subseteq> ?r"
    by (auto simp: visible_of_def disk_view_def stored_in_def snap_visible_txn patch_version_def stored_of_def
        intro!: exI [of _ cf] image_eqI)
  show "?r \<subseteq> ?l"
  proof
    fix x assume "x \<in> ?r"
    then obtain pe where pe: "pe \<in> set (layer_contents c d s cf)" "x = stored_in cf pe" "pe_key pe = key"
        "is_visible snap (pe_txn_id pe) None"
      by (auto simp: visible_of_def disk_view_def stored_in_def)
    then have "patch_version cf pe \<in> set (filter (snap_visible snap) (map (patch_version cf)
        (filter (\<lambda>pe. pe_key pe = key) (layer_contents c d s cf))))"
      by (auto simp: snap_visible_txn patch_version_def)
    then show "x \<in> ?l" using pe(2) by (metis image_eqI stored_of_patch_version)
  qed
qed

lemma view_layers:
  "view c fe s = stored_of ` mem_versions (fe_l1 fe) \<union> stored_of ` rf_versions (fe_recent fe) \<union>
     disk_view c (fe_l2 fe) s \<union> disk_view c (fe_l3 fe) s"
  unfolding view_def base_view_def pending_view_def mem_versions_def image_Un by (simp add: Un_ac)

lemma newest_unique:
  "view_single V \<Longrightarrow> newest vis V k t v \<Longrightarrow> newest vis V k t' v' \<Longrightarrow> t = t' \<and> v = v'"
  unfolding newest_def view_single_def by (metis order.antisym)

text \<open>Selecting among candidates that are exactly the visible versions of a key.\<close>

lemma read_value_newest:
  assumes "stored_of ` set xs = visible_of snap V k" "view_single V"
  shows "(\<forall>t v. newest (\<lambda>t. is_visible snap t None) V k t v \<longrightarrow> read_value xs = v) \<and>
    ((\<forall>t v. \<not> newest (\<lambda>t. is_visible snap t None) V k t v) \<longrightarrow> read_value xs = None)"
proof (cases "max_by_key e_txn_id xs")
  case None
  then have "visible_of snap V k = {}" using assms(1) by simp
  then have "\<not> newest (\<lambda>t. is_visible snap t None) V k t v" for t v
    by (auto simp: newest_def visible_of_def)
  with None show ?thesis by (simp add: read_value_best)
next
  case (Some b)
  then have b: "b \<in> set xs" "\<forall>x \<in> set xs. e_txn_id x \<le> e_txn_id b" by (auto dest: max_by_key_SomeD)
  have "stored_of b \<in> visible_of snap V k" using b(1) assms(1) by blast
  then have bv: "(k, e_txn_id b, e_value b) \<in> V" "is_visible snap (e_txn_id b) None"
    by (auto simp: visible_of_def stored_of_def)
  have "t \<le> e_txn_id b" if "(k, t, v) \<in> V" "is_visible snap t None" for t v
  proof -
    have "(k, t, v) \<in> stored_of ` set xs" unfolding assms(1) using that by (simp add: visible_of_def)
    with b(2) show ?thesis by (auto simp: stored_of_def)
  qed
  with bv have "newest (\<lambda>t. is_visible snap t None) V k (e_txn_id b) (e_value b)" by (auto simp: newest_def)
  with newest_unique [OF assms(2)] Some show ?thesis by (auto simp: read_value_best)
qed

text \<open>Reading both disk layers fills their caches and changes nothing else.\<close>

lemma layers_read_again:
  assumes ok: "flush_ok c fe s"
    and d2: "disk_ok c d2 s" "dl_index d2 = dl_index (fe_l2 fe)" "dl_layer d2 = dl_layer (fe_l2 fe)" "layer_paths d2 \<subseteq> layer_paths (fe_l2 fe)"
    and d3: "disk_ok c d3 s" "dl_index d3 = dl_index (fe_l3 fe)" "dl_layer d3 = dl_layer (fe_l3 fe)" "layer_paths d3 \<subseteq> layer_paths (fe_l3 fe)"
  shows "flush_ok c (fe\<lparr>fe_l2 := d2, fe_l3 := d3\<rparr>) s" "view c (fe\<lparr>fe_l2 := d2, fe_l3 := d3\<rparr>) s = view c fe s"
    "base_view c (fe\<lparr>fe_l2 := d2, fe_l3 := d3\<rparr>) s = base_view c fe s"
proof -
  have ids: "ids_below d2 (unat (fe_next_patch_id fe))" "ids_below d3 (unat (fe_next_patch_id fe))"
    using ok by (auto simp: flush_ok_def intro: ids_below_paths [OF _ d2(4,3)] ids_below_paths [OF _ d3(4,3)])
  show "flush_ok c (fe\<lparr>fe_l2 := d2, fe_l3 := d3\<rparr>) s" using ok d2 d3 ids by (simp add: flush_ok_def)
  have lc: "layer_contents c d2 s = layer_contents c (fe_l2 fe) s" "layer_contents c d3 s = layer_contents c (fe_l3 fe) s"
    using d2(2) d3(2) by (simp_all add: layer_contents_def fun_eq_iff)
  show "view c (fe\<lparr>fe_l2 := d2, fe_l3 := d3\<rparr>) s = view c fe s"
    "base_view c (fe\<lparr>fe_l2 := d2, fe_l3 := d3\<rparr>) s = base_view c fe s"
    by (simp_all add: base_view_def view_def pending_view_def disk_view_def lc)
qed

lemma get_at_parts:
  assumes ok: "flush_ok (en_pc env) (ek_fe e) s" and quiet: "script s = []"
  shows "\<exists>xs ys fe'. get_at env snap cf key e s = (Inr (read_value (xs @ ys)), e\<lparr>ek_fe := fe'\<rparr>, s) \<and>
    stored_of ` set xs = visible_of snap (stored_of ` mem_versions (fe_l1 (ek_fe e)) \<union>
      stored_of ` rf_versions (fe_recent (ek_fe e))) (Z1Key cf key) \<and>
    stored_of ` set ys = visible_of snap (disk_view (en_pc env) (fe_l2 (ek_fe e)) s \<union>
      disk_view (en_pc env) (fe_l3 (ek_fe e)) s) (Z1Key cf key) \<and>
    flush_ok (en_pc env) fe' s \<and> view (en_pc env) fe' s = view (en_pc env) (ek_fe e) s \<and>
    base_view (en_pc env) fe' s = base_view (en_pc env) (ek_fe e) s"
proof -
  let ?c = "en_pc env" and ?fe = "ek_fe e"
  have f: "disk_ok ?c (fe_l2 ?fe) s" "disk_ok ?c (fe_l3 ?fe) s" "mem_ok (fe_l1 ?fe)"
    using ok by (simp_all add: flush_ok_def)
  obtain d2 where d2: "disk_get_versions ?c cf key (fe_l2 ?fe) s =
      (Inr (map (patch_version cf) (filter (\<lambda>pe. pe_key pe = key) (layer_contents ?c (fe_l2 ?fe) s cf))), d2, s)"
      "disk_ok ?c d2 s" "dl_index d2 = dl_index (fe_l2 ?fe)" "dl_layer d2 = dl_layer (fe_l2 ?fe)"
    using disk_get_versions_ok [OF f(1) quiet, of cf key] by blast
  obtain d3 where d3: "disk_get_versions ?c cf key (fe_l3 ?fe) s =
      (Inr (map (patch_version cf) (filter (\<lambda>pe. pe_key pe = key) (layer_contents ?c (fe_l3 ?fe) s cf))), d3, s)"
      "disk_ok ?c d3 s" "dl_index d3 = dl_index (fe_l3 ?fe)" "dl_layer d3 = dl_layer (fe_l3 ?fe)"
    using disk_get_versions_ok [OF f(2) quiet, of cf key] by blast
  let ?fe' = "?fe\<lparr>fe_l2 := d2, fe_l3 := d3\<rparr>"
  note keep = layers_read_again [OF ok d2(2-4) disk_read_paths(2) [OF d2(1)] d3(2-4) disk_read_paths(2) [OF d3(1)]]
  define xs where "xs = mem_get_versions cf key (snapshot_id snap) (commit_ts_map snap) (snap_active_txns snap) (fe_l1 ?fe) @
    filter (snap_visible snap) (rf_get_for_key cf key (fe_recent ?fe))"
  define ys where "ys =
    filter (snap_visible snap) (map (patch_version cf) (filter (\<lambda>pe. pe_key pe = key) (layer_contents ?c (fe_l2 ?fe) s cf))) @
    filter (snap_visible snap) (map (patch_version cf) (filter (\<lambda>pe. pe_key pe = key) (layer_contents ?c (fe_l3 ?fe) s cf)))"
  have "stored_of ` set xs = visible_of snap (stored_of ` mem_versions (fe_l1 ?fe) \<union> stored_of ` rf_versions (fe_recent ?fe)) (Z1Key cf key)"
    unfolding xs_def visible_of_Un set_append image_Un visible_of_l1 [OF f(3)] visible_of_recent ..
  moreover have "stored_of ` set ys = visible_of snap (disk_view ?c (fe_l2 ?fe) s \<union> disk_view ?c (fe_l3 ?fe) s) (Z1Key cf key)"
    unfolding ys_def visible_of_Un set_append image_Un visible_of_disk ..
  moreover have "get_at env snap cf key e s = (Inr (read_value (xs @ ys)), e\<lparr>ek_fe := ?fe'\<rparr>, s)"
    by (simp add: get_at_def d2(1) d3(1) Let_def xs_def ys_def)
  ultimately show ?thesis using keep by blast
qed

lemma get_at_candidates:
  assumes "flush_ok (en_pc env) (ek_fe e) s" "script s = []"
  shows "\<exists>xs fe'. get_at env snap cf key e s = (Inr (read_value xs), e\<lparr>ek_fe := fe'\<rparr>, s) \<and>
    stored_of ` set xs = visible_of snap (view (en_pc env) (ek_fe e) s) (Z1Key cf key) \<and>
    flush_ok (en_pc env) fe' s \<and> view (en_pc env) fe' s = view (en_pc env) (ek_fe e) s \<and>
    base_view (en_pc env) fe' s = base_view (en_pc env) (ek_fe e) s"
proof -
  from get_at_parts [OF assms, of snap cf key] obtain xs ys fe' where p:
    "get_at env snap cf key e s = (Inr (read_value (xs @ ys)), e\<lparr>ek_fe := fe'\<rparr>, s)"
    "stored_of ` set xs = visible_of snap (stored_of ` mem_versions (fe_l1 (ek_fe e)) \<union>
      stored_of ` rf_versions (fe_recent (ek_fe e))) (Z1Key cf key)"
    "stored_of ` set ys = visible_of snap (disk_view (en_pc env) (fe_l2 (ek_fe e)) s \<union>
      disk_view (en_pc env) (fe_l3 (ek_fe e)) s) (Z1Key cf key)"
    "flush_ok (en_pc env) fe' s" "view (en_pc env) fe' s = view (en_pc env) (ek_fe e) s"
    "base_view (en_pc env) fe' s = base_view (en_pc env) (ek_fe e) s" by blast
  have "stored_of ` set (xs @ ys) = visible_of snap (view (en_pc env) (ek_fe e) s) (Z1Key cf key)"
    unfolding set_append image_Un p(2,3) view_layers [of "en_pc env" "ek_fe e"] visible_of_Un by (simp only: Un_assoc)
  with p show ?thesis by blast
qed

text \<open>
  C7. Point reads return the newest visible version. With working I/O and one value per key
  and transaction, a read at a snapshot over the write buffer, the recent-flush cache and the
  two disk layers returns the value of the newest version of the key that the snapshot sees
  (nothing when that is a tombstone), nothing when the snapshot sees none, and changes no
  stored version.
\<close>

theorem get_at_newest:
  assumes "flush_ok (en_pc env) (ek_fe e) s" and "script s = []" and "view_single (view (en_pc env) (ek_fe e) s)"
  shows "\<exists>v e'. get_at env snap cf key e s = (Inr v, e', s) \<and>
    (\<forall>t x. newest (\<lambda>t. is_visible snap t None) (view (en_pc env) (ek_fe e) s) (Z1Key cf key) t x \<longrightarrow> v = x) \<and>
    ((\<forall>t x. \<not> newest (\<lambda>t. is_visible snap t None) (view (en_pc env) (ek_fe e) s) (Z1Key cf key) t x) \<longrightarrow> v = None) \<and>
    view (en_pc env) (ek_fe e') s = view (en_pc env) (ek_fe e) s"
proof -
  from get_at_candidates [OF assms(1,2)] obtain xs fe' where
    xs: "get_at env snap cf key e s = (Inr (read_value xs), e\<lparr>ek_fe := fe'\<rparr>, s)"
      "stored_of ` set xs = visible_of snap (view (en_pc env) (ek_fe e) s) (Z1Key cf key)"
      "view (en_pc env) fe' s = view (en_pc env) (ek_fe e) s" by blast
  from read_value_newest [OF xs(2) assms(3)] xs(1,3) show ?thesis by auto
qed

text \<open>A fresh engine with maintenance switched off.\<close>

definition sample_env :: engine_env where
  "sample_env = \<lparr>en_pc = sample_pc, en_wc = log_codec, en_cc = \<lparr>ck_ser = (\<lambda>_. None), ck_de = (\<lambda>_. None), ck_crc = (\<lambda>_. 0)\<rparr>,
     en_uuids = (\<lambda>_. (0, 1, 2)), en_ck_uuids = ((3, 4, 5), (6, 7, 8)), en_json = (\<lambda>_ _. [])\<rparr>"

definition sample_engine :: z1kv where
  "sample_engine = \<lparr>ek_config = default_z1_config\<lparr>checkpoint_wal_size_threshold := 0, l2_compaction_threshold := 0\<rparr>,
     ek_wal = fresh_writer, ek_mvcc = new_with_config default_visibility_config, ek_cache = cache_new,
     ek_txn_snapshots = [], ek_fe = empty_stack, ek_txn_counter = 1\<rparr>"

definition sample_stack :: flush_engine where
  "sample_stack = empty_stack\<lparr>fe_l1 := mem_insert (entry_put (Z1Key 0 [1]) 1 [7] 0) (fe_l1 empty_stack)\<rparr>"

lemma sample_stack_ok: "flush_ok c sample_stack s"
  using empty_stack_ok [of c s] by (simp add: sample_stack_def flush_ok_def mem_ok_ops)

lemma sample_stack_view: "view c sample_stack s = {(Z1Key 0 [1], 1, Some [7])}"
  by (simp add: sample_stack_def empty_stack_def with_l3_def empty_layer_def mem_new_def rf_new_def view_layers
      disk_view_def layer_contents_def entries_at_def mem_versions_def mem_insert_def buffer_insert_def
      stored_of_def entry_put_def)

abbreviation sample_history :: visibility_manager where
  "sample_history \<equiv> (new_with_config default_visibility_config)\<lparr>committed_history := [(1, 6, 5)], committed_txn := 1\<rparr>"

lemma sample_history_sees: "is_visible (mgr_snapshot SnapshotLevel sample_history) 1 None"
  by (subst visible_in_snapshot) (simp_all add: vis_wf_def new_with_config_def)

theorem get_at_newest_witness:
  "\<exists>e'. get_at sample_env (mgr_snapshot SnapshotLevel sample_history) 0 [1]
     (sample_engine\<lparr>ek_fe := sample_stack\<rparr>) quiet_fs = (Inr (Some [7]), e', quiet_fs)"
proof -
  let ?e = "sample_engine\<lparr>ek_fe := sample_stack\<rparr>" and ?snap = "mgr_snapshot SnapshotLevel sample_history"
  have v: "view (en_pc sample_env) (ek_fe ?e) quiet_fs = {(Z1Key 0 [1], 1, Some [7])}" by (simp add: sample_stack_view)
  have "newest (\<lambda>t. is_visible ?snap t None) (view (en_pc sample_env) (ek_fe ?e) quiet_fs) (Z1Key 0 [1]) 1 (Some [7])"
    unfolding v newest_def using sample_history_sees by simp
  moreover have "view_single (view (en_pc sample_env) (ek_fe ?e) quiet_fs)" unfolding v by (simp add: view_single_def)
  moreover have "flush_ok (en_pc sample_env) (ek_fe ?e) quiet_fs" by (simp add: sample_stack_ok)
  moreover have "script quiet_fs = []" by (simp add: quiet_fs_def)
  ultimately show ?thesis using get_at_newest [of sample_env ?e quiet_fs ?snap 0 "[1]"] by blast
qed

subsection \<open>Beginning a transaction\<close>

text \<open>Ids are given out above everything the manager knows.\<close>

definition ids_ahead :: "z1kv \<Rightarrow> bool" where
  "ids_ahead e \<longleftrightarrow> committed_txn (ek_mvcc e) < ek_txn_counter e \<and>
     (\<forall>t \<in> fst ` set (active_txns (ek_mvcc e)). t < ek_txn_counter e)"

lemma begin_txn_eq:
  assumes "ids_ahead e" "ek_txn_counter e \<noteq> u64_max"
  shows "begin_txn e = (let t = ek_txn_counter e;
      m = (ek_mvcc e)\<lparr>active_txns := hm_insert t (txn_meta_new t) (active_txns (ek_mvcc e))\<rparr>
    in (Inr t, e\<lparr>ek_txn_counter := t + 1, ek_cache := cache_invalidate (ek_cache e), ek_mvcc := m,
                  ek_txn_snapshots := hm_insert t (mgr_snapshot SnapshotLevel m) (ek_txn_snapshots e)\<rparr>))"
proof -
  let ?t = "ek_txn_counter e" and ?m = "ek_mvcc e"
  have "\<not> hm_contains (active_txns ?m) ?t" "\<not> ?t \<le> committed_txn ?m"
    using assms(1) by (auto simp: ids_ahead_def)
  then have b: "begin_txn_with_snapshot ?t SnapshotLevel ?m =
      (Inr (mgr_snapshot SnapshotLevel (?m\<lparr>active_txns := hm_insert ?t (txn_meta_new ?t) (active_txns ?m)\<rparr>)),
       ?m\<lparr>active_txns := hm_insert ?t (txn_meta_new ?t) (active_txns ?m)\<rparr>)"
    by (simp add: begin_txn_with_snapshot_def mgr_begin_txn_def mgr_snapshot_def)
  show ?thesis using assms(2) by (simp add: begin_txn_def begin_retry_def eval_nat_numeral next_txn_id_def b Let_def)
qed

lemma begin_txn_exhausted: "ek_txn_counter e = u64_max \<Longrightarrow> begin_txn e = (Inl (Internal TxnCounterOverflow), e)"
  by (simp add: begin_txn_def begin_retry_def eval_nat_numeral next_txn_id_def)

lemma ids_ahead_begin:
  assumes "ids_ahead e" "ek_txn_counter e \<noteq> u64_max" "begin_txn e = (r, e')"
  shows "ids_ahead e'"
proof -
  let ?t = "ek_txn_counter e" and ?m = "ek_mvcc e"
  have lt: "?t < ?t + 1" using assms(2) by (intro u64_less_succ) (simp add: order.not_eq_order_implies_strict word_order.extremum)
  have e': "active_txns (ek_mvcc e') = hm_insert ?t (txn_meta_new ?t) (active_txns ?m)"
      "committed_txn (ek_mvcc e') = committed_txn ?m" "ek_txn_counter e' = ?t + 1"
    using assms(3) unfolding begin_txn_eq [OF assms(1,2)] by (auto simp: Let_def)
  have keys: "fst ` set (active_txns (ek_mvcc e')) = insert ?t (fst ` set (active_txns ?m))"
    unfolding e'(1) by (rule keys_hm_insert)
  show ?thesis using assms(1) lt unfolding ids_ahead_def keys e'(2,3)
    by (simp del: fst_conv) (blast intro: order.strict_trans)
qed

text \<open>
  C36. Beginning a transaction succeeds. When ids are given out above every known transaction
  and the counter is not exhausted, the first of the sixteen attempts succeeds: the new
  transaction gets an id no known transaction has, is active with a pinned snapshot of the
  committed history, and ids stay ahead.
\<close>

theorem begin_txn_succeeds:
  assumes "ids_ahead e" and "ek_txn_counter e \<noteq> u64_max"
  shows "\<exists>e'. begin_txn e = (Inr (ek_txn_counter e), e') \<and> ids_ahead e' \<and>
    \<not> hm_contains (active_txns (ek_mvcc e)) (ek_txn_counter e) \<and> committed_txn (ek_mvcc e) < ek_txn_counter e \<and>
    get_begin_ts (ek_txn_counter e) (ek_mvcc e') \<noteq> None \<and>
    hm_get (ek_txn_snapshots e') (ek_txn_counter e) = Some (mgr_snapshot SnapshotLevel (ek_mvcc e')) \<and>
    committed_history (ek_mvcc e') = committed_history (ek_mvcc e)"
proof -
  obtain r e' where b: "begin_txn e = (r, e')" by fastforce
  with ids_ahead_begin [OF assms b] begin_txn_eq [OF assms] assms(1) show ?thesis
    by (auto simp: Let_def ids_ahead_def get_begin_ts_def map_laws)
qed

theorem begin_txn_succeeds_witness:
  "\<exists>e'. begin_txn sample_engine = (Inr 1, e') \<and> get_begin_ts 1 (ek_mvcc e') \<noteq> None"
  using begin_txn_succeeds [of sample_engine]
  by (auto simp: sample_engine_def ids_ahead_def new_with_config_def word_gt_0)

text \<open>
  C37. Unknown transactions are rejected. Writing, deleting, committing or rolling back with an
  id that is not active returns \<open>TxnNotFound\<close> and changes neither the engine nor any file;
  so does a transactional read without a pinned snapshot.
\<close>

theorem unknown_txn_rejected:
  assumes "get_begin_ts t (ek_mvcc e) = None"
  shows "engine_put env now cf key v t e s = (Inl (TxnNotFound t), e, s) \<and>
    engine_delete env now cf key t e s = (Inl (TxnNotFound t), e, s) \<and>
    engine_commit env clock t e s = (Inl (TxnNotFound t), e, s) \<and>
    engine_rollback env t e s = (Inl (TxnNotFound t), e, s) \<and>
    (hm_get (ek_txn_snapshots e) t = None \<longrightarrow> get_for_txn env cf key t e s = (Inl (TxnNotFound t), e, s))"
  using assms by (cases clock) (simp add: engine_put_def engine_delete_def engine_commit_def engine_rollback_def
      ensure_active_txn_def get_for_txn_def)


theorem unknown_txn_rejected_witness:
  "engine_commit sample_env (5, 6, 7, 8) 9 sample_engine quiet_fs = (Inl (TxnNotFound 9), sample_engine, quiet_fs)"
  using unknown_txn_rejected [of 9 sample_engine]
  by (simp add: sample_engine_def new_with_config_def get_begin_ts_def)

subsection \<open>Committing\<close>

text \<open>The log's calls leave a used-up script used up.\<close>

lemma quiet_rotate: "wal_rotate w s = (r, w', s') \<Longrightarrow> script s = [] \<Longrightarrow> script s' = []"
  by (auto simp: wal_rotate_def rotate_open_def open_write_through_def Let_def
      split: prod.splits sum.splits if_splits dest!: quiet_calls(2,3,5))

lemma quiet_append_encoded:
  assumes "append_encoded bs w s = (r, w', s')" "script s = []"
  shows "script s' = []"
proof -
  obtain r1 w1 s1 where 1: "(if segment_bytes w + length bs > w_max_file_size w \<and> segment_bytes w > 0
      then wal_rotate w s else (Inr (), w, s)) = (r1, w1, s1)" by (metis prod.exhaust)
  then have "script s1 = []" using assms(2) by (auto split: if_splits dest: quiet_rotate)
  with assms(1) show ?thesis unfolding append_encoded_def 1
    by (auto split: sum.splits prod.splits dest: quiet_calls(4))
qed

lemma quiet_inner_sync: "inner_flush_and_sync w s = (r, w', s') \<Longrightarrow> script s = [] \<Longrightarrow> script s' = []"
  by (auto simp: inner_flush_and_sync_def next_io_def
      split: prod.splits sum.splits if_splits io_outcome.splits list.splits dest!: quiet_calls)

lemma quiet_append_entries: "append_entries c es w s = (r, w', s') \<Longrightarrow> script s = [] \<Longrightarrow> script s' = []"
proof (induction es arbitrary: w s)
  case (Cons e es)
  show ?case
  proof (cases "encode_record c e")
    case (Inr bs)
    obtain r1 w1 s1 where 1: "append_encoded bs w s = (r1, w1, s1)" by (metis prod.exhaust)
    note quiet_append_encoded [OF 1 Cons.prems(2)]
    with Cons.prems Cons.IH [of w1 s1] show ?thesis by (auto simp: Inr 1 split: sum.splits)
  qed (use Cons.prems in auto)
qed simp

lemma quiet_log:
  "append_durable c t rec w s = (r, w', s') \<Longrightarrow> script s = [] \<Longrightarrow> script s' = []"
  "wal_append c t rec w s = (r, w', s') \<Longrightarrow> script s = [] \<Longrightarrow> script s' = []"
  "flush_and_sync c w s = (r, w', s') \<Longrightarrow> script s = [] \<Longrightarrow> script s' = []"
  by (auto simp: append_durable_def wal_append_def flush_and_sync_def flush_queue_def Let_def
      split: if_splits prod.splits sum.splits sync_policy.splits
      dest!: quiet_append_encoded quiet_inner_sync quiet_append_entries)

lemma quiet_put: "mem_put c e m wal s = (r, m', wal', s') \<Longrightarrow> script s = [] \<Longrightarrow> script s' = []"
  by (auto simp: mem_put_def put_wal_def Let_def split: option.splits prod.splits sum.splits sync_level.splits if_splits
      dest!: quiet_log)

text \<open>Maintenance after a commit is switched off by thresholds of zero.\<close>

definition maintenance_off :: "z1kv \<Rightarrow> bool" where
  "maintenance_off e \<longleftrightarrow> checkpoint_wal_size_threshold (ek_config e) = 0 \<and> l2_compaction_threshold (ek_config e) = 0"

lemma maintain_off: "maintenance_off e \<Longrightarrow> maybe_auto_maintain env now e s = (Inr (), e, s)"
  by (simp add: maintenance_off_def maybe_auto_maintain_def)

lemma apply_commit_ops:
  "apply_all (engine_applier ts now) (commit_ops t ins) e =
     (case commit_txn t ins ts now (ek_mvcc e) of
        (Inl err, m) \<Rightarrow> (Inl err, e\<lparr>ek_mvcc := m\<rparr>)
      | (Inr _, m) \<Rightarrow> (Inr (), e\<lparr>ek_mvcc := m, ek_cache := cache_invalidate (ek_cache e)\<rparr>))"
  by (simp add: apply_all_def protocol_validate_def commit_ops_def protocol_new_def engine_applier_def apply_op_def
      split: prod.splits sum.splits)

text \<open>A commit that got past its log record.\<close>

lemma engine_commit_cases:
  assumes "engine_commit env (ins, ts, now, nck) t e s = (r, e', s')" "get_begin_ts t (ek_mvcc e) \<noteq> None" "maintenance_off e"
    "append_durable (en_wc env) t (WalCommit t ins) (ek_wal e) s = (Inr x, w, s1)"
  shows "s' = s1 \<and> ek_wal e' = w \<and> ek_fe e' = ek_fe e \<and>
    (case commit_txn t ins ts now (ek_mvcc e) of
       (Inl err, m) \<Rightarrow> r = Inl err \<and> ek_mvcc e' = m
     | (Inr _, m) \<Rightarrow> r = Inr () \<and> ek_mvcc e' = m \<and> ek_cache e' = cache_invalidate (ek_cache e))"
proof -
  have off: "maintenance_off (e\<lparr>ek_wal := w, ek_mvcc := m, ek_cache := c, ek_txn_snapshots := sn\<rparr>)" for m c sn
    using assms(3) by (simp add: maintenance_off_def)
  show ?thesis
    using assms(1,2,4) by (auto simp: engine_commit_def ensure_active_txn_def apply_commit_ops maintain_off [OF off] Let_def
        split: prod.splits sum.splits option.splits)
qed

lemma engine_commit_Inr:
  assumes "engine_commit env (ins, ts, now, nck) t e s = (Inr (), e', s')"
  shows "get_begin_ts t (ek_mvcc e) \<noteq> None \<and>
    (\<exists>x w s1. append_durable (en_wc env) t (WalCommit t ins) (ek_wal e) s = (Inr x, w, s1))"
proof -
  obtain r w s1 where a: "append_durable (en_wc env) t (WalCommit t ins) (ek_wal e) s = (r, w, s1)" by (metis prod.exhaust)
  with assms show ?thesis
    by (cases "get_begin_ts t (ek_mvcc e)"; cases r) (simp_all add: engine_commit_def ensure_active_txn_def)
qed

lemma same_reads_visible:
  assumes "same_reads a b"
  shows "is_visible a t None = is_visible b t None"
proof -
  have eq: "snapshot_id a = snapshot_id b" "commit_ts_map a = commit_ts_map b"
    and act: "snap_active_txns a \<inter> fst ` set (commit_ts_map a) = snap_active_txns b \<inter> fst ` set (commit_ts_map b)"
    using assms unfolding same_reads_def by blast+
  have "t \<in> snap_active_txns a \<longleftrightarrow> t \<in> snap_active_txns b" if "map_of (commit_ts_map b) t = Some ts" for ts
  proof -
    have "t \<in> fst ` set (commit_ts_map b)" using that by (metis domI dom_map_of_conv_image_fst)
    with act [unfolded eq] show ?thesis by blast
  qed
  then show ?thesis unfolding is_visible_def is_row_visible_manager_iff eq by blast
qed

lemma visible_of_same: "same_reads a b \<Longrightarrow> visible_of a V k = visible_of b V k"
  by (simp add: visible_of_def same_reads_visible)

lemma record_write_frame [simp]:
  "committed_history (record_write t k m) = committed_history m" "vis_config (record_write t k m) = vis_config m"
  "replay_watermark (record_write t k m) = replay_watermark m"
  by (simp_all add: record_write_def split: option.splits)

lemma engine_put_Inr:
  assumes ok: "flush_ok (en_pc env) (ek_fe e) s" and single: "view_single (base_view (en_pc env) (ek_fe e) s)"
    and fresh: "\<forall>x. (Z1Key cf key, t, x) \<notin> view (en_pc env) (ek_fe e) s"
    and put: "engine_put env n cf key v t e s = (Inr (), e1, s1)"
  shows "ek_mvcc e1 = record_write t (conflict_key cf key) (ek_mvcc e)" "ek_config e1 = ek_config e"
    "flush_ok (en_pc env) (ek_fe e1) s1"
    "view (en_pc env) (ek_fe e1) s1 = insert (Z1Key cf key, t, Some v) (view (en_pc env) (ek_fe e) s)"
    "script s = [] \<Longrightarrow> script s1 = []"
proof -
  let ?x = "entry_put (Z1Key cf key) t v n"
  obtain r m w s' where p: "mem_put (en_wc env) ?x (fe_l1 (ek_fe e)) (Some (ek_wal e)) s = (r, m, w, s')"
    by (metis prod_cases4)
  have e1: "r = Inr ()" "s1 = s'" "ek_fe e1 = (ek_fe e)\<lparr>fe_l1 := m\<rparr>"
      "ek_mvcc e1 = record_write t (conflict_key cf key) (ek_mvcc e)" "ek_config e1 = ek_config e"
    using put by (auto simp: engine_put_def l1_put_def p split: sum.splits)
  have x: "stored_of ?x = (Z1Key cf key, t, Some v)" by (simp add: stored_of_def entry_put_def)
  have "base_view (en_pc env) (ek_fe e) s \<subseteq> view (en_pc env) (ek_fe e) s" by (auto simp: view_def)
  with single fresh have "view_single (base_view (en_pc env) (ek_fe e) s \<union> {stored_of ?x})"
    unfolding view_single_def x by blast
  with put_effect [OF ok p] e1 x
  show "flush_ok (en_pc env) (ek_fe e1) s1"
    "view (en_pc env) (ek_fe e1) s1 = insert (Z1Key cf key, t, Some v) (view (en_pc env) (ek_fe e) s)" by simp_all
  show "ek_mvcc e1 = record_write t (conflict_key cf key) (ek_mvcc e)" "ek_config e1 = ek_config e" using e1 by simp_all
  show "script s = [] \<Longrightarrow> script s1 = []" using quiet_put [OF p] e1(2) by simp
qed

text \<open>Reading a key whose newest version is of a visible transaction.\<close>

lemma engine_get_newest:
  assumes "flush_ok (en_pc env) (ek_fe e) s" "script s = []" "cache_current (ek_mvcc e) (ek_cache e)" "vis_wf (ek_mvcc e)"
    "(Z1Key cf key, t, v) \<in> view (en_pc env) (ek_fe e) s" "hm_contains (committed_history (ek_mvcc e)) t"
    "\<forall>u x. (Z1Key cf key, u, x) \<in> view (en_pc env) (ek_fe e) s \<longrightarrow> u < t \<or> (u = t \<and> x = v)"
  shows "\<exists>e'. engine_get env cf key e s = (Inr v, e', s)"
proof -
  obtain snap c where snap: "cache_snapshot (ek_mvcc e) (ek_cache e) = (snap, c)" by fastforce
  let ?e = "e\<lparr>ek_cache := c\<rparr>" and ?V = "view (en_pc env) (ek_fe e) s"
  have vis: "is_visible snap u None \<longleftrightarrow> hm_contains (committed_history (ek_mvcc e)) u" for u
    using same_reads_visible [OF cache_snapshot_current(1) [OF assms(3) snap]] visible_in_snapshot [OF assms(4)] by simp
  have "flush_ok (en_pc env) (ek_fe ?e) s" using assms(1) by simp
  from get_at_candidates [OF this assms(2), of snap cf key] obtain xs fe' where
    xs: "get_at env snap cf key ?e s = (Inr (read_value xs), ?e\<lparr>ek_fe := fe'\<rparr>, s)"
      "stored_of ` set xs = visible_of snap ?V (Z1Key cf key)" by auto
  have mem: "(Z1Key cf key, t, v) \<in> stored_of ` set xs"
    unfolding xs(2) visible_of_def using assms(5,6) vis by simp
  have bound: "u < t \<or> (u = t \<and> x = v)" if "(Z1Key cf key, u, x) \<in> stored_of ` set xs" for u x
    using that assms(7) unfolding xs(2) visible_of_def by blast
  have key: "k = Z1Key cf key" if "(k, u, x) \<in> stored_of ` set xs" for k u x
    using that unfolding xs(2) visible_of_def by blast
  have "read_value xs = v"
  proof (cases "max_by_key e_txn_id xs")
    case None
    with mem show ?thesis by simp
  next
    case (Some b)
    then have b: "b \<in> set xs" "\<forall>x \<in> set xs. e_txn_id x \<le> e_txn_id b" by (auto dest: max_by_key_SomeD)
    have "t \<le> e_txn_id b" using mem b(2) by (auto simp: stored_of_def)
    moreover have "(Z1Key cf key, e_txn_id b, e_value b) \<in> stored_of ` set xs"
      using b(1) key [of "e_key b" "e_txn_id b" "e_value b"] by (force simp: stored_of_def)
    ultimately have "e_value b = v" using bound [of "e_txn_id b" "e_value b"] by auto
    with Some show ?thesis by (simp add: read_value_best)
  qed
  with xs(1) show ?thesis by (simp add: engine_get_def engine_snapshot_def snap)
qed


text \<open>A concrete run: the records of \<open>sample_log\<close> appended to one segment.\<close>

definition sample_writer :: "bytes \<Rightarrow> wal_writer" where
  "sample_writer d = fresh_writer\<lparr>w_pos := length d, segment_bytes := length d\<rparr>"

lemma sample_writer_fields [simp]:
  "w_pos (sample_writer d) = length d" "segment_bytes (sample_writer d) = length d" "w_seq (sample_writer d) = 0"
  "w_config (sample_writer d) = sync_each_config" "w_write_through (sample_writer d) = False"
  "w_max_file_size (sample_writer d) = 134217728" "last_flush (sample_writer d) = 0" "queue (sample_writer d) = []"
  by (simp_all add: sample_writer_def fresh_writer_def)

lemma sample_log_encodable: "\<forall>e \<in> set sample_log. encodable log_codec e \<and> length (enc log_codec e) = 9"
  by (simp add: encodable_def encode_record_def enc_def log_codec_def sample_log_def max_wal_record_len_def)

lemma sample_append_encoded:
  assumes "length d < 100" "length bs = 9"
  shows "append_encoded bs (sample_writer d) (fresh_fs \<lparr>fdata = d, fdurable = u\<rparr>) =
    (Inr (), sample_writer (d @ bs), fresh_fs \<lparr>fdata = d @ bs, fdurable = u\<rparr>)"
  using assms by (simp add: append_encoded_def sys_defs put_bytes_def fresh_fs_def hm_insert_def)
    (simp add: sample_writer_def fresh_writer_def)

lemma sample_sync:
  "inner_flush_and_sync (sample_writer d) (fresh_fs \<lparr>fdata = d, fdurable = u\<rparr>) =
    (Inr (), sample_writer d, fresh_fs \<lparr>fdata = d, fdurable = d\<rparr>)"
  by (simp add: inner_flush_and_sync_def sys_defs fresh_fs_def hm_insert_def)

lemma sample_log_calls:
  assumes "\<lparr>we_txn_id = t, we_record = r\<rparr> \<in> set sample_log" (is "?e \<in> _") "length d < 100"
  shows "wal_append log_codec t r (sample_writer d) (fresh_fs \<lparr>fdata = d, fdurable = u\<rparr>) =
      (Inr (), sample_writer (d @ enc log_codec ?e), fresh_fs \<lparr>fdata = d @ enc log_codec ?e, fdurable = u\<rparr>)"
    "append_durable log_codec t r (sample_writer d) (fresh_fs \<lparr>fdata = d, fdurable = u\<rparr>) =
      (Inr (), sample_writer (d @ enc log_codec ?e),
       fresh_fs \<lparr>fdata = d @ enc log_codec ?e, fdurable = d @ enc log_codec ?e\<rparr>)"
proof -
  have e: "encode_record log_codec ?e = Inr (enc log_codec ?e)" "length (enc log_codec ?e) = 9"
    using assms(1) sample_log_encodable by (auto simp: encodable_def enc_def split: sum.splits)
  show "wal_append log_codec t r (sample_writer d) (fresh_fs \<lparr>fdata = d, fdurable = u\<rparr>) =
      (Inr (), sample_writer (d @ enc log_codec ?e), fresh_fs \<lparr>fdata = d @ enc log_codec ?e, fdurable = u\<rparr>)"
    using sample_append_encoded [OF assms(2) e(2)] e(1)
    by (simp add: wal_append_def sync_each_config_def default_wal_config_def)
  show "append_durable log_codec t r (sample_writer d) (fresh_fs \<lparr>fdata = d, fdurable = u\<rparr>) =
      (Inr (), sample_writer (d @ enc log_codec ?e),
       fresh_fs \<lparr>fdata = d @ enc log_codec ?e, fdurable = d @ enc log_codec ?e\<rparr>)"
    using sample_append_encoded [OF assms(2) e(2)] e(1) sample_sync
    by (simp add: append_durable_def sync_each_config_def default_wal_config_def default_group_commit_config_def
        sync_policy_of_def Let_def)
qed

lemma commit_alone:
  assumes "active_txns m = [(t, meta)]"
  shows "commit_txn t ins ts now m = (Inr (mgr_snapshot SnapshotLevel (commit_state t ins ts now m)), commit_state t ins ts now m)"
proof -
  have "detect_conflict t meta (active_txns m) = None"
    unfolding detect_conflict_None using assms by (simp add: ssi_conflict_def)
  then show ?thesis using assms by (simp add: commit_txn_cases)
qed

definition sample_active :: "(txn_id, txn_meta) hmap \<Rightarrow> z1kv" where
  "sample_active a = sample_engine\<lparr>ek_mvcc := (ek_mvcc sample_engine)\<lparr>active_txns := a\<rparr>\<rparr>"


subsection \<open>Overwriting a flushed value\<close>

text \<open>On a tie the later candidates win, so a version on disk hides one in memory with the
  same transaction id.\<close>

lemma max_by_key_append:
  assumes "max_by_key f ys = Some y" "\<forall>x \<in> set xs. f x \<le> f y"
  shows "max_by_key f (xs @ ys) = Some y"
  using assms by (induction xs) (auto split: option.splits dest: max_by_key_SomeD)

lemma disk_hides_memory:
  assumes "flush_ok (en_pc env) (ek_fe e) s" "script s = []" "is_visible snap t None"
    "(Z1Key cf key, t, v) \<in> disk_view (en_pc env) (fe_l2 (ek_fe e)) s \<union> disk_view (en_pc env) (fe_l3 (ek_fe e)) s"
    "\<forall>u x. (Z1Key cf key, u, x) \<in> disk_view (en_pc env) (fe_l2 (ek_fe e)) s \<union> disk_view (en_pc env) (fe_l3 (ek_fe e)) s \<longrightarrow>
       u < t \<or> (u = t \<and> x = v)"
    "\<forall>u x. (Z1Key cf key, u, x) \<in> view (en_pc env) (ek_fe e) s \<longrightarrow> u \<le> t"
  shows "\<exists>e'. get_at env snap cf key e s = (Inr v, e', s)"
proof -
  let ?D = "disk_view (en_pc env) (fe_l2 (ek_fe e)) s \<union> disk_view (en_pc env) (fe_l3 (ek_fe e)) s"
  from get_at_parts [OF assms(1,2), of snap cf key] obtain xs ys fe' where p:
    "get_at env snap cf key e s = (Inr (read_value (xs @ ys)), e\<lparr>ek_fe := fe'\<rparr>, s)"
    "stored_of ` set xs = visible_of snap (stored_of ` mem_versions (fe_l1 (ek_fe e)) \<union>
      stored_of ` rf_versions (fe_recent (ek_fe e))) (Z1Key cf key)"
    "stored_of ` set ys = visible_of snap ?D (Z1Key cf key)" by blast
  have xs: "e_txn_id x \<le> t" if "x \<in> set xs" for x
  proof -
    have "stored_of x \<in> visible_of snap (view (en_pc env) (ek_fe e) s) (Z1Key cf key)"
      using that p(2) unfolding view_layers [of "en_pc env" "ek_fe e"] visible_of_Un by blast
    then have "(Z1Key cf key, e_txn_id x, e_value x) \<in> view (en_pc env) (ek_fe e) s"
      by (auto simp: visible_of_def stored_of_def)
    with assms(6) show ?thesis by blast
  qed
  have ys: "e_txn_id y < t \<or> (e_txn_id y = t \<and> e_value y = v)" if "y \<in> set ys" for y
  proof -
    have "stored_of y \<in> visible_of snap ?D (Z1Key cf key)" using that p(3) by blast
    then have "(Z1Key cf key, e_txn_id y, e_value y) \<in> ?D" by (auto simp: visible_of_def stored_of_def)
    with assms(5) show ?thesis by blast
  qed
  have "(Z1Key cf key, t, v) \<in> stored_of ` set ys" unfolding p(3) visible_of_def using assms(3,4) by blast
  then obtain z where z: "z \<in> set ys" "e_txn_id z = t" by (auto simp: stored_of_def)
  then obtain y where y: "max_by_key e_txn_id ys = Some y" by (cases "max_by_key e_txn_id ys") auto
  then have "y \<in> set ys" "t \<le> e_txn_id y" using z by (auto dest: max_by_key_SomeD)
  with ys [of y] have yt: "e_txn_id y = t" "e_value y = v" by auto
  with y xs have "max_by_key e_txn_id (xs @ ys) = Some y" by (intro max_by_key_append) auto
  with p(1) yt show ?thesis by (simp add: read_value_best)
qed

lemma mem_put_layers:
  assumes "flush_ok c fe s" "mem_put wc x (fe_l1 fe) (Some w) s = (r, m, w', s')"
  shows "flush_ok c (fe\<lparr>fe_l1 := m\<rparr>) s'" "disk_view c (fe_l2 fe) s' = disk_view c (fe_l2 fe) s"
    "disk_view c (fe_l3 fe) s' = disk_view c (fe_l3 fe) s"
    "stored_of ` mem_versions m \<subseteq> stored_of ` mem_versions (fe_l1 fe) \<union> {stored_of x}"
proof -
  note l = wal_only_layers [OF assms(1) mem_put_files [OF assms(2)]]
  show "disk_view c (fe_l2 fe) s' = disk_view c (fe_l2 fe) s" "disk_view c (fe_l3 fe) s' = disk_view c (fe_l3 fe) s"
    using l by simp_all
  have ok: "buffer_ok (hot (fe_l1 fe))" "mem_ok (fe_l1 fe)" using assms(1) by (simp_all add: flush_ok_def mem_ok_def)
  have m: "hot m = (case r of Inl _ \<Rightarrow> hot (fe_l1 fe) | Inr _ \<Rightarrow> buffer_insert x (hot (fe_l1 fe)))"
      "cold m = cold (fe_l1 fe)" "snap_buf m = snap_buf (fe_l1 fe)"
    using assms(2) by (auto simp: mem_put_def mem_insert_def split: prod.splits sum.splits dest!: put_wal_frame)
  have "mem_ok m" using ok by (cases r) (auto simp: mem_ok_def m intro: buffer_ok_insert)
  then show "flush_ok c (fe\<lparr>fe_l1 := m\<rparr>) s'" using assms(1) l by (simp add: flush_ok_def)
  have "buffer_versions (hot m) \<subseteq> buffer_versions (hot (fe_l1 fe)) \<union> {x}"
    using ok(1) unfolding m(1) by (cases r) (auto simp: buffer_insert_def bt.set_insert buffer_ok_def)
  then show "stored_of ` mem_versions m \<subseteq> stored_of ` mem_versions (fe_l1 fe) \<union> {stored_of x}"
    unfolding mem_versions_def m(2,3) by blast
qed

text \<open>
  C38. Overwriting a flushed value has no effect on reads. When a version that a transaction
  wrote to a key has already been flushed to disk and the same transaction puts another
  value under the key, a read at a snapshot that sees the transaction still returns the old
  value, provided no newer version of the key is stored: on a tie the disk layers win.
\<close>

theorem overwrite_after_flush_is_stale:
  assumes ok: "flush_ok (en_pc env) (ek_fe e) s" and quiet: "script s = []" and vis: "is_visible snap t None"
    and disk: "(Z1Key cf key, t, v) \<in> disk_view (en_pc env) (fe_l2 (ek_fe e)) s \<union> disk_view (en_pc env) (fe_l3 (ek_fe e)) s"
    and newest: "\<forall>u x. (Z1Key cf key, u, x) \<in> view (en_pc env) (ek_fe e) s \<longrightarrow> u < t \<or> (u = t \<and> x = v)"
    and put: "engine_put env n cf key w t e s = (Inr (), e1, s1)"
  shows "\<exists>e2. get_at env snap cf key e1 s1 = (Inr v, e2, s1)"
proof -
  let ?x = "entry_put (Z1Key cf key) t w n" and ?c = "en_pc env"
  obtain r m wal s' where p: "mem_put (en_wc env) ?x (fe_l1 (ek_fe e)) (Some (ek_wal e)) s = (r, m, wal, s')"
    by (metis prod_cases4)
  have e1: "s1 = s'" "ek_fe e1 = (ek_fe e)\<lparr>fe_l1 := m\<rparr>"
    using put by (auto simp: engine_put_def l1_put_def p split: sum.splits)
  note l = mem_put_layers [OF ok p]
  let ?D = "disk_view ?c (fe_l2 (ek_fe e)) s \<union> disk_view ?c (fe_l3 (ek_fe e)) s"
  have D: "disk_view ?c (fe_l2 (ek_fe e1)) s1 \<union> disk_view ?c (fe_l3 (ek_fe e1)) s1 = ?D" using l e1 by simp
  have "stored_of ?x = (Z1Key cf key, t, Some w)" by (simp add: stored_of_def entry_put_def)
  then have V: "view ?c (ek_fe e1) s1 \<subseteq> view ?c (ek_fe e) s \<union> {(Z1Key cf key, t, Some w)}"
    using l(2-4) e1 unfolding view_layers by auto
  show ?thesis
  proof (rule disk_hides_memory [of env e1 s1 snap t cf key v, unfolded D])
    show "flush_ok ?c (ek_fe e1) s1" using l(1) e1 by simp
    show "script s1 = []" using quiet_put [OF p quiet] e1 by simp
    show "(Z1Key cf key, t, v) \<in> ?D" by (rule disk)
    show "\<forall>u x. (Z1Key cf key, u, x) \<in> ?D \<longrightarrow> u < t \<or> (u = t \<and> x = v)"
      using newest unfolding view_layers by blast
    show "\<forall>u x. (Z1Key cf key, u, x) \<in> view ?c (ek_fe e1) s1 \<longrightarrow> u \<le> t"
    proof (intro allI impI)
      fix u x
      assume "(Z1Key cf key, u, x) \<in> view ?c (ek_fe e1) s1"
      with V have "(Z1Key cf key, u, x) \<in> view ?c (ek_fe e) s \<or> u = t" by blast
      with newest have "u < t \<or> u = t" by blast
      then show "u \<le> t" by auto
    qed
  qed (rule vis)
qed

text \<open>A concrete flush: two versions of column family 0 go to one patch.\<close>

definition full_stack :: flush_engine where
  "full_stack = empty_stack\<lparr>fe_l1 := mem_insert (entry_tombstone (Z1Key 0 [4]) 2 0)
     (mem_insert (entry_put (Z1Key 0 [1]) 3 [7] 0) (fe_l1 empty_stack)), fe_next_patch_id := 1\<rparr>"

lemma full_stack_flush:
  "\<exists>fe s. flush_l1_to_l2 sample_pc (\<lambda>_. (0, 1, 2)) full_stack quiet_fs = (Inr 1, fe, s) \<and> script s = [] \<and>
     mem_sync_level (fe_l1 fe) = Async"
proof -
  let ?x = "entry_put (Z1Key 0 [1]) 3 [7] 0" and ?y = "entry_tombstone (Z1Key 0 [4]) 2 0"
  obtain d s where a: "append_patch sample_pc (0, 1, 2) 0 sample_patch 1 (empty_layer L2) quiet_fs = (Inr (), d, s)" "script s = []"
    using append_sample unfolding empty_layer_def by (metis prod.collapse)
  have "Z1Key 0 [1] < Z1Key 0 [4]" by (simp add: less_z1_key_def)
  then have less: "Z1Key 0 [1] < Z1Key 0 [4]" "\<not> Z1Key 0 [4] < Z1Key 0 [1]" by auto
  have hot: "hot (fe_l1 full_stack) = [((Z1Key 0 [1], 3), ?x), ((Z1Key 0 [4], 2), ?y)]"
    using less by (simp add: full_stack_def empty_stack_def with_l3_def mem_new_def mem_insert_def
        buffer_insert_def version_id_def entry_put_def entry_tombstone_def)
  have merged: "fold buffer_insert [?x, ?y] [] = [((Z1Key 0 [1], 3), ?x), ((Z1Key 0 [4], 2), ?y)]"
    using less by (simp add: buffer_insert_def version_id_def entry_put_def entry_tombstone_def)
  have groups: "fold group_push [?x, ?y] [] = [(0, sample_patch)]"
    by (simp add: group_push_def to_patch_entry_def entry_put_def entry_tombstone_def sample_patch_def)
  have fields: "fe_recent full_stack = rf_new" "fe_l2 full_stack = empty_layer L2" "fe_next_patch_id full_stack = 1"
      "mem_sync_level (fe_l1 full_stack) = Async"
    by (simp_all add: full_stack_def empty_stack_def with_l3_def mem_insert_def mem_new_def)
  show ?thesis using a merged groups
    by (simp add: flush_l1_to_l2_def swap_and_drain_def hot fields cache_merge_def rf_get_all_def rf_new_def Let_def)
qed

lemma full_stack_flushed:
  assumes "flush_l1_to_l2 sample_pc (\<lambda>_. (0, 1, 2)) full_stack quiet_fs = (Inr n, fe, s)"
  shows "flush_ok sample_pc fe s" "view sample_pc fe s = {(Z1Key 0 [1], 3, Some [7]), (Z1Key 0 [4], 2, None)}"
    "(Z1Key 0 [1], 3, Some [7]) \<in> disk_view sample_pc (fe_l2 fe) s \<union> disk_view sample_pc (fe_l3 fe) s"
proof -
  have ok: "flush_ok sample_pc full_stack quiet_fs"
    using empty_stack_ok [of sample_pc quiet_fs]
    by (simp add: full_stack_def flush_ok_def mem_ok_ops empty_stack_def with_l3_def ids_below_def empty_layer_def indexed_paths_def)
  have base: "base_view sample_pc full_stack quiet_fs = {(Z1Key 0 [1], 3, Some [7]), (Z1Key 0 [4], 2, None)}"
    by (auto simp: full_stack_def empty_stack_def with_l3_def empty_layer_def mem_new_def rf_new_def base_view_def mem_insert_def
      pending_view_def disk_view_def layer_contents_def entries_at_def buffer_insert_def stored_of_def entry_put_def
      entry_tombstone_def version_id_def split: if_splits)
  have bd: "unat (fe_next_patch_id full_stack) + length (hot (fe_l1 full_stack)) + length (rf_cache (fe_recent full_stack)) < 2 ^ 64"
    by (simp add: full_stack_def empty_stack_def with_l3_def mem_insert_def mem_new_def buffer_insert_def rf_new_def)
  have "view_single (base_view sample_pc full_stack quiet_fs)" unfolding base by (simp add: view_single_def)
  note f = flush_keeps_base [OF ok sample_pc_ok this bd assms, unfolded base]
  show "flush_ok sample_pc fe s" "view sample_pc fe s = {(Z1Key 0 [1], 3, Some [7]), (Z1Key 0 [4], 2, None)}" using f by auto
  have "cold (fe_l1 fe) = []" using f by (simp add: full_stack_def empty_stack_def with_l3_def mem_new_def mem_insert_def)
  then have "base_view sample_pc fe s = disk_view sample_pc (fe_l2 fe) s \<union> disk_view sample_pc (fe_l3 fe) s"
    using f by (simp add: base_view_def pending_view_def)
  then show "(Z1Key 0 [1], 3, Some [7]) \<in> disk_view sample_pc (fe_l2 fe) s \<union> disk_view sample_pc (fe_l3 fe) s" using f by auto
qed

theorem overwrite_after_flush_is_stale_witness:
  "let (r, fe, s) = flush_l1_to_l2 sample_pc (\<lambda>_. (0, 1, 2)) full_stack quiet_fs;
       e = (sample_active [(3, txn_meta_new 3)])\<lparr>ek_fe := fe\<rparr>;
       (r1, e1, s1) = engine_put sample_env 0 0 [1] [8] 3 e s;
       snap = mgr_snapshot SnapshotLevel ((new_with_config default_visibility_config)\<lparr>committed_history := [(3, 6, 5)], committed_txn := 3\<rparr>)
   in r1 = Inr () \<and> (\<exists>e2. get_at sample_env snap 0 [1] e1 s1 = (Inr (Some [7]), e2, s1))"
proof -
  let ?snap = "mgr_snapshot SnapshotLevel ((new_with_config default_visibility_config)\<lparr>committed_history := [(3, 6, 5)], committed_txn := 3\<rparr>)"
  obtain fe s where fl: "flush_l1_to_l2 sample_pc (\<lambda>_. (0, 1, 2)) full_stack quiet_fs = (Inr 1, fe, s)" "script s = []"
      and async: "mem_sync_level (fe_l1 fe) = Async"
    using full_stack_flush by blast
  let ?e = "(sample_active [(3, txn_meta_new 3)])\<lparr>ek_fe := fe\<rparr>"
  note f = full_stack_flushed [OF fl(1)]
  have env: "en_pc sample_env = sample_pc" "ek_fe ?e = fe" by (simp_all add: sample_env_def)
  have begun: "get_begin_ts 3 (ek_mvcc ?e) \<noteq> None"
    by (simp add: get_begin_ts_def sample_active_def sample_engine_def new_with_config_def)
  obtain r1 e1 s1 where put: "engine_put sample_env 0 0 [1] [8] 3 ?e s = (r1, e1, s1)" by (metis prod.exhaust)
  have r1: "r1 = Inr ()" using put begun async
    by (auto simp: engine_put_def ensure_active_txn_def l1_put_def mem_put_def put_wal_def split: prod.splits option.splits)
  have vis: "is_visible ?snap 3 None" by (subst visible_in_snapshot) (simp_all add: vis_wf_def new_with_config_def)
  have "\<exists>e2. get_at sample_env ?snap 0 [1] e1 s1 = (Inr (Some [7]), e2, s1)"
    by (rule overwrite_after_flush_is_stale [OF _ fl(2) vis _ _ put [unfolded r1]]) (use f in \<open>auto simp: env\<close>)
  then show ?thesis unfolding Let_def fl(1) prod.case put r1 by blast
qed

end
