(* ===== verification/Durability.thy ===== *)
theory Durability
  imports Transactions
begin

section \<open>Durability of transactions\<close>

text \<open>
  The engine, its log, a crash and recovery together: what opening the engine restores to
  memory after a crash, for transactions that committed, did not commit, or had their commit
  refused.
\<close>

subsection \<open>Recovery into the memory store\<close>

text \<open>The writes of one transaction among replayed operations, in order.\<close>

definition writes_of :: "txn_id \<Rightarrow> wal_entry list \<Rightarrow> (z1_key \<times> bytes option) list" where
  "writes_of t ops = List.map_filter (\<lambda>e. if we_txn_id e = t
     then (case we_record e of WalPut cf k v \<Rightarrow> Some (Z1Key cf k, v) | _ \<Rightarrow> None) else None) ops"

abbreviation restored :: "z1_key \<Rightarrow> txn_id \<Rightarrow> bytes option \<Rightarrow> z1_entry" where
  "restored k t v \<equiv> \<lparr>e_key = k, e_txn_id = t, e_value = v, e_ts = 0\<rparr>"

abbreviation replay_into :: "wal_entry list \<Rightarrow> mem_store \<Rightarrow> mem_store" where
  "replay_into ops m \<equiv> fold (\<lambda>op a. snd (replay_apply op a)) ops m"

lemma replay_apply_accepts: "fst (replay_apply op m) = Inr ()"
  by (simp add: replay_apply_def split: wal_record.splits)

lemma replay_apply_ok: "mem_ok m \<Longrightarrow> mem_ok (snd (replay_apply op m))"
  by (simp add: replay_apply_def replay_put_def mem_ok_ops split: wal_record.splits)

lemma replay_into_ok: "mem_ok m \<Longrightarrow> mem_ok (replay_into ops m)"
  by (induction ops arbitrary: m) (simp_all add: replay_apply_ok)

lemma writes_of_snoc:
  "writes_of t (ops @ [e]) = writes_of t ops @ (if we_txn_id e = t
     then (case we_record e of WalPut cf k v \<Rightarrow> [(Z1Key cf k, v)] | _ \<Rightarrow> []) else [])"
  by (simp add: writes_of_def map_filter_def split: wal_record.splits)

lemma writes_of_append: "writes_of t (xs @ ys) = writes_of t xs @ writes_of t ys"
  by (simp add: writes_of_def map_filter_def)

lemma writes_of_other: "\<forall>e \<in> set ops. we_txn_id e \<noteq> t \<Longrightarrow> writes_of t ops = []"
  by (induction ops) (simp_all add: writes_of_def map_filter_simps)

lemma hot_insert:
  "mem_ok m \<Longrightarrow> hm_get (hot (mem_insert e m)) i = (if i = version_id e then Some e else hm_get (hot m) i)"
  by (simp add: mem_insert_def buffer_insert_def mem_ok_def buffer_ok_def map_laws)

text \<open>The last write of a transaction to a key is what memory holds for it.\<close>

lemma replay_into_hot:
  assumes "mem_ok m"
  shows "hm_get (hot (replay_into ops m)) (k, t) =
    (case map_of (rev (writes_of t ops)) k of Some v \<Rightarrow> Some (restored k t v) | None \<Rightarrow> hm_get (hot m) (k, t))"
proof (induction ops rule: rev_induct)
  case Nil
  then show ?case by (simp add: writes_of_def map_filter_def)
next
  case (snoc e ops)
  define m1 where "m1 = replay_into ops m"
  have ok: "mem_ok m1" unfolding m1_def by (rule replay_into_ok [OF assms])
  have step: "replay_into (ops @ [e]) m = snd (replay_apply e m1)" by (simp add: m1_def)
  note IH = snoc.IH [folded m1_def]
  show ?case
  proof (cases "we_record e")
    case (WalPut cf key v)
    let ?x = "restored (Z1Key cf key) (we_txn_id e) v"
    have get: "hm_get (hot (snd (replay_apply e m1))) (k, t) =
        (if k = Z1Key cf key \<and> t = we_txn_id e then Some ?x else hm_get (hot m1) (k, t))"
      using hot_insert [OF ok, of ?x "(k, t)"] by (auto simp: WalPut replay_apply_def replay_put_def version_id_def)
    have last: "map_of (rev (writes_of t (ops @ [e]))) k =
        (if k = Z1Key cf key \<and> t = we_txn_id e then Some v else map_of (rev (writes_of t ops)) k)"
    proof (cases "we_txn_id e = t")
      case True
      then have "writes_of t (ops @ [e]) = writes_of t ops @ [(Z1Key cf key, v)]"
        unfolding writes_of_snoc WalPut by (simp only: if_True wal_record.case simp_thms)
      with True show ?thesis by simp
    next
      case False
      then have "writes_of t (ops @ [e]) = writes_of t ops" unfolding writes_of_snoc WalPut by (simp only: if_False append_Nil2)
      with False show ?thesis by simp
    qed
    show ?thesis
    proof (cases "k = Z1Key cf key \<and> t = we_txn_id e")
      case True
      then show ?thesis unfolding step get last by (simp only: simp_thms if_True option.case)
    next
      case False
      then show ?thesis unfolding step get last IH by (simp only: if_False)
    qed
  qed (use IH in \<open>simp_all only: step writes_of_snoc replay_apply_def [of e] wal_record.case if_cancel append_Nil2 snd_conv\<close>)
qed

lemma live_ops_txn: "e \<in> set (live_ops t log) \<Longrightarrow> we_txn_id e = t"
  by (simp add: live_ops_def)

lemma writes_of_replayed:
  "distinct ts \<Longrightarrow> writes_of t (concat (map (\<lambda>u. live_ops u log) ts)) = (if t \<in> set ts then writes_of t (live_ops t log) else [])"
proof (induction ts)
  case (Cons u ts)
  have "writes_of t (live_ops u log) = []" if "u \<noteq> t"
    by (rule writes_of_other) (use that live_ops_txn in blast)
  with Cons show ?case by (auto simp: writes_of_append)
qed (simp add: writes_of_def map_filter_def)

lemma set_replayed_txns: "t \<in> set (replayed_txns log) \<longleftrightarrow> committed_at t log \<noteq> None \<and> logged t log"
proof -
  have "finite {t. committed_at t log \<noteq> None \<and> logged t log}"
    by (rule finite_subset [of _ "fst ` set (rev (commits_in log))"])
      (auto simp: committed_at_def dest!: map_of_SomeD intro: rev_image_eqI)
  then show ?thesis by (simp add: replayed_txns_def)
qed

subsection \<open>Crash and recovery\<close>

text \<open>What recovery makes of a log, transaction by transaction.\<close>

definition recovered_version :: "wal_entry list \<Rightarrow> txn_id \<Rightarrow> z1_key \<Rightarrow> z1_entry option" where
  "recovered_version log t k =
     (if committed_at t log \<noteq> None \<and> logged t log
      then map_option (restored k t) (map_of (rev (writes_of t (live_ops t log))) k) else None)"

lemma recovered_store:
  assumes "replay_all c s = (Inr log, s1)"
  shows "\<exists>res l1. replay_committed_ops c strict json replay_apply (mem_new n level) counts s = (Inr res, l1, counts, s1) \<and>
    (\<forall>t k. hm_get (hot l1) (k, t) = recovered_version log t k) \<and>
    (\<forall>t. hm_get (rr_commit_ts_map res) t = (if logged t log then committed_at t log else None))"
proof -
  let ?ops = "concat (map (\<lambda>t. live_ops t log) (replayed_txns log))"
  have "\<forall>op a. fst (replay_apply op a) = Inr ()" using replay_apply_accepts by blast
  from recovery_total [OF assms this, of strict json "mem_new n level" counts] obtain res where
    res: "replay_committed_ops c strict json replay_apply (mem_new n level) counts s =
        (Inr res, replay_into ?ops (mem_new n level), counts, s1)"
      "\<forall>t. hm_get (rr_commit_ts_map res) t = (if logged t log then committed_at t log else None)" by blast
  have d: "distinct (replayed_txns log)" by (simp add: replayed_txns_def)
  have "hm_get (hot (replay_into ?ops (mem_new n level))) (k, t) = recovered_version log t k" for t k
    unfolding replay_into_hot [OF mem_ok_ops(1)] writes_of_replayed [OF d] set_replayed_txns recovered_version_def
    by (simp add: mem_new_def split: option.split)
  with res show ?thesis by blast
qed

text \<open>A concrete crash: two transactions wrote the same key, and the first one's commit
  record was appended.\<close>

definition two_puts :: "wal_entry list" where
  "two_puts = take 2 sample_log"

abbreviation two_puts_fs :: fs where
  "two_puts_fs \<equiv> fresh_fs \<lparr>fdata = log_bytes log_codec two_puts, fdurable = []\<rparr>"

abbreviation crashed_fs :: fs where
  "crashed_fs \<equiv> fresh_fs \<lparr>fdata = log_bytes log_codec sample_log, fdurable = log_bytes log_codec sample_log\<rparr>"

lemma log_codec_ok: "codec_ok log_codec"
  by (auto simp: serde_ok_def log_codec_def sample_log_def split: if_splits)

lemma two_puts_run: "wal_run log_codec two_puts 0 (sample_writer (log_bytes log_codec two_puts)) two_puts_fs"
proof -
  let ?p = "\<lparr>we_txn_id = 1, we_record = WalPut 0 [1] (Some [7])\<rparr>" and ?q = "\<lparr>we_txn_id = 2, we_record = WalPut 0 [1] (Some [8])\<rparr>"
  have in_log: "?p \<in> set sample_log" "?q \<in> set sample_log" by (simp_all add: sample_log_def)
  have len: "length (enc log_codec ?p) < 100" using in_log sample_log_encodable by simp
  have seq: "w_seq (sample_writer d) < u64_max" for d by (simp add: word_gt_0)
  have "wal_run log_codec [] 0 (sample_writer []) (fresh_fs \<lparr>fdata = [], fdurable = []\<rparr>)"
    using wal_run.opened [OF open_fresh, of log_codec]
    by (simp add: empty_fs_def sync_each_config_def default_wal_config_def sample_writer_def fresh_writer_def)
  from wal_run.appended [OF this seq sample_log_calls(1) [OF in_log(1)]]
  have "wal_run log_codec [?p] 0 (sample_writer (enc log_codec ?p)) (fresh_fs \<lparr>fdata = enc log_codec ?p, fdurable = []\<rparr>)"
    by simp
  from wal_run.appended [OF this seq sample_log_calls(1) [OF in_log(2) len]] show ?thesis
    by (simp add: two_puts_def sample_log_def)
qed

lemma two_puts_commit:
  "append_durable log_codec 1 (WalCommit 1 5) (sample_writer (log_bytes log_codec two_puts)) two_puts_fs =
     (Inr (), sample_writer (log_bytes log_codec sample_log), crashed_fs)"
proof -
  have in_log: "\<lparr>we_txn_id = 1, we_record = WalCommit 1 5\<rparr> \<in> set sample_log" by (simp add: sample_log_def)
  have "length (log_bytes log_codec two_puts) < 100"
    using sample_log_encodable by (simp add: two_puts_def sample_log_def)
  from sample_log_calls(2) [OF in_log this, of "[]"] show ?thesis by (simp add: two_puts_def sample_log_def)
qed

lemma crashed_fs_crash: "crash_of crashed_fs crashed_fs"
  by (rule crash_of_synced) (simp_all add: fresh_fs_def)

lemma two_puts_facts:
  "logged 1 two_puts" "map_of (rev (writes_of 1 (live_ops 1 two_puts))) (Z1Key 0 [1]) = Some (Some [7])"
  by (simp_all add: logged_def live_ops_def live_tail_def two_puts_def sample_log_def is_put_def writes_of_def map_filter_def)

definition logging_engine :: "(txn_id, txn_meta) hmap \<Rightarrow> z1kv" where
  "logging_engine a = (sample_active a)\<lparr>ek_wal := sample_writer (log_bytes log_codec two_puts)\<rparr>"

lemma logging_engine_fields [simp]:
  "ek_wal (logging_engine a) = sample_writer (log_bytes log_codec two_puts)" "maintenance_off (logging_engine a)"
  "active_txns (ek_mvcc (logging_engine a)) = a" "en_wc sample_env = log_codec"
  "committed_history (ek_mvcc (logging_engine a)) = []"
  by (simp_all add: logging_engine_def sample_active_def sample_engine_def maintenance_off_def sample_env_def new_with_config_def)

lemma sample_policy [simp]: "sync_policy_of sync_each_config = SyncEach"
  by (simp add: sync_policy_of_def sync_each_config_def default_group_commit_config_def)

lemma two_puts_committed:
  "\<exists>e'. engine_commit sample_env (5, 6, 7, 8) 1 (logging_engine [(1, txn_meta_new 1)]) two_puts_fs = (Inr (), e', crashed_fs)"
proof -
  let ?e = "logging_engine [(1, txn_meta_new 1)]"
  have act: "active_txns (ek_mvcc ?e) = [(1, txn_meta_new 1)]" by simp
  then have begun: "get_begin_ts 1 (ek_mvcc ?e) \<noteq> None" by (simp add: get_begin_ts_def)
  have a: "append_durable (en_wc sample_env) 1 (WalCommit 1 5) (ek_wal ?e) two_puts_fs =
      (Inr (), sample_writer (log_bytes log_codec sample_log), crashed_fs)" by (simp add: two_puts_commit)
  obtain r e' s' where com: "engine_commit sample_env (5, 6, 7, 8) 1 ?e two_puts_fs = (r, e', s')" by (metis prod.exhaust)
  have "r = Inr ()" "s' = crashed_fs"
    using engine_commit_cases [OF com begun _ a] commit_alone [OF act, of 5 6 7] by simp_all
  with com show ?thesis by simp
qed



text \<open>A commit record that was reported durable is in the log after a crash and is restored,
  whatever happened to the transaction afterwards.\<close>

abbreviation commit_entry :: "txn_id \<Rightarrow> u64 \<Rightarrow> wal_entry" where
  "commit_entry t ins \<equiv> \<lparr>we_txn_id = t, we_record = WalCommit t ins\<rparr>"

lemma commit_record_logged:
  assumes run: "wal_run c log m w s" and w: "w_seq w < u64_max" "sync_policy_of (w_config w) \<noteq> GroupCommitStrict"
    and app: "append_durable c t (WalCommit t ins) w s = (Inr x, w', s')"
  shows "hm_wf (files s')" "WalDir \<in> set (dirs s')" "\<exists>q. hm_contains (files s') (WalSegment q)"
    "codec_ok c \<Longrightarrow> crash_log s' s'' \<Longrightarrow> replay_all c s'' = (Inr (log @ [commit_entry t ins]), s'')"
proof -
  let ?log = "log @ [commit_entry t ins]"
  have "wal_run c ?log (Suc (length log)) w' s'" using wal_run.committed [OF run w, of t "WalCommit t ins"] app by simp
  then obtain k where k: "Suc (length log) \<le> k" "wal_holds c ?log k w' s'" using wal_run_holds by blast
  then obtain old es j where inv: "wal_inv c old es j w' s'" by (auto simp: wal_holds_def)
  then show "hm_wf (files s')" "WalDir \<in> set (dirs s')" by (simp_all add: wal_inv_def)
  from inv have "{q. hm_contains (files s') (WalSegment q)} = set (map fst old @ [w_seq w'])" by (simp add: wal_inv_def)
  then show "\<exists>q. hm_contains (files s') (WalSegment q)" by (metis (mono_tags) in_set_conv_decomp mem_Collect_eq)
  assume "codec_ok c" "crash_log s' s''"
  from replay_crash_log [OF this(1) k(2) this(2)] obtain i where
    "k \<le> i" "i \<le> length ?log" "replay_all c s'' = (Inr (take i ?log), s'')" by blast
  then show "replay_all c s'' = (Inr ?log, s'')" using k(1) by simp
qed

lemma commit_entry_log:
  "live_ops t (log @ [commit_entry t ins]) = live_ops t log" "logged t (log @ [commit_entry t ins]) = logged t log"
  "committed_at t (log @ [commit_entry t ins]) = Some t"
proof -
  have tail: "live_tail t (log @ [commit_entry t ins]) = live_tail t log @ [commit_entry t ins]" by (simp add: live_tail_snoc)
  show "live_ops t (log @ [commit_entry t ins]) = live_ops t log" "logged t (log @ [commit_entry t ins]) = logged t log"
    unfolding live_ops_def logged_def tail by (auto simp: is_put_def)
  show "committed_at t (log @ [commit_entry t ins]) = Some t" unfolding committed_at_def commits_in_snoc by simp
qed

lemma commit_record_restored:
  assumes codec: "codec_ok c" and run: "wal_run c log m w s" and w: "w_seq w < u64_max"
      "sync_policy_of (w_config w) \<noteq> GroupCommitStrict"
    and app: "append_durable c t (WalCommit t ins) w s = (Inr x, w', s')" and crash: "crash_of s' s''"
    and logged: "logged t log"
  shows "\<exists>res l1. replay_committed_ops c strict json replay_apply (mem_new n level) counts s'' = (Inr res, l1, counts, s'') \<and>
    hm_get (rr_commit_ts_map res) t = Some t \<and>
    (\<forall>k. hm_get (hot l1) (k, t) = map_option (restored k t) (map_of (rev (writes_of t (live_ops t log))) k))"
proof -
  note l = commit_record_logged [OF run w app]
  note rep = l(4) [OF codec crash_of_log [OF crash l(1,2)]]
  from recovered_store [OF rep, of strict json n level counts] logged commit_entry_log [of t log ins] show ?thesis
    unfolding recovered_version_def by auto
qed



text \<open>
  C19. Refused commits come back after a restart. The commit record is made durable before the
  conflict check. When the check refuses the transaction, the caller gets the conflict error
  and the transaction is not in the committed history; yet recovery after a
  crash at that moment restores the transaction as committed, with its writes.
\<close>

theorem refused_commit_restored:
  assumes "codec_ok (en_wc env)" and "wal_run (en_wc env) log m (ek_wal e) s" and "w_seq (ek_wal e) < u64_max"
    and "sync_policy_of (w_config (ek_wal e)) \<noteq> GroupCommitStrict" and "maintenance_off e" and "vis_wf (ek_mvcc e)"
    and "hm_get (active_txns (ek_mvcc e)) t = Some meta" and "ssi_conflict t meta (active_txns (ek_mvcc e))"
    and "append_durable (en_wc env) t (WalCommit t ins) (ek_wal e) s = (Inr x, w, s')"
    and "logged t log" and "crash_of s' s''"
  shows "\<exists>c rw ww e' res l1. engine_commit env (ins, ts, now, nck) t e s = (Inl (MvccConflict (SsiConflict t c rw ww)), e', s') \<and>
    committed_entry t (ek_mvcc e') = None \<and>
    replay_committed_ops (en_wc env) strict json replay_apply (mem_new n level) counts s'' = (Inr res, l1, counts, s'') \<and>
    hm_get (rr_commit_ts_map res) t = Some t \<and>
    (\<forall>k. hm_get (hot l1) (k, t) = map_option (restored k t) (map_of (rev (writes_of t (live_ops t log))) k))"
proof -
  obtain c rw ww where "detect_conflict t meta (active_txns (ek_mvcc e)) = Some (c, rw, ww)"
    using assms(8) detect_conflict_None [of t meta "active_txns (ek_mvcc e)"] by auto
  then have ct: "commit_txn t ins ts now (ek_mvcc e) = (Inl (MvccConflict (SsiConflict t c rw ww)), abort_txn t (ek_mvcc e))"
    using assms(7) by (simp add: commit_txn_cases del: map_of_eq_Some_iff)
  have begun: "get_begin_ts t (ek_mvcc e) \<noteq> None" using assms(7) by (simp add: get_begin_ts_def del: map_of_eq_Some_iff)
  obtain r e' s1 where com: "engine_commit env (ins, ts, now, nck) t e s = (r, e', s1)" by (metis prod.exhaust)
  note cc = engine_commit_cases [OF com begun assms(5) assms(9), unfolded ct]
  have "t \<notin> fst ` set (committed_history (ek_mvcc e))"
    using assms(6,7) unfolding vis_wf_def by (metis disjoint_iff domI dom_map_of_conv_image_fst)
  then have "committed_entry t (ek_mvcc e') = None"
    using cc by (simp add: committed_entry_def abort_txn_def map_of_eq_None_iff)
  with cc com commit_record_restored [OF assms(1-4) assms(9,11,10)] show ?thesis by simp
qed

theorem refused_commit_restored_witness:
  "let k = conflict_key 0 [1];
       e = logging_engine [(1, (txn_meta_new 1)\<lparr>written_keys := [k]\<rparr>), (2, (txn_meta_new 2)\<lparr>written_keys := [k]\<rparr>)]
   in \<exists>err e' res l1. engine_commit sample_env (5, 6, 7, 8) 1 e two_puts_fs = (Inl err, e', crashed_fs) \<and>
     committed_entry 1 (ek_mvcc e') = None \<and>
     replay_committed_ops log_codec True (\<lambda>_ _. []) replay_apply (mem_new 9 Async) [] crashed_fs = (Inr res, l1, [], crashed_fs) \<and>
     hm_get (hot l1) (Z1Key 0 [1], 1) = Some (restored (Z1Key 0 [1]) 1 (Some [7]))"
proof -
  let ?k = "conflict_key 0 [1]"
  let ?a = "[(1, (txn_meta_new 1)\<lparr>written_keys := [?k]\<rparr>), (2, (txn_meta_new 2)\<lparr>written_keys := [?k]\<rparr>)]"
  let ?e = "logging_engine ?a"
  have "vis_wf (ek_mvcc ?e)" by (simp add: vis_wf_def txn_meta_new_def)
  moreover have "hm_get (active_txns (ek_mvcc ?e)) 1 = Some ((txn_meta_new 1)\<lparr>written_keys := [?k]\<rparr>)" by simp
  moreover have "ssi_conflict 1 ((txn_meta_new 1)\<lparr>written_keys := [?k]\<rparr>) (active_txns (ek_mvcc ?e))"
    by (simp add: ssi_conflict_def keys_clash_def)
  moreover have "append_durable (en_wc sample_env) 1 (WalCommit 1 5) (ek_wal ?e) two_puts_fs =
      (Inr (), sample_writer (log_bytes log_codec sample_log), crashed_fs)" by (simp add: two_puts_commit)
  ultimately show ?thesis
    using refused_commit_restored [OF _ _ _ _ _ _ _ _ _ two_puts_facts(1) crashed_fs_crash,
        of sample_env 0 ?e two_puts_fs _ 5 "()" _ 6 7 8 True "\<lambda>_ _. []" 9 Async "[]"] two_puts_run
    unfolding Let_def by (fastforce simp: log_codec_ok word_gt_0 two_puts_facts(2))
qed

end
