(* ===== verification/Reopen.thy ===== *)
theory Reopen
  imports Durability
begin

section \<open>Opening the engine after a crash\<close>

text \<open>
  The whole of \<open>open_with_config\<close> with working I/O: the layers it rebuilds from the
  directories, the history and the memory it recovers from the log, and what the opened
  engine reads. Together with the durability of commits this closes the loop from a commit
  over a crash to a read after the restart.
\<close>

subsection \<open>What opening does to the files\<close>

text \<open>Opening creates directories and the lock file, and nothing else.\<close>

definition prepared :: "fs \<Rightarrow> fs \<Rightarrow> bool" where
  "prepared s s' \<longleftrightarrow> script s' = [] \<and> set (dirs s) \<subseteq> set (dirs s') \<and> (hm_wf (files s) \<longrightarrow> hm_wf (files s')) \<and>
     (\<forall>p. p \<noteq> LockFile \<longrightarrow> hm_get (files s') p = hm_get (files s) p) \<and>
     (hm_get (files s') LockFile = hm_get (files s) LockFile \<or>
      hm_get (files s') LockFile = Some \<lparr>fdata = [], fdurable = []\<rparr>)"

lemma prepared_trans [trans]: "prepared a b \<Longrightarrow> prepared b c \<Longrightarrow> prepared a c"
  by (auto simp: prepared_def simp del: map_of_eq_Some_iff)

lemma prepared_dirs:
  "script s = [] \<Longrightarrow> files s' = files s \<Longrightarrow> script s' = [] \<Longrightarrow> set (dirs s) \<subseteq> set (dirs s') \<Longrightarrow> prepared s s'"
  by (simp add: prepared_def)

lemma create_dir_prepared:
  assumes "script s = []"
  shows "\<exists>s'. sys_create_dir_all d s = (Inr (), s') \<and> prepared s s' \<and> d \<in> set (dirs s')"
proof -
  obtain r s' where d: "sys_create_dir_all d s = (r, s')" by fastforce
  have r: "r = Inr ()" "script s' = []" using d assms by (auto simp: sys_create_dir_all_def)
  with create_dir_Inr [OF d [unfolded r(1)]] d assms show ?thesis by (simp add: prepared_dirs)
qed

lemma prepared_lock:
  assumes "script s = []" "DataDir \<in> set (dirs s)"
  shows "\<exists>s'. lock_acquire False s = (Inr (), True, s') \<and> prepared s s'"
  using assms by (auto simp: lock_acquire_def prepared_def map_laws Let_def split: option.splits)

lemma highest_segment_in:
  "highest_segment ps best = Some q \<Longrightarrow> best = Some q \<or> WalSegment q \<in> set ps"
  by (induction ps best rule: highest_segment.induct) (auto split: option.splits if_splits elim!: segment_seq.elims)

lemma highest_segment_exists: "WalSegment q \<in> set ps \<or> best \<noteq> None \<Longrightarrow> highest_segment ps best \<noteq> None"
  by (induction ps best rule: highest_segment.induct) (auto split: option.splits if_splits)

lemma prepared_wal:
  assumes "script s = []" "hm_contains (files s) (WalSegment q)"
  shows "\<exists>w s'. wal_open engine_wal_config s = (Inr w, s') \<and> prepared s s' \<and> WalDir \<in> set (dirs s')"
proof -
  obtain s1 where 1: "sys_create_dir_all WalDir s = (Inr (), s1)" "prepared s s1" "WalDir \<in> set (dirs s1)"
    using create_dir_prepared [OF assms(1)] by blast
  have f: "files s1 = files s" "script s1 = []"
    using create_dir_Inr(1) [OF 1(1)] 1(2) by (simp_all add: prepared_def)
  have "WalSegment q \<in> set (dir_files WalDir s1)" using assms(2) f by (auto simp: dir_files_def)
  then obtain h where h: "highest_segment (dir_files WalDir s1) None = Some h" using highest_segment_exists by blast
  then have "hm_contains (files s1) (WalSegment h)" using highest_segment_in [OF h] by (auto simp: dir_files_def)
  moreover from this obtain n where "hm_get (files s1) (WalSegment h) = Some n"
    by (metis domD dom_map_of_conv_image_fst)
  ultimately have "open_latest_segment False s1 = (Inr (h, length (fdata n)), s1)"
    using f(2) 1(3) h by (simp add: open_latest_segment_def sys_read_dir_def sys_open_def sys_read_def del: map_of_eq_Some_iff)
  then show ?thesis using 1 by (simp add: wal_open_def cfg_windows_def)
qed

subsection \<open>The layers\<close>

text \<open>The files of the column family directories are patches, with ids below the last one.\<close>

definition clean_layers :: "fs \<Rightarrow> bool" where
  "clean_layers s \<longleftrightarrow> (\<forall>p l cf. hm_contains (files s) p \<longrightarrow> parent_dir p = CfDir l cf \<longrightarrow>
     (\<exists>i. p = PatchFile l cf i \<and> i < u64_max))"

lemma patch_at_prepared: "prepared s s' \<Longrightarrow> p \<noteq> LockFile \<Longrightarrow> patch_at c s' p = patch_at c s p"
  by (simp add: prepared_def patch_at_def)

lemma patches_sorted_prepared:
  assumes "patches_sorted c s" "prepared s s'"
  shows "patches_sorted c s'"
proof -
  have "patch_at c s' p = patch_at c s p \<or> patch_at c s' p = None" for p
  proof (cases "p = LockFile")
    case True
    have "patch_at c s' LockFile = None" if "hm_get (files s') LockFile = Some \<lparr>fdata = [], fdurable = []\<rparr>"
      using that by (simp add: patch_at_def from_disk_bytes_def header_size_def del: map_of_eq_Some_iff)
    moreover have "patch_at c s' LockFile = patch_at c s LockFile" if "hm_get (files s') LockFile = hm_get (files s) LockFile"
      using that by (simp add: patch_at_def)
    moreover have "hm_get (files s') LockFile = hm_get (files s) LockFile \<or>
        hm_get (files s') LockFile = Some \<lparr>fdata = [], fdurable = []\<rparr>"
      using assms(2) unfolding prepared_def by (elim conjE)
    ultimately show ?thesis unfolding True by (elim disjE) (simp_all only: simp_thms)
  qed (use patch_at_prepared [OF assms(2)] in blast)
  with assms(1) show ?thesis unfolding patches_sorted_def by (metis option.distinct(1))
qed

lemma prepared_contains:
  assumes "prepared s s'" "p \<noteq> LockFile"
  shows "hm_contains (files s') p = hm_contains (files s) p"
proof -
  have "hm_get (files s') p = hm_get (files s) p" using assms by (simp add: prepared_def)
  then show ?thesis by (metis map_of_eq_None_iff)
qed

lemma clean_layers_prepared:
  assumes "clean_layers s" "prepared s s'"
  shows "clean_layers s'"
proof -
  have "hm_contains (files s) p" if "hm_contains (files s') p" "parent_dir p = CfDir l cf" for p l cf
  proof -
    have "p \<noteq> LockFile" using that(2) by auto
    with that(1) prepared_contains [OF assms(2)] show ?thesis by simp
  qed
  then show ?thesis using assms(1) unfolding clean_layers_def by (intro allI impI) simp
qed

lemma disk_new_prepared:
  assumes "script s = []" "patches_sorted c s" "disk_new c l s = (d, s')"
  shows "prepared s s'" "dl_content d = []"
proof -
  obtain s1 where 1: "sys_create_dir_all (LayerDir l) s = (Inr (), s1)" "prepared s s1" "LayerDir l \<in> set (dirs s1)"
    using create_dir_prepared [OF assms(1)] by blast
  obtain idx s2 where 2: "rebuild_index c l s1 = (idx, s2)" by fastforce
  have "script s1 = []" using 1(2) by (simp add: prepared_def)
  from rebuild_index_get(1) [OF this 1(3) 2] have "s2 = s1" .
  with assms(3) 1 2 show "prepared s s'" "dl_content d = []" by (auto simp: disk_new_def)
qed

lemma layer_contents_patch:
  assumes "disk_ok c d s" "pe \<in> set (layer_contents c d s cf)"
  shows "\<exists>p es. parent_dir p = CfDir (dl_layer d) cf \<and> patch_at c s p = Some es \<and> pe \<in> set es"
proof (cases "hm_get (dl_index d) cf")
  case None
  with assms(2) show ?thesis by (simp add: layer_contents_def entries_at_def)
next
  case (Some es)
  note ix = disk_ok_index [OF assms(1) Some]
  from assms(2) Some obtain mn mx p where "(mn, mx, p) \<in> set es" "pe \<in> set (unwrap_or [] (patch_at c s p))"
    by (auto simp: layer_contents_def entries_at_def simp del: map_of_eq_Some_iff)
  with ix show ?thesis by (fastforce simp: index_ok_def)
qed

lemma in_map_filter: "y \<in> set (List.map_filter f xs) \<longleftrightarrow> (\<exists>x \<in> set xs. f x = Some y)"
  by (induction xs) (auto simp: map_filter_simps split: option.splits)

lemma new_layer_ids:
  assumes "disk_ok c d s" "dl_content d = []" "clean_layers s"
  shows "ids_below d (Suc (unat (max_patch_id d)))" "max_patch_id d < u64_max"
proof -
  let ?ids = "concat (map (\<lambda>(_, es). List.map_filter (\<lambda>(_, _, p). file_patch_id p) es) (dl_index d))"
  have path: "\<exists>i. p = PatchFile (dl_layer d) cf i \<and> i < u64_max" if "(cf, es) \<in> set (dl_index d)" "(mn, mx, p) \<in> set es" for cf es mn mx p
  proof -
    have "index_ok c s (dl_layer d) cf es" using assms(1) that(1) by (auto simp: disk_ok_def)
    then have "parent_dir p = CfDir (dl_layer d) cf" "patch_at c s p \<noteq> None" using that(2) by (fastforce simp: index_ok_def)+
    with assms(3) show ?thesis unfolding clean_layers_def by (meson not_None_eq patch_at_contains)
  qed
  have ids: "i \<in> set ?ids \<longleftrightarrow> (\<exists>cf es mn mx p. (cf, es) \<in> set (dl_index d) \<and> (mn, mx, p) \<in> set es \<and> file_patch_id p = Some i)" for i
    by (simp add: in_map_filter Bex_def split_paired_Ex)
  have below: "i < u64_max" if "i \<in> set ?ids" for i
    using that path unfolding ids by (metis file_patch_id.simps(1) option.inject)
  show "max_patch_id d < u64_max"
  proof (cases "iter_max ?ids")
    case None
    then show ?thesis unfolding max_patch_id_def by (simp only: unwrap_or_simps) (simp add: word_gt_0)
  next
    case (Some m)
    then have "m \<in> set ?ids" by (simp only: iter_max_Some)
    with below Some show ?thesis unfolding max_patch_id_def by (simp only: unwrap_or_simps)
  qed
  show "ids_below d (Suc (unat (max_patch_id d)))"
    unfolding ids_below_def
  proof
    fix q
    assume "q \<in> layer_paths d"
    then obtain cf es mn mx where q: "(cf, es) \<in> set (dl_index d)" "(mn, mx, q) \<in> set es"
      using assms(2) by (auto simp: indexed_paths_def)
    from path [OF q] obtain i where i: "q = PatchFile (dl_layer d) cf i" by blast
    then have "i \<in> set ?ids" unfolding ids using q by (intro exI conjI) auto
    then have "i \<le> max_patch_id d" unfolding max_patch_id_def by (rule le_unwrap_iter_max)
    then show "\<exists>pid. patch_owner q = Some (dl_layer d, pid) \<and> unat pid < Suc (unat (max_patch_id d))"
      using i by (simp add: word_le_nat_alt)
  qed
qed

subsection \<open>The opened engine\<close>

lemma replay_into_frame: "cold (replay_into ops m) = cold m \<and> snap_buf (replay_into ops m) = snap_buf m"
  by (induction ops arbitrary: m) (simp_all add: replay_apply_def replay_put_def mem_insert_def split: wal_record.splits)

lemma recovered_store_full:
  assumes "replay_all c s = (Inr log, s1)"
  shows "\<exists>res l1. replay_committed_ops c strict json replay_apply (mem_new n level) counts s = (Inr res, l1, counts, s1) \<and>
    mem_ok l1 \<and> cold l1 = [] \<and> snap_buf l1 = [] \<and> (\<forall>t k. hm_get (hot l1) (k, t) = recovered_version log t k) \<and>
    (\<forall>t. hm_contains (rr_commit_ts_map res) t \<longleftrightarrow> committed_at t log \<noteq> None \<and> logged t log) \<and>
    max_seen_committed_txn res = unwrap_or 0 (iter_max (map fst (commits_in log)))"
proof -
  let ?ops = "concat (map (\<lambda>t. live_ops t log) (replayed_txns log))"
  have "\<forall>op a. fst (replay_apply op a) = Inr ()" using replay_apply_accepts by blast
  from recovery_total [OF assms this, of strict json "mem_new n level" counts] obtain res where
    res: "replay_committed_ops c strict json replay_apply (mem_new n level) counts s =
        (Inr res, replay_into ?ops (mem_new n level), counts, s1)"
      "\<forall>t. hm_get (rr_commit_ts_map res) t = (if logged t log then committed_at t log else None)"
      "max_seen_committed_txn res = unwrap_or 0 (iter_max (map fst (commits_in log)))" by blast
  have "hm_contains (rr_commit_ts_map res) t \<longleftrightarrow> committed_at t log \<noteq> None \<and> logged t log" for t
    using res(2) by (metis map_of_eq_None_iff option.distinct(1))
  moreover have "cold (replay_into ?ops (mem_new n level)) = []" "snap_buf (replay_into ?ops (mem_new n level)) = []"
    by (simp_all add: replay_into_frame mem_new_def)
  moreover have "\<forall>t k. hm_get (hot (replay_into ?ops (mem_new n level))) (k, t) = recovered_version log t k"
    using recovered_store [OF assms, of strict json n level counts] res(1) by auto
  ultimately show ?thesis using res(1,3) replay_into_ok [OF mem_ok_ops(1), of ?ops n level] by blast
qed

lemma fold_max_id: "\<forall>p \<in> set h. fst p \<le> c \<Longrightarrow> fold (\<lambda>p c. if fst p > c then fst p else c) h (c :: u64) = c"
  by (induction h) (auto simp: not_less)

text \<open>The manager built from a recovered history.\<close>

abbreviation recovered_manager ::
    "visibility_config \<Rightarrow> (txn_id, u64) hmap \<Rightarrow> (txn_id, u64) hmap \<Rightarrow> u64 \<Rightarrow> u64 \<Rightarrow> txn_id \<Rightarrow> visibility_manager" where
  "recovered_manager cfg h ins now w ctxn \<equiv>
     set_replay_watermark w (recover_committed_history_with_config h None ins now (set_committed_txn ctxn (new_with_config cfg)))"

lemma recovered_manager_facts:
  assumes "\<forall>p \<in> set h. fst p \<le> ctxn"
  shows "active_txns (recovered_manager cfg h ins now w ctxn) = []"
    "committed_txn (recovered_manager cfg h ins now w ctxn) = ctxn"
    "fst ` set (committed_history (recovered_manager cfg h ins now w ctxn)) = fst ` set h"
  using fold_max_id [OF assms]
  by (simp_all add: set_replay_watermark_def recover_committed_history_with_config_def set_committed_txn_def
      new_with_config_def keys_insert_all)

lemma committed_le_max: "committed_at t log \<noteq> None \<Longrightarrow> t \<le> unwrap_or 0 (iter_max (map fst (commits_in log)))"
  unfolding committed_at_def by (rule le_unwrap_iter_max) (force dest: map_of_SomeD)

lemma unatSuc_max: "w < u64_max \<Longrightarrow> unat (w + 1) = Suc (unat w)" for w :: u64
proof -
  assume "w < u64_max"
  then have "1 + w \<noteq> 0" by (metis add.commute add_eq_0_iff less_irrefl)
  from unatSuc [OF this] show ?thesis by (simp only: add.commute)
qed

text \<open>What an opened engine is: every component in its invariant, the memory and the history
  those of the log, the ids ahead of everything committed.\<close>

definition opened_on :: "engine_env \<Rightarrow> wal_entry list \<Rightarrow> z1kv \<Rightarrow> fs \<Rightarrow> bool" where
  "opened_on env log e s \<longleftrightarrow>
     flush_ok (en_pc env) (ek_fe e) s \<and> vis_wf (ek_mvcc e) \<and> active_txns (ek_mvcc e) = [] \<and> ek_cache e = cache_new \<and>
     ek_txn_snapshots e = [] \<and>
     committed_txn (ek_mvcc e) = unwrap_or 0 (iter_max (map fst (commits_in log))) \<and>
     ek_txn_counter e = saturating_add (committed_txn (ek_mvcc e)) 1 \<and>
     (committed_txn (ek_mvcc e) < u64_max \<longrightarrow> ids_ahead e) \<and>
     fe_recent (ek_fe e) = rf_new \<and> cold (fe_l1 (ek_fe e)) = [] \<and> snap_buf (fe_l1 (ek_fe e)) = [] \<and>
     (\<forall>t k. hm_get (hot (fe_l1 (ek_fe e))) (k, t) = recovered_version log t k) \<and>
     (\<forall>t. hm_contains (committed_history (ek_mvcc e)) t \<longleftrightarrow> committed_at t log \<noteq> None \<and> logged t log)"

lemma prepared_baseline:
  assumes "script s = []" "hm_get (files s) LatestPointer = None"
  shows "recovery_baseline c s = (None, s)"
  using assms by (simp add: recovery_baseline_def load_latest_def sys_read_def)

lemma open_succeeds:
  assumes quiet: "script s = []" and wf: "hm_wf (files s)" and clean: "clean_layers s" and sorted: "patches_sorted (en_pc env) s"
    and seg: "hm_contains (files s) (WalSegment q)" and nockpt: "hm_get (files s) LatestPointer = None"
    and replay: "\<And>s'. prepared s s' \<Longrightarrow> WalDir \<in> set (dirs s') \<Longrightarrow> replay_all (en_wc env) s' = (Inr log, s')"
  shows "\<exists>e s'. open_with_config env config now False counts s = (Inr e, True, counts, s') \<and> prepared s s' \<and> opened_on env log e s'"
proof -
  let ?c = "en_pc env"
  have q: "script s' = []" if "prepared s s'" for s' using that by (simp add: prepared_def)
  obtain s1 where 1: "sys_create_dir_all DataDir s = (Inr (), s1)" "prepared s s1" "DataDir \<in> set (dirs s1)"
    using create_dir_prepared [OF quiet] by blast
  obtain s2 where 2: "lock_acquire False s1 = (Inr (), True, s2)" "prepared s s2"
    using prepared_lock [OF q [OF 1(2)] 1(3)] 1(2) prepared_trans by blast
  have "hm_contains (files s2) (WalSegment q)"
    using seg prepared_contains [OF 2(2)] by simp
  then obtain w s3 where 3: "wal_open engine_wal_config s2 = (Inr w, s3)" "prepared s s3" "WalDir \<in> set (dirs s3)"
    using prepared_wal [OF q [OF 2(2)]] prepared_trans [OF 2(2)] by blast
  obtain l2 s4 where 4: "disk_new ?c L2 s3 = (l2, s4)" by fastforce
  note n2 = disk_new_ok(1-4) [OF q [OF 3(2)] patches_sorted_prepared [OF sorted 3(2)] 4]
    disk_new_prepared [OF q [OF 3(2)] patches_sorted_prepared [OF sorted 3(2)] 4]
  have p4: "prepared s s4" using 3(2) n2(5) by (rule prepared_trans)
  obtain l3 s5 where 5: "disk_new ?c L3 s4 = (l3, s5)" by fastforce
  note n3 = disk_new_ok(1-4) [OF q [OF p4] patches_sorted_prepared [OF sorted p4] 5]
    disk_new_prepared [OF q [OF p4] patches_sorted_prepared [OF sorted p4] 5]
  have p5: "prepared s s5" using p4 n3(5) by (rule prepared_trans)
  obtain s6 where 6: "sys_create_dir_all CheckpointDir s5 = (Inr (), s6)" "prepared s5 s6"
    using create_dir_prepared [OF q [OF p5]] by blast
  have p6: "prepared s s6" using p5 6(2) by (rule prepared_trans)
  have base: "recovery_baseline (en_cc env) s6 = (None, s6)"
    by (rule prepared_baseline [OF q [OF p6]]) (use p6 nockpt in \<open>simp add: prepared_def\<close>)
  have "WalDir \<in> set (dirs s6)" using 3(3) n2(5) n3(5) 6(2) by (auto simp: prepared_def)
  note rep = replay [OF p6 this]
  from recovered_store_full [OF rep, of "strict_mode config" "en_json env" 67108864 Async counts] obtain res l1 where
    r: "replay_committed_ops (en_wc env) (strict_mode config) (en_json env) replay_apply (mem_new 67108864 Async) counts s6 =
        (Inr res, l1, counts, s6)"
      "mem_ok l1" "cold l1 = []" "snap_buf l1 = []" "\<forall>t k. hm_get (hot l1) (k, t) = recovered_version log t k"
      "\<forall>t. hm_contains (rr_commit_ts_map res) t \<longleftrightarrow> committed_at t log \<noteq> None \<and> logged t log"
      "max_seen_committed_txn res = unwrap_or 0 (iter_max (map fst (commits_in log)))" by blast
  define h where "h = fold (\<lambda>p. hm_insert (fst p) (snd p)) (rr_commit_ts_map res) []"
  define ctxn where "ctxn = max_seen_committed_txn res"
  define e where "e = \<lparr>ek_config = config, ek_wal = w,
    ek_mvcc = recovered_manager (visibility config) h (rr_inserted_at_map res) now (rr_replay_watermark res) ctxn,
    ek_cache = cache_new, ek_txn_snapshots = [],
    ek_fe = with_l3 l1 l2 l3 rf_new 0 (max (max_patch_id l2) (max_patch_id l3) + 1), ek_txn_counter = saturating_add ctxn 1\<rparr>"
  have "max 0 x = x" for x :: u64 by (simp add: max_def)
  then have "open_with_config env config now False counts s = (Inr e, True, counts, s6)"
    by (simp add: open_with_config_def 1(1) 2(1) 3(1) 4 5 ckpt_new_def 6(1) base r(1) Let_def e_def h_def ctxn_def)
  moreover have "opened_on env log e s6"
  proof -
    have keys: "fst ` set h = fst ` set (rr_commit_ts_map res)" by (simp add: h_def keys_insert_all)
    have "\<forall>p \<in> set h. fst p \<le> ctxn"
    proof
      fix p
      assume "p \<in> set h"
      then have "fst p \<in> fst ` set (rr_commit_ts_map res)" using keys by blast
      then show "fst p \<le> ctxn" using r(6,7) committed_le_max by (simp add: ctxn_def)
    qed
    note m = recovered_manager_facts [OF this]
    have files: "files s6 = files s5" "files s5 = files s4" using create_dir_Inr(1) [OF 6(1)] n3(3) by simp_all
    have d2: "disk_ok ?c l2 s6" "disk_ok ?c l3 s6"
      using disk_ok_cong(1) [OF n2(1), of s6] disk_ok_cong(1) [OF n3(1), of s6] by (simp_all add: files)
    let ?n = "max (max_patch_id l2) (max_patch_id l3) + 1"
    note i2 = new_layer_ids [OF n2(1,6) clean_layers_prepared [OF clean p4]]
    note i3 = new_layer_ids [OF n3(1,6) clean_layers_prepared [OF clean p5]]
    have "unat ?n = Suc (unat (max (max_patch_id l2) (max_patch_id l3)))"
      using i2(2) i3(2) by (intro unatSuc_max) (auto simp: max_def)
    then have "Suc (unat (max_patch_id l2)) \<le> unat ?n" "Suc (unat (max_patch_id l3)) \<le> unat ?n"
      by (simp_all add: max_def word_le_nat_alt)
    with i2(1) i3(1) have ids: "ids_below l2 (unat ?n)" "ids_below l3 (unat ?n)" by (blast intro: ids_below_mono)+
    have "flush_ok ?c (ek_fe e) s6"
      using r(2) d2 ids n2(2) n3(2) rf_ok_ops(1) by (simp add: e_def with_l3_def flush_ok_def)
    moreover have "committed_txn (ek_mvcc e) < u64_max \<longrightarrow> ids_ahead e"
      using m(1,2) u64_less_succ [of ctxn] by (simp add: e_def ids_ahead_def saturating_add_def)
    ultimately show ?thesis
      using m vis_wf_recovered r(3-7) keys ctxn_def by (simp add: opened_on_def e_def with_l3_def)
  qed
  ultimately show ?thesis using p6 by blast
qed

subsection \<open>Reading after a restart\<close>

lemma opened_view:
  assumes "opened_on env log e s" "(k, u, x) \<in> view (en_pc env) (ek_fe e) s"
  shows "recovered_version log u k = Some (restored k u x) \<or>
    (k, u, x) \<in> disk_view (en_pc env) (fe_l2 (ek_fe e)) s \<union> disk_view (en_pc env) (fe_l3 (ek_fe e)) s"
proof -
  have o: "mem_ok (fe_l1 (ek_fe e))" "mem_versions (fe_l1 (ek_fe e)) = buffer_versions (hot (fe_l1 (ek_fe e)))"
      "fe_recent (ek_fe e) = rf_new" "\<forall>t k. hm_get (hot (fe_l1 (ek_fe e))) (k, t) = recovered_version log t k"
    using assms(1) by (simp_all add: opened_on_def flush_ok_def mem_versions_def)
  consider z where "z \<in> buffer_versions (hot (fe_l1 (ek_fe e)))" "stored_of z = (k, u, x)"
    | "(k, u, x) \<in> disk_view (en_pc env) (fe_l2 (ek_fe e)) s \<union> disk_view (en_pc env) (fe_l3 (ek_fe e)) s"
  proof -
    have "rf_versions rf_new = {}" by (simp add: rf_new_def)
    with assms(2) that show thesis unfolding view_layers o(2,3) by (metis (no_types, lifting) UnE Un_iff empty_iff image_empty imageE)
  qed
  then show ?thesis
  proof cases
    case 1
    then have "hm_get (hot (fe_l1 (ek_fe e))) (k, u) = Some z"
      using o(1) by (auto simp: mem_ok_def buffer_ok_def version_id_def stored_of_def bt_wf_distinct)
    with o(4) have "recovered_version log u k = Some z" by simp
    moreover from this obtain y where "z = restored k u y" by (auto simp: recovered_version_def split: if_splits)
    with 1(2) have "z = restored k u x" by (simp add: stored_of_def)
    ultimately show ?thesis by simp
  qed simp
qed

lemma opened_reads:
  assumes o: "opened_on env log e s" and quiet: "script s = []"
    and mine: "recovered_version log t (Z1Key cf key) = Some (restored (Z1Key cf key) t v)"
    and newest: "\<forall>u. recovered_version log u (Z1Key cf key) \<noteq> None \<longrightarrow> u \<le> t"
    and disk: "\<forall>u x. (Z1Key cf key, u, x) \<in> disk_view (en_pc env) (fe_l2 (ek_fe e)) s \<union> disk_view (en_pc env) (fe_l3 (ek_fe e)) s \<longrightarrow> u < t"
  shows "\<exists>e'. engine_get env cf key e s = (Inr v, e', s)"
proof (rule engine_get_newest)
  let ?k = "Z1Key cf key" and ?l1 = "fe_l1 (ek_fe e)"
  show "flush_ok (en_pc env) (ek_fe e) s" "vis_wf (ek_mvcc e)" using o by (simp_all add: opened_on_def)
  show "cache_current (ek_mvcc e) (ek_cache e)" using o by (simp add: opened_on_def)
  have "committed_at t log \<noteq> None \<and> logged t log" using mine by (simp add: recovered_version_def split: if_splits)
  then show "hm_contains (committed_history (ek_mvcc e)) t" using o by (simp add: opened_on_def)
  have "hm_get (hot ?l1) (?k, t) = Some (restored ?k t v)" using o mine by (simp add: opened_on_def)
  then have "restored ?k t v \<in> mem_versions ?l1" by (force simp: mem_versions_def dest: map_of_SomeD)
  then have "stored_of (restored ?k t v) \<in> view (en_pc env) (ek_fe e) s" unfolding view_layers by blast
  then show "(?k, t, v) \<in> view (en_pc env) (ek_fe e) s" by (simp add: stored_of_def)
  show "\<forall>u x. (?k, u, x) \<in> view (en_pc env) (ek_fe e) s \<longrightarrow> u < t \<or> (u = t \<and> x = v)"
  proof (intro allI impI)
    fix u x
    assume "(?k, u, x) \<in> view (en_pc env) (ek_fe e) s"
    from opened_view [OF o this] show "u < t \<or> (u = t \<and> x = v)"
    proof
      assume r: "recovered_version log u ?k = Some (restored ?k u x)"
      with newest have "u \<le> t" by blast
      moreover have "x = v" if "u = t" using r mine that by simp
      ultimately show ?thesis by auto
    qed (use disk in blast)
  qed
qed (rule quiet)

lemma reopen_after_commit:
  assumes codec: "codec_ok (en_wc env)" and run: "wal_run (en_wc env) log m (ek_wal e) s" and seq: "w_seq (ek_wal e) < u64_max"
    and policy: "sync_policy_of (w_config (ek_wal e)) \<noteq> GroupCommitStrict" and off: "maintenance_off e"
    and commit: "engine_commit env (ins, ts, now, nck) t e s = (Inr (), e', s')" and crash: "crash_of s' s''"
    and clean: "clean_layers s''" and sorted: "patches_sorted (en_pc env) s''"
    and nockpt: "hm_get (files s'') LatestPointer = None"
  shows "\<exists>e1 s1. open_with_config env config clock False counts s'' = (Inr e1, True, counts, s1) \<and> prepared s'' s1 \<and>
    opened_on env (log @ [commit_entry t ins]) e1 s1"
proof -
  let ?log = "log @ [commit_entry t ins]"
  from engine_commit_Inr [OF commit] obtain x w sx where c: "get_begin_ts t (ek_mvcc e) \<noteq> None"
    and a: "append_durable (en_wc env) t (WalCommit t ins) (ek_wal e) s = (Inr x, w, sx)" by blast
  have "s' = sx" using engine_commit_cases [OF commit c off a] by blast
  note l = commit_record_logged [OF run seq policy a [folded this]]
  note cl = crash_of_log [OF crash l(1,2)]
  have "\<exists>q. hm_contains (files s'') (WalSegment q)" using cl l(3) by (auto simp: crash_log_def)
  then obtain q where q: "hm_contains (files s'') (WalSegment q)" by blast
  have replay: "replay_all (en_wc env) sp = (Inr ?log, sp)" if "prepared s'' sp" "WalDir \<in> set (dirs sp)" for sp
  proof (rule l(4) [OF codec])
    show "crash_log s' sp"
      using cl that prepared_contains [OF that(1)] unfolding crash_log_def prepared_def
      by (simp del: map_of_eq_Some_iff)
  qed
  have quiet: "script s'' = []" "hm_wf (files s'')" using cl by (simp_all add: crash_log_def)
  from open_succeeds [OF quiet clean sorted q nockpt replay] show ?thesis by blast
qed

lemma crashed_no_patch: "patch_at (en_pc sample_env) crashed_fs p = None"
proof -
  have one: "u32_to_le 1 = [1, 0, 0, 0]" by code_simp
  show ?thesis
    by (simp add: one patch_at_def fresh_fs_def from_disk_bytes_def sample_log_def enc_def encode_record_def log_codec_def
        max_wal_record_len_def patch_v4_def)
qed

text \<open>The example: the transaction of \<open>sample_log\<close> commits, the machine crashes, the engine is
  opened again.\<close>

lemma sample_reopened:
  "\<exists>e s. open_with_config sample_env config clock False counts crashed_fs = (Inr e, True, counts, s) \<and> prepared crashed_fs s \<and>
     opened_on sample_env sample_log e s"
proof -
  obtain e' where com: "engine_commit sample_env (5, 6, 7, 8) 1 (logging_engine [(1, txn_meta_new 1)]) two_puts_fs =
      (Inr (), e', crashed_fs)" using two_puts_committed by blast
  have log: "two_puts @ [commit_entry 1 5] = sample_log" by (simp add: two_puts_def sample_log_def)
  have "\<exists>e s. open_with_config sample_env config clock False counts crashed_fs = (Inr e, True, counts, s) \<and> prepared crashed_fs s \<and>
      opened_on sample_env (two_puts @ [commit_entry 1 5]) e s"
    by (rule reopen_after_commit [OF _ _ _ _ _ com crashed_fs_crash])
      (use two_puts_run crashed_no_patch in \<open>simp_all add: log_codec_ok word_gt_0 clean_layers_def patches_sorted_def fresh_fs_def\<close>)
  then show ?thesis unfolding log .
qed



end
