(* ===== verification/Sessions.thy ===== *)
theory Sessions
  imports Reopen
begin

section \<open>Sessions of the engine\<close>

text \<open>
  Sequences of calls on an opened engine, under every pattern of I/O errors: the operations
  as data, their execution, the states that occur, and an invariant that ties the
  visibility manager, the snapshot cache, the pinned snapshots and the id counter together.
\<close>

datatype engine_op =
    EBegin
  | EPut u64 u16 bytes bytes txn_id
  | EDelete u64 u16 bytes txn_id
  | EGet u16 bytes
  | EGetTxn u16 bytes txn_id
  | EScan u16 bytes "bytes option"
  | ECommit "u64 \<times> u64 \<times> u64 \<times> u64" txn_id
  | ERollback txn_id
  | EFlush
  | EFlushNow
  | ECompact txn_id
  | ECheckpoint u64

fun engine_exec :: "engine_env \<Rightarrow> engine_op \<Rightarrow> z1kv \<times> fs \<Rightarrow> z1kv \<times> fs" where
  "engine_exec env EBegin (e, s) = (snd (begin_txn e), s)"
| "engine_exec env (EPut now cf k v t) (e, s) = snd (engine_put env now cf k v t e s)"
| "engine_exec env (EDelete now cf k t) (e, s) = snd (engine_delete env now cf k t e s)"
| "engine_exec env (EGet cf k) (e, s) = snd (engine_get env cf k e s)"
| "engine_exec env (EGetTxn cf k t) (e, s) = snd (get_for_txn env cf k t e s)"
| "engine_exec env (EScan cf a b) (e, s) = snd (engine_scan env cf a b e s)"
| "engine_exec env (ECommit clock t) (e, s) = snd (engine_commit env clock t e s)"
| "engine_exec env (ERollback t) (e, s) = snd (engine_rollback env t e s)"
| "engine_exec env EFlush (e, s) = snd (engine_flush env e s)"
| "engine_exec env EFlushNow (e, s) = snd (flush_now env e s)"
| "engine_exec env (ECompact w) (e, s) = snd (engine_compact env w e s)"
| "engine_exec env (ECheckpoint now) (e, s) = snd (engine_checkpoint env now e s)"

inductive engine_reachable :: "engine_env \<Rightarrow> z1kv \<Rightarrow> fs \<Rightarrow> bool" for env where
  opened: "open_with_config env config now held counts s0 = (Inr e, held', counts', s) \<Longrightarrow>
    committed_txn (ek_mvcc e) < ek_txn_counter e \<Longrightarrow> engine_reachable env e s"
| called: "engine_reachable env e s \<Longrightarrow> engine_exec env op (e, s) = (e', s') \<Longrightarrow> engine_reachable env e' s'"
| faults: "engine_reachable env e s \<Longrightarrow> engine_reachable env e (s\<lparr>script := x, mono_clock := c\<rparr>)"

subsection \<open>What the operations leave alone\<close>

definition same_txns :: "z1kv \<Rightarrow> z1kv \<Rightarrow> bool" where
  "same_txns e e' \<longleftrightarrow> ek_mvcc e' = ek_mvcc e \<and> ek_cache e' = ek_cache e \<and> ek_txn_snapshots e' = ek_txn_snapshots e \<and>
     ek_txn_counter e' = ek_txn_counter e"

lemma same_txns_refl [simp]: "same_txns e e"
  by (simp add: same_txns_def)

lemma same_txns_trans: "same_txns a b \<Longrightarrow> same_txns b c \<Longrightarrow> same_txns a c"
  by (simp add: same_txns_def)

lemma same_txns_fields [simp]:
  "same_txns e (e'\<lparr>ek_fe := fe\<rparr>) = same_txns e e'" "same_txns e (e'\<lparr>ek_wal := w\<rparr>) = same_txns e e'"
  by (simp_all add: same_txns_def)

lemma same_txns_get_at: "get_at env snap cf k e s = (r, e', s') \<Longrightarrow> same_txns e e'"
  by (auto simp: get_at_def Let_def split: prod.splits sum.splits)

lemma same_txns_scan_at: "scan_at env snap cf a b e s = (r, e', s') \<Longrightarrow> same_txns e e'"
  by (auto simp: scan_at_def Let_def split: prod.splits sum.splits)

lemma same_txns_l1_put: "l1_put env x e s = (r, e', s') \<Longrightarrow> same_txns e e'"
  by (auto simp: l1_put_def split: prod.splits)

lemma same_txns_flush:
  "engine_flush env e s = (r, e', s') \<Longrightarrow> same_txns e e'" "flush_now env e s = (r', e', s') \<Longrightarrow> same_txns e e'"
  "engine_compact env w e s = (r'', e', s') \<Longrightarrow> same_txns e e'"
  by (auto simp: engine_flush_def flush_now_def engine_compact_def split: prod.splits)

lemma same_txns_checkpoint:
  assumes "engine_checkpoint env now e s = (r, e', s')"
  shows "same_txns e e'"
proof -
  obtain r1 fe s1 where 1: "flush_l1_to_l2 (en_pc env) (en_uuids env) (ek_fe e) s = (r1, fe, s1)" by (metis prod.exhaust)
  obtain r2 w s2 where 2: "flush_and_sync (en_wc env) (ek_wal e) s1 = (r2, w, s2)" by (metis prod.exhaust)
  from assms show ?thesis unfolding engine_checkpoint_def Let_def 1
    by (cases r1; cases r2) (auto simp: 2 split: prod.splits)
qed

lemma same_txns_maintain:
  assumes "maybe_auto_maintain env now e s = (r, e', s')"
  shows "same_txns e e'"
proof -
  obtain r1 e1 s1 where 1: "(if checkpoint_wal_size_threshold (ek_config e) > 0 then
      (case wal_size_bytes (ek_wal e) s of
         (n, s1) \<Rightarrow> if n \<ge> unat (checkpoint_wal_size_threshold (ek_config e))
                     then engine_checkpoint env now e s1 else (Inr (), e, s1))
      else (Inr (), e, s)) = (r1, e1, s1)" by (rule prod_cases3)
  then have "same_txns e e1" by (auto split: if_splits prod.splits dest: same_txns_checkpoint)
  moreover have "same_txns e1 e'"
    using assms unfolding maybe_auto_maintain_def 1 by (auto split: sum.splits if_splits prod.splits)
  ultimately show ?thesis by (rule same_txns_trans)
qed

subsection \<open>The invariant\<close>

text \<open>Every pinned snapshot belongs to an active transaction; the transactions it has commit
  timestamps for have ids already given out and none of them is active.\<close>

definition pinned_ok :: "z1kv \<Rightarrow> bool" where
  "pinned_ok e \<longleftrightarrow> fst ` set (ek_txn_snapshots e) = fst ` set (active_txns (ek_mvcc e)) \<and>
     (\<forall>(t, snap) \<in> set (ek_txn_snapshots e). \<forall>u \<in> fst ` set (commit_ts_map snap).
        u < ek_txn_counter e \<and> \<not> hm_contains (active_txns (ek_mvcc e)) u)"

definition session_ok :: "z1kv \<Rightarrow> bool" where
  "session_ok e \<longleftrightarrow> vis_wf (ek_mvcc e) \<and> ids_ahead e \<and> hm_wf (ek_txn_snapshots e) \<and> pinned_ok e \<and>
     cache_current (ek_mvcc e) (ek_cache e)"

lemma session_ok_same: "same_txns e e' \<Longrightarrow> session_ok e' = session_ok e"
  by (simp add: same_txns_def session_ok_def ids_ahead_def pinned_ok_def)

text \<open>Recording reads and writes changes neither the active set nor what snapshots see.\<close>

lemma record_keys:
  "fst ` set (active_txns (record_write t k m)) = fst ` set (active_txns m)"
  "fst ` set (active_txns (record_read t k m)) = fst ` set (active_txns m)"
proof -
  have "t \<in> fst ` set (active_txns m)" if "hm_get (active_txns m) t = Some x" for x
    using that by (metis domI dom_map_of_conv_image_fst)
  then show "fst ` set (active_txns (record_write t k m)) = fst ` set (active_txns m)"
    "fst ` set (active_txns (record_read t k m)) = fst ` set (active_txns m)"
    by (auto simp: record_write_def record_read_def keys_hm_insert insert_absorb simp del: map_of_eq_Some_iff split: option.splits)
qed

lemma mgr_snapshot_cong:
  "fst ` set (active_txns m') = fst ` set (active_txns m) \<Longrightarrow> committed_history m' = committed_history m \<Longrightarrow>
   committed_txn m' = committed_txn m \<Longrightarrow> mgr_snapshot l m' = mgr_snapshot l m"
  by (simp add: mgr_snapshot_def snapshot_with_commit_ts_map_def)

lemma record_frame:
  "committed_history (record_read t k m) = committed_history m"
  "committed_txn (record_write t k m) = committed_txn m" "committed_txn (record_read t k m) = committed_txn m"
  by (simp_all add: record_write_def record_read_def split: option.splits)

lemma session_ok_recorded:
  assumes "session_ok e" "vis_wf m" "fst ` set (active_txns m) = fst ` set (active_txns (ek_mvcc e))"
    "committed_history m = committed_history (ek_mvcc e)" "committed_txn m = committed_txn (ek_mvcc e)"
  shows "session_ok (e\<lparr>ek_mvcc := m\<rparr>)"
  using assms(1,2) unfolding session_ok_def ids_ahead_def pinned_ok_def cache_current_def
  by (simp add: assms(3-5) mgr_snapshot_cong [OF assms(3-5)])

lemma session_ok_record:
  assumes "session_ok e"
  shows "session_ok (e\<lparr>ek_mvcc := record_write t k (ek_mvcc e)\<rparr>)" "session_ok (e\<lparr>ek_mvcc := record_read t k (ek_mvcc e)\<rparr>)"
proof -
  have wf: "vis_wf (ek_mvcc e)" using assms by (simp add: session_ok_def)
  show "session_ok (e\<lparr>ek_mvcc := record_write t k (ek_mvcc e)\<rparr>)" "session_ok (e\<lparr>ek_mvcc := record_read t k (ek_mvcc e)\<rparr>)"
    by (rule session_ok_recorded [OF assms]; simp add: vis_wf_record_write [OF wf] vis_wf_record_read [OF wf] record_keys record_frame)+
qed

lemma session_ok_cache:
  assumes "session_ok e" "cache_snapshot (ek_mvcc e) (ek_cache e) = (snap, c)"
  shows "session_ok (e\<lparr>ek_cache := c\<rparr>)"
  using assms(1) cache_snapshot_current(2) [OF _ assms(2)] by (simp add: session_ok_def ids_ahead_def pinned_ok_def)

text \<open>A transaction that ends leaves the active set and the pinned snapshots together.\<close>

lemma keys_hm_remove: "fst ` set (hm_remove t m) = fst ` set m - {t}"
  by (auto simp: set_hm_remove)

lemma pinned_ok_ended:
  assumes "pinned_ok e" "active_txns m = hm_remove t (active_txns (ek_mvcc e))"
  shows "pinned_ok (e\<lparr>ek_mvcc := m, ek_cache := c, ek_txn_snapshots := hm_remove t (ek_txn_snapshots e)\<rparr>)"
proof -
  have a: "fst ` set (active_txns m) = fst ` set (active_txns (ek_mvcc e)) - {t}" unfolding assms(2) by (rule keys_hm_remove)
  have s: "fst ` set (hm_remove t (ek_txn_snapshots e)) = fst ` set (active_txns m)"
    using assms(1) unfolding pinned_ok_def a keys_hm_remove by simp
  have "\<forall>(t', snap) \<in> set (hm_remove t (ek_txn_snapshots e)). \<forall>u \<in> fst ` set (commit_ts_map snap).
      u < ek_txn_counter e \<and> u \<notin> fst ` set (active_txns m)"
    unfolding split_beta
  proof (intro ballI)
    fix x u
    assume x: "x \<in> set (hm_remove t (ek_txn_snapshots e))" and u: "u \<in> fst ` set (commit_ts_map (snd x))"
    have "x \<in> set (ek_txn_snapshots e)" using x by (simp add: set_hm_remove)
    with assms(1) u have "u < ek_txn_counter e \<and> \<not> hm_contains (active_txns (ek_mvcc e)) u"
      unfolding pinned_ok_def split_beta by blast
    then show "u < ek_txn_counter e \<and> u \<notin> fst ` set (active_txns m)" unfolding a by blast
  qed
  with s show ?thesis by (simp add: pinned_ok_def)
qed

lemma same_reads_trans: "same_reads a b \<Longrightarrow> same_reads b c \<Longrightarrow> same_reads a c"
  unfolding same_reads_def by (elim conjE, intro conjI) (simp_all only:)

lemma session_ok_abort:
  assumes "session_ok e" "c = ek_cache e \<or> c = cache_invalidate (ek_cache e)"
  shows "session_ok (e\<lparr>ek_mvcc := abort_txn t (ek_mvcc e), ek_cache := c, ek_txn_snapshots := hm_remove t (ek_txn_snapshots e)\<rparr>)"
proof -
  let ?m = "ek_mvcc e"
  have wf: "vis_wf ?m" "vis_wf (abort_txn t ?m)" using assms(1) by (simp_all add: session_ok_def vis_wf_abort)
  have reads: "same_reads (mgr_snapshot SnapshotLevel ?m) (mgr_snapshot SnapshotLevel (abort_txn t ?m))"
  proof -
    have "fst ` set (active_txns ?m) \<inter> fst ` set (committed_history ?m) = {}"
      "fst ` set (active_txns (abort_txn t ?m)) \<inter> fst ` set (committed_history ?m) = {}"
      using wf by (simp_all add: vis_wf_def abort_txn_def)
    moreover have "fst ` set (map (\<lambda>(k, ts, _). (k, ts)) h) = fst ` set h" for h :: "(txn_id, u64 \<times> u64) hmap" by force
    ultimately show ?thesis
      by (simp add: same_reads_def commit_ts_map_snapshot)
        (simp add: mgr_snapshot_def snapshot_with_commit_ts_map_def txn_snapshot_new_def abort_txn_def Let_def)
  qed
  have "cache_current (abort_txn t ?m) c"
    using assms
  proof (elim disjE)
    assume "c = ek_cache e"
    moreover have "cache_current ?m (ek_cache e)" using assms(1) by (simp add: session_ok_def)
    ultimately show ?thesis unfolding cache_current_def using same_reads_trans [OF _ reads] by blast
  qed simp
  moreover have "pinned_ok (e\<lparr>ek_mvcc := abort_txn t ?m, ek_cache := c, ek_txn_snapshots := hm_remove t (ek_txn_snapshots e)\<rparr>)"
    by (rule pinned_ok_ended) (use assms(1) in \<open>simp_all add: session_ok_def abort_txn_def\<close>)
  ultimately show ?thesis
    using assms(1) wf(2) by (simp add: session_ok_def ids_ahead_def abort_txn_def keys_hm_remove map_laws) auto
qed

text \<open>The same for a transaction that commits: its id was given out already, and the cache is
  invalidated.\<close>

lemma session_ok_commit:
  assumes "session_ok e" "get_begin_ts t (ek_mvcc e) \<noteq> None"
  shows "session_ok (e\<lparr>ek_mvcc := commit_state t ins ts now (ek_mvcc e), ek_cache := cache_invalidate (ek_cache e),
    ek_txn_snapshots := hm_remove t (ek_txn_snapshots e)\<rparr>)"
proof -
  let ?m = "ek_mvcc e"
  have ok: "vis_wf ?m" "ids_ahead e" "hm_wf (ek_txn_snapshots e)" "pinned_ok e" using assms(1) by (simp_all add: session_ok_def)
  have "t \<in> fst ` set (active_txns ?m)"
    using assms(2) unfolding get_begin_ts_def by (metis map_of_eq_None_iff option.map_disc_iff)
  with ok(2) have "max t (committed_txn ?m) < ek_txn_counter e" unfolding ids_ahead_def by (metis max_def)
  moreover have "\<forall>u \<in> fst ` set (hm_remove t (active_txns ?m)). u < ek_txn_counter e"
    using ok(2) unfolding keys_hm_remove ids_ahead_def by blast
  ultimately show ?thesis
    using pinned_ok_ended [OF ok(4), of "commit_state t ins ts now ?m"] vis_wf_commit_state [OF ok(1)] ok(3)
    by (simp add: session_ok_def ids_ahead_def map_laws)
qed

lemma set_hm_insert_cases: "x \<in> set (hm_insert k v m) \<Longrightarrow> x = (k, v) \<or> x \<in> set m"
  unfolding hm_insert_def by (induction m) (auto split: if_splits)

text \<open>A new transaction pins the history there is, which holds only ids given out before.\<close>

lemma pinned_ok_begin:
  assumes ok: "session_ok e" and n: "ek_txn_counter e \<noteq> u64_max" and b: "begin_txn e = (r, e')"
  shows "pinned_ok e'" "hm_wf (ek_txn_snapshots e')"
proof -
  let ?t = "ek_txn_counter e" and ?m = "ek_mvcc e"
  let ?m' = "?m\<lparr>active_txns := hm_insert ?t (txn_meta_new ?t) (active_txns ?m)\<rparr>"
  let ?snap = "mgr_snapshot SnapshotLevel ?m'"
  have o: "vis_wf ?m" "ids_ahead e" "hm_wf (ek_txn_snapshots e)" "pinned_ok e" using ok by (simp_all add: session_ok_def)
  have e': "ek_mvcc e' = ?m'" "ek_txn_counter e' = ?t + 1" "ek_txn_snapshots e' = hm_insert ?t ?snap (ek_txn_snapshots e)"
    using b begin_txn_eq [OF o(2) n] by (auto simp: Let_def)
  show "hm_wf (ek_txn_snapshots e')" unfolding e'(3) using o(3) by (simp add: map_laws)
  have lt: "?t < ?t + 1" using n by (intro u64_less_succ) (simp add: order.not_eq_order_implies_strict word_order.extremum)
  have act: "fst ` set (active_txns (ek_mvcc e')) = insert ?t (fst ` set (active_txns ?m))"
    unfolding e'(1) by (simp add: keys_hm_insert)
  have hist: "fst ` set (commit_ts_map ?snap) = fst ` set (committed_history ?m)"
    by (simp add: commit_ts_map_snapshot) force
  have given: "u < ?t \<and> u \<notin> fst ` set (active_txns ?m)"
    if "x \<in> set (hm_insert ?t ?snap (ek_txn_snapshots e))" "u \<in> fst ` set (commit_ts_map (snd x))" for x u
  proof -
    have "x = (?t, ?snap) \<or> x \<in> set (ek_txn_snapshots e)" using that(1) set_hm_insert_cases by fast
    then show ?thesis
    proof
      assume "x = (?t, ?snap)"
      then have u: "u \<in> fst ` set (committed_history ?m)" using that(2) hist by simp
      with o(1) have "u \<le> committed_txn ?m" "u \<notin> fst ` set (active_txns ?m)" by (auto simp: vis_wf_def)
      with o(2) show ?thesis by (auto simp: ids_ahead_def)
    next
      assume "x \<in> set (ek_txn_snapshots e)"
      with o(4) that(2) show ?thesis unfolding pinned_ok_def split_beta by blast
    qed
  qed
  have "fst ` set (ek_txn_snapshots e') = fst ` set (active_txns (ek_mvcc e'))"
    unfolding act e'(3) keys_hm_insert using o(4) by (simp add: pinned_ok_def)
  moreover have "u < ek_txn_counter e' \<and> u \<notin> fst ` set (active_txns (ek_mvcc e'))"
    if "x \<in> set (ek_txn_snapshots e')" "u \<in> fst ` set (commit_ts_map (snd x))" for x u
  proof -
    from given [OF that(1) [unfolded e'(3)] that(2)] show ?thesis unfolding act e'(2) using lt by auto
  qed
  ultimately show "pinned_ok e'" unfolding pinned_ok_def split_beta by blast
qed

lemma session_ok_begin:
  assumes ok: "session_ok e" and b: "begin_txn e = (r, e')"
  shows "session_ok e'"
proof (cases "ek_txn_counter e = u64_max")
  case True
  with b begin_txn_exhausted [OF True] ok show ?thesis by simp
next
  case False
  let ?t = "ek_txn_counter e" and ?m = "ek_mvcc e"
  have o: "vis_wf ?m" "ids_ahead e" using ok by (simp_all add: session_ok_def)
  have e': "ek_mvcc e' = ?m\<lparr>active_txns := hm_insert ?t (txn_meta_new ?t) (active_txns ?m)\<rparr>"
      "ek_cache e' = cache_invalidate (ek_cache e)"
    using b begin_txn_eq [OF o(2) False] by (auto simp: Let_def)
  have "mgr_begin_txn ?t ?m = (Inr (), ek_mvcc e')"
    using o(2) unfolding e'(1) by (auto simp: ids_ahead_def mgr_begin_txn_def)
  from vis_wf_begin [OF o(1) this] show ?thesis
    using pinned_ok_begin [OF ok False b] ids_ahead_begin [OF o(2) False b] e'(2) by (simp add: session_ok_def)
qed

lemma recovered_active: "active_txns (recovered_manager cfg h ins now w ctxn) = []"
  by (simp add: set_replay_watermark_def recover_committed_history_with_config_def set_committed_txn_def new_with_config_def)

text \<open>The stages of a successful call of \<open>open_with_config\<close>.\<close>

lemma open_stages:
  assumes "open_with_config env config now held counts s0 = (Inr e, held', counts', s)"
  obtains s1 h2 s2 w s3 l2 s4 l3 s5 base s7 ct ch l1 and res :: recovery_result where
    "sys_create_dir_all DataDir s0 = (Inr (), s1)" "lock_acquire held s1 = (Inr (), h2, s2)"
    "wal_open engine_wal_config s2 = (Inr w, s3)" "disk_new (en_pc env) L2 s3 = (l2, s4)" "disk_new (en_pc env) L3 s4 = (l3, s5)"
    "recovery_baseline (en_cc env) (ckpt_new s5) = (base, s7)" "unwrap_or (0, []) base = (ct, ch)"
    "e = \<lparr>ek_config = config, ek_wal = w,
       ek_mvcc = recovered_manager (visibility config)
         (fold (\<lambda>p. hm_insert (fst p) (snd p)) (rr_commit_ts_map res) (fold (\<lambda>p. hm_insert (fst p) (snd p)) ch []))
         (rr_inserted_at_map res) now (rr_replay_watermark res) (max ct (max_seen_committed_txn res)),
       ek_cache = cache_new, ek_txn_snapshots = [],
       ek_fe = with_l3 l1 l2 l3 rf_new 0 (max (max_patch_id l2) (max_patch_id l3) + 1),
       ek_txn_counter = saturating_add (max ct (max_seen_committed_txn res)) 1\<rparr>"
    "replay_committed_ops (en_wc env) (strict_mode config) (en_json env) replay_apply (mem_new 67108864 Async) counts s7 =
       (Inr res, l1, counts', s)"
proof -
  obtain r1 s1 where 1: "sys_create_dir_all DataDir s0 = (r1, s1)" by fastforce
  obtain r2 h2 s2 where 2: "lock_acquire held s1 = (r2, h2, s2)" by (rule prod_cases3)
  obtain r3 s3 where 3: "wal_open engine_wal_config s2 = (r3, s3)" by fastforce
  obtain l2 s4 where 4: "disk_new (en_pc env) L2 s3 = (l2, s4)" by fastforce
  obtain l3 s5 where 5: "disk_new (en_pc env) L3 s4 = (l3, s5)" by fastforce
  obtain base s7 where 7: "recovery_baseline (en_cc env) (ckpt_new s5) = (base, s7)" by fastforce
  obtain ct ch where b: "unwrap_or (0, []) base = (ct, ch)" by fastforce
  obtain r8 l1 c8 s8 where 8: "replay_committed_ops (en_wc env) (strict_mode config) (en_json env) replay_apply
      (mem_new 67108864 Async) counts s7 = (r8, l1, c8, s8)" by (rule prod_cases4)
  note steps = 1 2 3 4 5 7 b 8
  have r1: "r1 = Inr ()" using assms by (cases r1) (simp_all add: open_with_config_def 1)
  then have r2: "r2 = Inr ()" using assms by (cases r2) (simp_all add: open_with_config_def 1 2)
  with r1 obtain w where r3: "r3 = Inr w" using assms by (cases r3) (simp_all add: open_with_config_def 1 2 3)
  with r1 r2 obtain res where r8: "r8 = Inr res"
    using assms by (cases r8) (simp_all add: open_with_config_def steps Let_def)
  show thesis
    by (rule that [OF 1 [unfolded r1] 2 [unfolded r2] 3 [unfolded r3] 4 5 7 b, of res l1])
      (use assms r1 r2 r3 r8 in \<open>simp_all add: open_with_config_def steps Let_def\<close>)
qed

lemma opened_fields:
  assumes "open_with_config env config now held counts s0 = (Inr e, held', counts', s)"
  shows "ek_txn_snapshots e = [] \<and> ek_cache e = cache_new \<and> vis_wf (ek_mvcc e) \<and> active_txns (ek_mvcc e) = [] \<and> ek_config e = config"
  by (rule open_stages [OF assms]) (hypsubst, simp add: vis_wf_recovered recovered_active)

lemma session_ok_opened:
  assumes "open_with_config env config now held counts s0 = (Inr e, held', counts', s)" "committed_txn (ek_mvcc e) < ek_txn_counter e"
  shows "session_ok e"
  using opened_fields [OF assms(1)] assms(2) by (simp add: session_ok_def ids_ahead_def pinned_ok_def)

text \<open>Every operation keeps the invariant, whether it succeeds or fails.\<close>

lemma session_ok_commits:
  assumes ok: "session_ok e" and com: "engine_commit env clock t e s = (r, e', s')"
  shows "session_ok e'"
proof (cases "get_begin_ts t (ek_mvcc e)")
  case None
  with com ok show ?thesis by (auto simp: engine_commit_def ensure_active_txn_def split: prod.splits)
next
  case (Some b)
  obtain ins ts now nck where clock: "clock = (ins, ts, now, nck)" by (rule prod_cases4)
  obtain rw w s1 where a: "append_durable (en_wc env) t (WalCommit t ins) (ek_wal e) s = (rw, w, s1)" by (rule prod_cases3)
  let ?e = "e\<lparr>ek_wal := w\<rparr>"
  have w: "session_ok ?e" using ok session_ok_same [of e ?e] by simp
  have active: "get_begin_ts t (ek_mvcc ?e) \<noteq> None" using Some by simp
  show ?thesis
  proof (cases rw)
    case (Inl err)
    with com a Some w show ?thesis by (simp add: engine_commit_def ensure_active_txn_def clock)
  next
    case (Inr x)
    obtain rc m where c: "commit_txn t ins ts now (ek_mvcc e) = (rc, m)" by fastforce
    have m': "m = commit_state t ins ts now (ek_mvcc e)" if "rc = Inr y" for y
      using c that by (auto simp: commit_txn_cases split: option.splits)
    show ?thesis
    proof (cases rc)
      case (Inl err)
      have "rc \<noteq> Inl err \<or> m = abort_txn t (ek_mvcc e)"
        using c Some by (auto simp: commit_txn_cases get_begin_ts_def simp del: map_of_eq_Some_iff split: option.splits)
      with Inl have "m = abort_txn t (ek_mvcc e)" by simp
      with com a Some \<open>rw = Inr x\<close> Inl c session_ok_abort [OF w, of "ek_cache e" t] show ?thesis
        by (simp add: engine_commit_def ensure_active_txn_def clock apply_commit_ops)
    next
      case (Inr y)
      let ?e2 = "?e\<lparr>ek_mvcc := m, ek_cache := cache_invalidate (ek_cache e), ek_txn_snapshots := hm_remove t (ek_txn_snapshots e)\<rparr>"
      obtain rm e3 s3 where mt: "maybe_auto_maintain env nck ?e2 s1 = (rm, e3, s3)" by (rule prod_cases3)
      have "session_ok ?e2" using session_ok_commit [OF w active, of ins ts now] m' [OF Inr] by simp
      moreover have "e' = e3" using com a Some \<open>rw = Inr x\<close> Inr c mt
        by (simp add: engine_commit_def ensure_active_txn_def clock apply_commit_ops)
      ultimately show ?thesis using session_ok_same [OF same_txns_maintain [OF mt]] by simp
    qed
  qed
qed

lemma session_ok_rollbacks:
  assumes ok: "session_ok e" and rb: "engine_rollback env t e s = (r, e', s')"
  shows "session_ok e'"
proof (cases "get_begin_ts t (ek_mvcc e)")
  case None
  with rb ok show ?thesis by (simp add: engine_rollback_def ensure_active_txn_def)
next
  case (Some b)
  let ?c = "cache_invalidate (ek_cache e)"
  obtain rw w s1 where a: "wal_append (en_wc env) t WalRollback (ek_wal e) s = (rw, w, s1)" by (rule prod_cases3)
  have inv: "session_ok (e\<lparr>ek_cache := ?c, ek_wal := w\<rparr>)"
    using ok by (simp add: session_ok_def ids_ahead_def pinned_ok_def)
  have fin: "session_ok (e\<lparr>ek_cache := ?c, ek_wal := w, ek_mvcc := mgr_rollback_txn t (ek_mvcc e),
      ek_txn_snapshots := hm_remove t (ek_txn_snapshots e)\<rparr>)"
    using session_ok_abort [OF inv, of ?c t]
    by (simp add: mgr_rollback_txn_def) (simp add: session_ok_def ids_ahead_def pinned_ok_def)
  from rb a Some inv fin show ?thesis by (cases rw) (simp_all add: engine_rollback_def ensure_active_txn_def)
qed

lemma snd_whole: "snd p = (a, b) \<Longrightarrow> \<exists>r. p = (r, a, b)"
  by (cases p) simp

lemma session_ok_exec:
  assumes ok: "session_ok e" and x: "engine_exec env op (e, s) = (e', s')"
  shows "session_ok e'"
proof -
  have put: "session_ok e'" if "engine_put env now cf k v t e s = (r, e', s')" for now cf k v t r
    using that session_ok_record(1) [OF ok] same_txns_l1_put session_ok_same ok
    by (fastforce simp: engine_put_def split: sum.splits)
  have del: "session_ok e'" if "engine_delete env now cf k t e s = (r, e', s')" for now cf k t r
    using that session_ok_record(1) [OF ok] same_txns_l1_put session_ok_same ok
    by (fastforce simp: engine_delete_def split: sum.splits)
  have get: "session_ok e'" if "engine_get env cf k e s = (r, e', s')" for cf k r
    using that session_ok_cache [OF ok] same_txns_get_at session_ok_same
    by (fastforce simp: engine_get_def engine_snapshot_def split: prod.splits)
  have scan: "session_ok e'" if "engine_scan env cf a b e s = (r, e', s')" for cf a b r
    using that session_ok_cache [OF ok] same_txns_scan_at session_ok_same
    by (fastforce simp: engine_scan_def engine_snapshot_def split: prod.splits)
  have gett: "session_ok e'" if "get_for_txn env cf k t e s = (r, e', s')" for cf k t r
    using that session_ok_record(2) [OF ok] same_txns_get_at session_ok_same ok
    by (fastforce simp: get_for_txn_def split: option.splits)
  have others: "session_ok e'" if "same_txns e e'" using that ok session_ok_same by blast
  show ?thesis
  proof (cases op)
    case EBegin
    with x session_ok_begin [OF ok] show ?thesis by (metis engine_exec.simps(1) fst_conv prod.collapse)
  next
    case (ECommit clock t)
    with x show ?thesis using session_ok_commits [OF ok] by (metis engine_exec.simps(7) snd_whole)
  next
    case (ERollback t)
    with x show ?thesis using session_ok_rollbacks [OF ok] by (metis engine_exec.simps(8) snd_whole)
  qed (use x in \<open>auto dest!: snd_whole intro: put del get scan gett others same_txns_flush same_txns_checkpoint\<close>)
qed

subsection \<open>Properties\<close>

lemma engine_reachable_session: "engine_reachable env e s \<Longrightarrow> session_ok e"
proof (induction rule: engine_reachable.induct)
  case (opened config now held counts s0 e held' counts' s)
  then show ?case by (rule session_ok_opened)
next
  case (called e s op e' s')
  then show ?case by (blast intro: session_ok_exec)
qed

text \<open>
  C3. The invariant of the engine. However an engine was opened and whatever calls were made on
  it, under every pattern of I/O errors: the visibility manager is in its invariant, exactly
  the active transactions have a pinned snapshot, every id that is active, committed or seen
  by a pinned snapshot was given out before, so the next transaction gets a new id, and
  the garbage collection watermark is not above any active transaction.
\<close>

theorem engine_invariant:
  assumes "engine_reachable env e s"
  shows "vis_wf (ek_mvcc e) \<and> (\<forall>t. hm_contains (ek_txn_snapshots e) t \<longleftrightarrow> hm_contains (active_txns (ek_mvcc e)) t) \<and>
    committed_txn (ek_mvcc e) < ek_txn_counter e \<and>
    (\<forall>t. hm_contains (active_txns (ek_mvcc e)) t \<longrightarrow> t < ek_txn_counter e \<and> gc_watermark e \<le> t) \<and>
    (\<forall>(t, snap) \<in> set (ek_txn_snapshots e). \<forall>u \<in> fst ` set (commit_ts_map snap).
       u < ek_txn_counter e \<and> \<not> hm_contains (active_txns (ek_mvcc e)) u)"
proof -
  have ok: "session_ok e" using assms by (rule engine_reachable_session)
  then have keys: "fst ` set (ek_txn_snapshots e) = fst ` set (active_txns (ek_mvcc e))"
    by (simp add: session_ok_def pinned_ok_def)
  have "gc_watermark e \<le> t" if "hm_contains (active_txns (ek_mvcc e)) t" for t
  proof -
    have "t \<in> set (map fst (ek_txn_snapshots e))" using that unfolding keys [symmetric] by simp
    from unwrap_iter_min_le [OF this, of u64_max] show ?thesis by (simp add: gc_watermark_def Let_def min.coboundedI2)
  qed
  moreover have "t < ek_txn_counter e" if "hm_contains (active_txns (ek_mvcc e)) t" for t
    using ok that unfolding session_ok_def ids_ahead_def by blast
  moreover have "committed_txn (ek_mvcc e) < ek_txn_counter e" using ok by (simp add: session_ok_def ids_ahead_def)
  ultimately show ?thesis using ok keys unfolding session_ok_def pinned_ok_def by blast
qed

text \<open>A concrete session: the log of the example is opened and a transaction begun.\<close>

lemma sample_opened_single:
  assumes "prepared crashed_fs s" "opened_on sample_env sample_log e s"
  shows "view_single (view (en_pc sample_env) (ek_fe e) s)"
proof -
  have disk: "disk_view (en_pc sample_env) d s = {}" if d: "disk_ok (en_pc sample_env) d s" for d
  proof -
    have "pe \<notin> set (layer_contents (en_pc sample_env) d s cf)" for pe cf
    proof
      assume "pe \<in> set (layer_contents (en_pc sample_env) d s cf)"
      from layer_contents_patch [OF d this] obtain p es where
        p: "parent_dir p = CfDir (dl_layer d) cf" "patch_at (en_pc sample_env) s p = Some es" by blast
      then have "p \<noteq> LockFile" by auto
      with p(2) patch_at_prepared [OF assms(1)] crashed_no_patch show False by simp
    qed
    then show ?thesis by (simp add: disk_view_def subset_empty [symmetric] subset_iff) blast
  qed
  have "disk_ok (en_pc sample_env) (fe_l2 (ek_fe e)) s" "disk_ok (en_pc sample_env) (fe_l3 (ek_fe e)) s"
    using assms(2) by (simp_all add: opened_on_def flush_ok_def)
  with opened_view [OF assms(2)] disk have v: "(k, u, x) \<in> view (en_pc sample_env) (ek_fe e) s \<Longrightarrow>
      recovered_version sample_log u k = Some (restored k u x)" for k u x by blast
  show ?thesis unfolding view_single_def
  proof (intro allI impI)
    fix k u x y
    assume "(k, u, x) \<in> view (en_pc sample_env) (ek_fe e) s" "(k, u, y) \<in> view (en_pc sample_env) (ek_fe e) s"
    from v [OF this(1)] v [OF this(2)] show "x = y" by simp
  qed
qed

lemma sample_session:
  "\<exists>e s. engine_reachable sample_env e s \<and> fst ` set (active_txns (ek_mvcc e)) = {2} \<and> ek_txn_counter e = 3 \<and>
     hm_contains (committed_history (ek_mvcc e)) 1 \<and> flush_ok (en_pc sample_env) (ek_fe e) s \<and> script s = [] \<and>
     view_single (view (en_pc sample_env) (ek_fe e) s) \<and> ek_config e = config"
proof -
  obtain e s where o: "open_with_config sample_env config 9 False [] crashed_fs = (Inr e, True, [], s)"
      "prepared crashed_fs s" "opened_on sample_env sample_log e s" using sample_reopened by blast
  have c: "committed_txn (ek_mvcc e) = 1" "hm_contains (committed_history (ek_mvcc e)) 1"
    using o(3) by (auto simp: opened_on_def commits_in_def map_filter_def sample_log_def committed_at_def logged_def
        live_tail_def is_put_def)
  have n: "ek_txn_counter e = 2" using o(3) c(1) by (simp add: opened_on_def saturating_add_def)
  then have ids: "ids_ahead e" using o(3) c(1) by (simp add: ids_ahead_def opened_on_def)
  obtain r e' where b: "begin_txn e = (r, e')" by fastforce
  have "ek_txn_counter e \<noteq> u64_max" using n by simp
  note eq = begin_txn_eq [OF ids this, unfolded b]
  have "engine_reachable sample_env e s" using o(1) ids by (intro opened) (auto simp: ids_ahead_def)
  then have "engine_reachable sample_env e' s" by (rule called [where op = EBegin]) (simp add: b)
  moreover have "fst ` set (active_txns (ek_mvcc e')) = {2}"
    using eq n o(3) by (simp add: Let_def keys_hm_insert opened_on_def)
  moreover have "view_single (view (en_pc sample_env) (ek_fe e') s)" using eq sample_opened_single [OF o(2,3)] by (simp add: Let_def)
  moreover have "ek_config e' = config" using eq opened_fields [OF o(1)] by (simp add: Let_def)
  ultimately show ?thesis
    using eq n c(2) o(2,3) by (intro exI [of _ e'] exI [of _ s]) (auto simp: Let_def opened_on_def prepared_def)
qed

theorem engine_invariant_witness:
  "\<exists>e s. engine_reachable sample_env e s \<and> hm_contains (active_txns (ek_mvcc e)) 2 \<and> gc_watermark e \<le> 2 \<and>
     hm_contains (ek_txn_snapshots e) 2"
proof -
  obtain e s where r: "engine_reachable sample_env e s" "fst ` set (active_txns (ek_mvcc e)) = {2}" using sample_session by blast
  from engine_invariant [OF r(1)] have "\<forall>t. hm_contains (ek_txn_snapshots e) t \<longleftrightarrow> hm_contains (active_txns (ek_mvcc e)) t"
    "\<forall>t. hm_contains (active_txns (ek_mvcc e)) t \<longrightarrow> gc_watermark e \<le> t" by blast+
  with r show ?thesis by (metis singletonI)
qed

text \<open>
  C14. Snapshots are exact. In every reachable state of the engine a snapshot, cached or not,
  sees exactly the transactions of the committed history.
\<close>

theorem engine_snapshot_exact:
  assumes "engine_reachable env e s" and "engine_snapshot e = (snap, e')"
  shows "is_visible snap t None \<longleftrightarrow> hm_contains (committed_history (ek_mvcc e)) t"
proof -
  have ok: "vis_wf (ek_mvcc e)" "cache_current (ek_mvcc e) (ek_cache e)"
    using engine_reachable_session [OF assms(1)] by (simp_all add: session_ok_def)
  obtain c where c: "cache_snapshot (ek_mvcc e) (ek_cache e) = (snap, c)"
    using assms(2) by (auto simp: engine_snapshot_def split: prod.splits)
  show ?thesis
    using same_reads_visible [OF cache_snapshot_current(1) [OF ok(2) c]] visible_in_snapshot [OF ok(1)] by simp
qed

theorem engine_snapshot_exact_witness:
  "\<exists>e s. engine_reachable sample_env e s \<and> is_visible (fst (engine_snapshot e)) 1 None \<and> \<not> is_visible (fst (engine_snapshot e)) 2 None"
proof -
  obtain e s where r: "engine_reachable sample_env e s" "fst ` set (active_txns (ek_mvcc e)) = {2}"
      "hm_contains (committed_history (ek_mvcc e)) 1" using sample_session by blast
  note x = engine_snapshot_exact [OF r(1), of "fst (engine_snapshot e)" "snd (engine_snapshot e)"]
  have "vis_wf (ek_mvcc e)" using engine_reachable_session [OF r(1)] by (simp add: session_ok_def)
  with r(2) have "\<not> hm_contains (committed_history (ek_mvcc e)) 2" by (auto simp: vis_wf_def)
  with r x show ?thesis by auto
qed

end
