(* ===== verification/Scans.thy ===== *)
theory Scans
  imports Transactions
begin

section \<open>Range scans of the engine\<close>

text \<open>
  The scan of \<^verbatim>\<open>src/src/txn/mod.rs\<close> against its point read: the merge of the four sources as
  the selection of a newest version per key, the condition under which a scan returns exactly
  what point reads return, and the case in which it loses a key.
\<close>

subsection \<open>Selecting the newest version of every key\<close>

type_synonym scanned = "bytes \<times> txn_id \<times> bytes option"

text \<open>A map selects from a set when it has, for every key of the set, a newest version of it.\<close>

definition selects :: "('a \<Rightarrow> txn_id \<times> bytes option) \<Rightarrow> (bytes, 'a) btmap \<Rightarrow> scanned set \<Rightarrow> bool" where
  "selects p best C \<longleftrightarrow> bt_wf best \<and> (\<forall>k t v. (k, t, v) \<in> C \<longrightarrow> hm_get best k \<noteq> None) \<and>
     (\<forall>k a. hm_get best k = Some a \<longrightarrow> (k, p a) \<in> C \<and> (\<forall>u x. (k, u, x) \<in> C \<longrightarrow> u \<le> fst (p a)))"

lemma selectsD:
  assumes "selects p best C"
  shows "bt_wf best" "\<And>k t v. (k, t, v) \<in> C \<Longrightarrow> \<exists>a. hm_get best k = Some a"
    "\<And>k a. hm_get best k = Some a \<Longrightarrow> (k, p a) \<in> C"
    "\<And>k a u x. hm_get best k = Some a \<Longrightarrow> (k, u, x) \<in> C \<Longrightarrow> u \<le> fst (p a)"
  using assms unfolding selects_def by blast+

lemma selectsI:
  assumes "bt_wf best" "\<And>k t v. (k, t, v) \<in> C \<Longrightarrow> hm_get best k \<noteq> None"
    "\<And>k a. hm_get best k = Some a \<Longrightarrow> (k, p a) \<in> C \<and> (\<forall>u x. (k, u, x) \<in> C \<longrightarrow> u \<le> fst (p a))"
  shows "selects p best C"
  using assms unfolding selects_def by blast

definition covers :: "scanned set \<Rightarrow> scanned set \<Rightarrow> bool" where
  "covers C V \<longleftrightarrow> C \<subseteq> V \<and> (\<forall>k t v. (k, t, v) \<in> V \<longrightarrow> (\<exists>u x. (k, u, x) \<in> C \<and> t \<le> u))"

lemma selects_empty [simp]: "selects p [] {}"
  by (simp add: selects_def)

lemma covers_refl [simp]: "covers C C"
  by (auto simp: covers_def)

lemma covers_Un: "covers A V \<Longrightarrow> covers B W \<Longrightarrow> covers (A \<union> B) (V \<union> W)"
  unfolding covers_def by blast

lemma selects_covers:
  assumes "selects p best C" "covers C V"
  shows "selects p best V"
proof (rule selectsI)
  note b = selectsD [OF assms(1)]
  have c: "C \<subseteq> V" "\<And>k t v. (k, t, v) \<in> V \<Longrightarrow> \<exists>u x. (k, u, x) \<in> C \<and> t \<le> u"
    using assms(2) unfolding covers_def by blast+
  show "bt_wf best" by (rule b(1))
  show "hm_get best k \<noteq> None" if "(k, t, v) \<in> V" for k t v using c(2) [OF that] b(2) by blast
  show "(k, p a) \<in> V \<and> (\<forall>u x. (k, u, x) \<in> V \<longrightarrow> u \<le> fst (p a))" if "hm_get best k = Some a" for k a
  proof (intro conjI allI impI)
    show "(k, p a) \<in> V" using b(3) [OF that] c(1) by blast
    fix u x
    assume "(k, u, x) \<in> V"
    then obtain u' x' where "(k, u', x') \<in> C" "u \<le> u'" using c(2) by blast
    with b(4) [OF that] show "u \<le> fst (p a)" by (blast intro: order_trans)
  qed
qed

abbreviation version_of :: "z1_entry \<Rightarrow> txn_id \<times> bytes option" where
  "version_of e \<equiv> (e_txn_id e, e_value e)"

text \<open>One more version is added to the candidates: it replaces an older one of its key.\<close>

lemma selects_insert:
  assumes "selects p best C" "bt_wf best'"
    "\<And>k'. hm_get best' k' = (if k' = k then (case hm_get best k of None \<Rightarrow> Some a
       | Some b \<Rightarrow> if fst (p b) \<ge> fst (p a) then Some b else Some a) else hm_get best k')"
  shows "selects p best' (insert (k, p a) C)"
proof (rule selectsI)
  note b = selectsD [OF assms(1)]
  show "bt_wf best'" by (rule assms(2))
  show "hm_get best' k' \<noteq> None" if "(k', t, v) \<in> insert (k, p a) C" for k' t v
    using that b(2) [of k' t v] by (auto simp: assms(3) simp del: map_of_eq_Some_iff map_of_eq_None_iff split: option.splits)
  show "(k', p x) \<in> insert (k, p a) C \<and> (\<forall>u y. (k', u, y) \<in> insert (k, p a) C \<longrightarrow> u \<le> fst (p x))" if "hm_get best' k' = Some x" for k' x
  proof (cases "k' = k")
    case False
    with that b(3,4) [of k' x] show ?thesis by (simp add: assms(3) del: map_of_eq_Some_iff)
  next
    case True
    show ?thesis
    proof (cases "hm_get best k")
      case None
      with b(2) have "(k, u, y) \<notin> C" for u y by (metis option.distinct(1))
      with that True None show ?thesis by (auto simp: assms(3) simp del: map_of_eq_Some_iff map_of_eq_None_iff dest: arg_cong [of _ _ fst])
    next
      case (Some c)
      have "x = (if fst (p c) \<ge> fst (p a) then c else a)" using that True Some by (simp add: assms(3) del: map_of_eq_Some_iff split: if_splits)
      moreover have "fst (p a) = u" if "(k, u, y) = (k, p a)" for u y using that by (simp add: prod_eq_iff)
      ultimately show ?thesis using b(3,4) [OF Some] True by (force simp: not_le)
    qed
  qed
qed

lemma selects_keep_newer:
  assumes "selects version_of best C"
  shows "selects version_of (keep_newer e best) (insert (key_of (e_key e), version_of e) C)"
proof (rule selects_insert [OF assms])
  have wf: "bt_wf best" using assms by (rule selectsD(1))
  then show "bt_wf (keep_newer e best)" by (rule bt_wf_keep_newer)
  show "hm_get (keep_newer e best) k' = (if k' = key_of (e_key e) then (case hm_get best (key_of (e_key e)) of None \<Rightarrow> Some e
      | Some b \<Rightarrow> if fst (version_of b) \<ge> fst (version_of e) then Some b else Some e) else hm_get best k')" for k'
    unfolding get_keep_newer [OF wf] by (auto simp: not_le simp del: map_of_eq_Some_iff map_of_eq_None_iff split: option.splits)
qed

lemma selects_record:
  assumes "selects id best C"
  shows "selects id (scan_record_best (k, e) best) (insert (k, version_of e) C)"
proof -
  have wf: "bt_wf best" using assms by (rule selectsD(1))
  have "selects id (scan_record_best (k, e) best) (insert (k, id (version_of e)) C)"
  proof (rule selects_insert [OF assms])
    show "bt_wf (scan_record_best (k, e) best)"
      using wf by (simp add: scan_record_best_def map_laws split: option.splits prod.splits)
    show "hm_get (scan_record_best (k, e) best) k' = (if k' = k then (case hm_get best k of None \<Rightarrow> Some (version_of e)
        | Some b \<Rightarrow> if fst (id b) \<ge> fst (id (version_of e)) then Some b else Some (version_of e)) else hm_get best k')" for k'
      using wf by (cases "hm_get best k") (auto simp: scan_record_best_def map_of_bt_insert simp del: map_of_eq_Some_iff map_of_eq_None_iff)
  qed
  then show ?thesis by simp
qed

abbreviation versions_in :: "(bytes \<times> z1_entry) list \<Rightarrow> scanned set" where
  "versions_in xs \<equiv> (\<lambda>(k, e). (k, version_of e)) ` set xs"

lemma selects_fold:
  "selects id best C \<Longrightarrow> selects id (fold scan_record_best xs best) (C \<union> versions_in xs)"
proof (induction xs arbitrary: best C)
  case (Cons x xs)
  obtain k e where x: "x = (k, e)" by fastforce
  have "insert (k, version_of e) C \<union> versions_in xs = C \<union> versions_in (x # xs)" by (auto simp: x)
  with Cons.IH [OF selects_record [OF Cons.prems, of k e]] show ?case by (simp add: x)
qed simp

lemma selects_versions:
  assumes "selects version_of best C"
  shows "covers (versions_in best) C"
proof -
  note b = selectsD [OF assms]
  have "hm_get best k = Some e" if "(k, e) \<in> set best" for k e using that b(1) by (simp add: map_laws)
  then have "versions_in best \<subseteq> C" using b(3) by auto
  moreover have "\<exists>u x. (k, u, x) \<in> versions_in best \<and> t \<le> u" if c: "(k, t, v) \<in> C" for k t v
  proof -
    obtain a where a: "hm_get best k = Some a" using b(2) [OF c] by blast
    then have "(k, version_of a) \<in> versions_in best" by (force dest: map_of_SomeD)
    moreover have "t \<le> e_txn_id a" using b(4) [OF a c] by simp
    ultimately show ?thesis by blast
  qed
  ultimately show ?thesis by (simp add: covers_def)
qed

subsection \<open>The four sources\<close>

text \<open>The versions of a column family with keys in a range.\<close>

definition in_scan :: "u16 \<Rightarrow> bytes \<Rightarrow> bytes option \<Rightarrow> (txn_id \<Rightarrow> bool) \<Rightarrow> stored set \<Rightarrow> scanned set" where
  "in_scan cf start end_key vis V = {(k, t, v). (Z1Key cf k, t, v) \<in> V \<and> in_range start end_key k \<and> vis t}"

lemma in_scan_Un: "in_scan cf a b vis (V \<union> W) = in_scan cf a b vis V \<union> in_scan cf a b vis W"
  by (auto simp: in_scan_def)

lemma scan_l1:
  "covers (versions_in (mem_range_visible cf start end_key (snapshot_id snap) (commit_ts_map snap) (snap_active_txns snap) m))
     (in_scan cf start end_key (\<lambda>t. is_visible snap t None) (stored_of ` mem_versions m))"
proof (rule selects_versions, rule selectsI)
  let ?r = "mem_range_visible cf start end_key (snapshot_id snap) (commit_ts_map snap) (snap_active_txns snap) m"
  let ?V = "in_scan cf start end_key (\<lambda>t. is_visible snap t None) (stored_of ` mem_versions m)"
  let ?E = "\<lambda>k. {e \<in> mem_versions m. e_key e = Z1Key cf k \<and> snap_visible snap e}"
  let ?b = "\<lambda>k. best_visible (Z1Key cf k) (snapshot_id snap) (commit_ts_map snap) (snap_active_txns snap) (mem_chain m) None"
  have wf: "bt_wf ?r" and get: "hm_get ?r k = (if in_range start end_key k then ?b k else None)" for k
    using range_loop_point [of "[]"] by (simp_all add: mem_range_visible_def)
  have V: "(k, t, v) \<in> ?V \<longleftrightarrow> in_range start end_key k \<and> (\<exists>e \<in> ?E k. version_of e = (t, v))" for k t v
    unfolding in_scan_def snap_visible_txn by (force simp: stored_of_def)
  have none: "?b k = None \<Longrightarrow> ?E k = {}" for k
    unfolding best_visible_None by (auto simp: filter_empty_conv set_mem_chain snap_visible_def)
  have some: "?b k = Some a \<Longrightarrow> best_in (?E k) a" for k a
    using best_visible_best [of "Z1Key cf k" "snapshot_id snap" "commit_ts_map snap" "snap_active_txns snap" "mem_chain m" a]
    by (simp add: set_mem_chain snap_visible_def)
  show "bt_wf ?r" by (rule wf)
  show "hm_get ?r k \<noteq> None" if "(k, t, v) \<in> ?V" for k t v
    using that none [of k] unfolding V get by auto
  show "(k, version_of a) \<in> ?V \<and> (\<forall>u x. (k, u, x) \<in> ?V \<longrightarrow> u \<le> fst (version_of a))" if "hm_get ?r k = Some a" for k a
    using that some [of k a] unfolding V get best_in_def by (auto split: if_splits)
qed

lemma scan_recent:
  "versions_in (map (\<lambda>e. (key_of (e_key e), e))
      (rf_get_filtered (\<lambda>e. cf_of (e_key e) = cf \<and> key_of (e_key e) \<ge> start \<and>
         (case end_key of Some en \<Rightarrow> key_of (e_key e) < en | None \<Rightarrow> True) \<and> snap_visible snap e) rf)) =
     in_scan cf start end_key (\<lambda>t. is_visible snap t None) (stored_of ` rf_versions rf)" (is "?l = ?r")
proof -
  have r: "in_range start end_key k \<longleftrightarrow> k \<ge> start \<and> (case end_key of Some en \<Rightarrow> k < en | None \<Rightarrow> True)" for k
    by (auto simp: in_range_def not_less not_le split: option.splits)
  have l: "x \<in> ?l \<longleftrightarrow> (\<exists>e \<in> rf_versions rf. cf_of (e_key e) = cf \<and> in_range start end_key (key_of (e_key e)) \<and> snap_visible snap e \<and>
      x = (key_of (e_key e), version_of e))" for x
    unfolding r by (auto simp: rf_get_filtered_def image_iff)
  have key: "e_key e = Z1Key cf k \<longleftrightarrow> cf_of (e_key e) = cf \<and> key_of (e_key e) = k" for e k by (cases "e_key e") auto
  show ?thesis
  proof (rule set_eqI)
    fix x :: scanned
    obtain k t v where x: "x = (k, t, v)" by (rule prod_cases3)
    have "x \<in> ?r \<longleftrightarrow> (\<exists>e \<in> rf_versions rf. e_key e = Z1Key cf k \<and> version_of e = (t, v) \<and> in_range start end_key k \<and> snap_visible snap e)"
      unfolding x in_scan_def snap_visible_txn by (force simp: stored_of_def)
    then show "x \<in> ?l \<longleftrightarrow> x \<in> ?r" unfolding l key x by auto
  qed
qed

text \<open>A disk layer hands over the newest version it has of each key, visible or not.\<close>

lemma selects_range_patch:
  "selects version_of best C \<Longrightarrow> selects version_of (range_patch cf start end_key es best)
     (C \<union> {(pe_key pe, pe_txn_id pe, pe_value pe) | pe. pe \<in> set es \<and> in_range start end_key (pe_key pe)})"
proof (induction es arbitrary: best C)
  case (Cons pe es)
  let ?S = "\<lambda>es. {(pe_key pe, pe_txn_id pe, pe_value pe) | pe. pe \<in> set es \<and> in_range start end_key (pe_key pe)}"
  show ?case
  proof (cases "in_range start end_key (pe_key pe)")
    case True
    have "insert (pe_key pe, pe_txn_id pe, pe_value pe) C \<union> ?S es = C \<union> ?S (pe # es)" using True by auto
    with Cons.IH [OF selects_keep_newer [OF Cons.prems, of "patch_version cf pe"]] True show ?thesis
      by (simp add: patch_version_def)
  next
    case False
    then have "?S (pe # es) = ?S es" by auto
    with Cons.IH [OF Cons.prems] False show ?thesis by simp
  qed
qed simp

definition settled :: "txn_snapshot \<Rightarrow> u16 \<Rightarrow> bytes \<Rightarrow> bytes option \<Rightarrow> stored set \<Rightarrow> bool" where
  "settled snap cf start end_key V \<longleftrightarrow>
     (\<forall>k t v. in_range start end_key k \<longrightarrow> newest (\<lambda>_. True) V (Z1Key cf k) t v \<longrightarrow> is_visible snap t None)"

lemma scan_layer_contents:
  "selects version_of (range_patch cf start end_key (layer_contents c d s cf) [])
     (in_scan cf start end_key (\<lambda>_. True) (disk_view c d s))"
proof -
  have "{(pe_key pe, pe_txn_id pe, pe_value pe) | pe. pe \<in> set (layer_contents c d s cf) \<and> in_range start end_key (pe_key pe)} =
      in_scan cf start end_key (\<lambda>_. True) (disk_view c d s)"
    by (auto simp: in_scan_def disk_view_def stored_in_def)
  with selects_range_patch [OF selects_empty, of cf start end_key "layer_contents c d s cf"] show ?thesis by simp
qed

lemma scan_disk:
  assumes "settled snap cf start end_key (disk_view c d s)"
  shows "covers (versions_in (filter (\<lambda>(_, e). snap_visible snap e) (range_patch cf start end_key (layer_contents c d s cf) [])))
    (in_scan cf start end_key (\<lambda>t. is_visible snap t None) (disk_view c d s))"
proof -
  let ?r = "range_patch cf start end_key (layer_contents c d s cf) []"
  let ?W = "in_scan cf start end_key (\<lambda>_. True) (disk_view c d s)"
  note b = selectsD [OF scan_layer_contents [of cf start end_key c d s]]
  have get: "hm_get ?r k = Some e" if "(k, e) \<in> set ?r" for k e using that b(1) by (simp add: map_laws)
  have "versions_in (filter (\<lambda>(_, e). snap_visible snap e) ?r) \<subseteq> in_scan cf start end_key (\<lambda>t. is_visible snap t None) (disk_view c d s)"
    using b(3) [OF get] by (auto simp: in_scan_def snap_visible_txn)
  moreover have "\<exists>u x. (k, u, x) \<in> versions_in (filter (\<lambda>(_, e). snap_visible snap e) ?r) \<and> t \<le> u"
    if v: "(k, t, v) \<in> in_scan cf start end_key (\<lambda>t. is_visible snap t None) (disk_view c d s)" for k t v
  proof -
    have w: "(k, t, v) \<in> ?W" "in_range start end_key k" using v by (auto simp: in_scan_def)
    obtain a where a: "hm_get ?r k = Some a" using b(2) [OF w(1)] by blast
    have "newest (\<lambda>_. True) (disk_view c d s) (Z1Key cf k) (e_txn_id a) (e_value a)"
      using b(3,4) [OF a] w(2) by (simp add: newest_def in_scan_def)
    then have "snap_visible snap a" using assms w(2) by (auto simp: settled_def snap_visible_txn)
    then have "(k, version_of a) \<in> versions_in (filter (\<lambda>(_, e). snap_visible snap e) ?r)" using a by (force dest: map_of_SomeD)
    moreover have "t \<le> e_txn_id a" using b(4) [OF a w(1)] by simp
    ultimately show ?thesis by blast
  qed
  ultimately show ?thesis by (simp add: covers_def)
qed

subsection \<open>Scanning\<close>

lemma disk_range_paths:
  "disk_range_visible c cf start end_key d s = (r, d', s') \<Longrightarrow> layer_paths d' \<subseteq> layer_paths d"
  unfolding disk_range_visible_def using index_paths_indexed by (meson Un_least order_refl patch_loop_paths subset_trans)

text \<open>With working I/O a scan returns the values selected from the candidates of the four
  sources, in ascending order of their keys.\<close>

lemma scan_at_parts:
  assumes ok: "flush_ok (en_pc env) (ek_fe e) s" and quiet: "script s = []"
  shows "\<exists>best fe'. scan_at env snap cf start end_key e s =
      (Inr (List.map_filter (\<lambda>(k, _, v). map_option (Pair k) v) best), e\<lparr>ek_fe := fe'\<rparr>, s) \<and>
    flush_ok (en_pc env) fe' s \<and> view (en_pc env) fe' s = view (en_pc env) (ek_fe e) s \<and>
    (\<forall>V2 V3. covers (versions_in (filter (\<lambda>(_, e). snap_visible snap e)
         (range_patch cf start end_key (layer_contents (en_pc env) (fe_l2 (ek_fe e)) s cf) []))) V2 \<longrightarrow>
       covers (versions_in (filter (\<lambda>(_, e). snap_visible snap e)
         (range_patch cf start end_key (layer_contents (en_pc env) (fe_l3 (ek_fe e)) s cf) []))) V3 \<longrightarrow>
       selects id best (in_scan cf start end_key (\<lambda>t. is_visible snap t None)
         (stored_of ` mem_versions (fe_l1 (ek_fe e)) \<union> stored_of ` rf_versions (fe_recent (ek_fe e))) \<union> V2 \<union> V3))"
proof -
  let ?c = "en_pc env" and ?fe = "ek_fe e"
  have f: "disk_ok ?c (fe_l2 ?fe) s" "disk_ok ?c (fe_l3 ?fe) s" using ok by (simp_all add: flush_ok_def)
  obtain d2 where d2: "disk_range_visible ?c cf start end_key (fe_l2 ?fe) s =
      (Inr (range_patch cf start end_key (layer_contents ?c (fe_l2 ?fe) s cf) []), d2, s)"
      "disk_ok ?c d2 s" "dl_index d2 = dl_index (fe_l2 ?fe)" "dl_layer d2 = dl_layer (fe_l2 ?fe)"
    using disk_range_visible_ok [OF f(1) quiet, of cf start end_key] by blast
  obtain d3 where d3: "disk_range_visible ?c cf start end_key (fe_l3 ?fe) s =
      (Inr (range_patch cf start end_key (layer_contents ?c (fe_l3 ?fe) s cf) []), d3, s)"
      "disk_ok ?c d3 s" "dl_index d3 = dl_index (fe_l3 ?fe)" "dl_layer d3 = dl_layer (fe_l3 ?fe)"
    using disk_range_visible_ok [OF f(2) quiet, of cf start end_key] by blast
  let ?fe' = "?fe\<lparr>fe_l2 := d2, fe_l3 := d3\<rparr>"
  have keep: "flush_ok ?c ?fe' s" "view ?c ?fe' s = view ?c ?fe s"
    using layers_read_again(1,2) [OF ok d2(2-4) disk_range_paths [OF d2(1)] d3(2-4) disk_range_paths [OF d3(1)]] by simp_all
  let ?x1 = "mem_range_visible cf start end_key (snapshot_id snap) (commit_ts_map snap) (snap_active_txns snap) (fe_l1 ?fe)"
  let ?x2 = "map (\<lambda>e. (key_of (e_key e), e))
      (rf_get_filtered (\<lambda>e. cf_of (e_key e) = cf \<and> key_of (e_key e) \<ge> start \<and>
         (case end_key of Some en \<Rightarrow> key_of (e_key e) < en | None \<Rightarrow> True) \<and> snap_visible snap e) (fe_recent ?fe))"
  let ?x3 = "filter (\<lambda>(_, e). snap_visible snap e) (range_patch cf start end_key (layer_contents ?c (fe_l2 ?fe) s cf) [])"
  let ?x4 = "filter (\<lambda>(_, e). snap_visible snap e) (range_patch cf start end_key (layer_contents ?c (fe_l3 ?fe) s cf) [])"
  let ?best = "fold scan_record_best (?x1 @ ?x2 @ ?x3 @ ?x4) []"
  have "scan_at env snap cf start end_key e s =
      (Inr (List.map_filter (\<lambda>(k, _, v). map_option (Pair k) v) ?best), e\<lparr>ek_fe := ?fe'\<rparr>, s)"
    by (simp add: scan_at_def d2(1) d3(1) Let_def)
  moreover have "selects id ?best (in_scan cf start end_key (\<lambda>t. is_visible snap t None)
      (stored_of ` mem_versions (fe_l1 ?fe) \<union> stored_of ` rf_versions (fe_recent ?fe)) \<union> V2 \<union> V3)"
    if "covers (versions_in ?x3) V2" "covers (versions_in ?x4) V3" for V2 V3
  proof (rule selects_covers)
    show "selects id ?best (versions_in ?x1 \<union> versions_in ?x2 \<union> versions_in ?x3 \<union> versions_in ?x4)"
      using selects_fold [OF selects_empty, of "?x1 @ ?x2 @ ?x3 @ ?x4"] unfolding set_append image_Un Un_empty_left by (simp only: Un_assoc)
    show "covers (versions_in ?x1 \<union> versions_in ?x2 \<union> versions_in ?x3 \<union> versions_in ?x4) (in_scan cf start end_key (\<lambda>t. is_visible snap t None)
        (stored_of ` mem_versions (fe_l1 ?fe) \<union> stored_of ` rf_versions (fe_recent ?fe)) \<union> V2 \<union> V3)"
      unfolding in_scan_Un scan_recent by (intro covers_Un scan_l1 covers_refl that)
  qed
  ultimately show ?thesis using keep by blast
qed

lemma selected_values:
  assumes "selects id best C"
  shows "sorted_wrt (<) (map fst (List.map_filter (\<lambda>(k, _, v). map_option (Pair k) v) best))"
    "(k, v) \<in> set (List.map_filter (\<lambda>(k, _, v). map_option (Pair k) v) best) \<longleftrightarrow> (\<exists>t. hm_get best k = Some (t, Some v))"
proof -
  let ?out = "List.map_filter (\<lambda>(k, _, v). map_option (Pair k) v) best"
  have out: "?out = map (\<lambda>(k, _, v). (k, the v)) (filter (\<lambda>(_, _, v). v \<noteq> None) best)"
    by (induction best) (auto simp: map_filter_simps split: option.splits)
  have "map fst ?out = map fst (filter (\<lambda>(_, _, v). v \<noteq> None) best)" unfolding out by (induction best) auto
  then show "sorted_wrt (<) (map fst ?out)" using bt_wf_filter [OF selectsD(1) [OF assms]] by simp
  have "hm_wf best" using selectsD(1) [OF assms] by (rule bt_wf_distinct)
  then have get: "hm_get best k = Some a \<longleftrightarrow> (k, a) \<in> set best" for a by simp
  show "(k, v) \<in> set ?out \<longleftrightarrow> (\<exists>t. hm_get best k = Some (t, Some v))"
    unfolding get out by force
qed

lemma get_at_value:
  assumes "flush_ok (en_pc env) (ek_fe e) s" "script s = []" "view_single (view (en_pc env) (ek_fe e) s)"
  shows "fst (get_at env snap cf k e s) = Inr (Some v) \<longleftrightarrow>
    (\<exists>t. newest (\<lambda>t. is_visible snap t None) (view (en_pc env) (ek_fe e) s) (Z1Key cf k) t (Some v))"
proof -
  from get_at_candidates [OF assms(1,2), of snap cf k] obtain xs fe' where
    xs: "get_at env snap cf k e s = (Inr (read_value xs), e\<lparr>ek_fe := fe'\<rparr>, s)"
      "stored_of ` set xs = visible_of snap (view (en_pc env) (ek_fe e) s) (Z1Key cf k)" by blast
  note r = read_value_newest [OF xs(2) assms(3)]
  show ?thesis using r xs(1) by (metis fst_conv option.distinct(1) sum.inject(2))
qed

text \<open>
  C15. Scans agree with point reads. With working I/O, one value per key and transaction, and in
  each disk layer no version that the snapshot does not see on top of a key of the range, a scan
  returns its keys in strictly ascending order, and exactly the keys of the range for which
  the point read at the same snapshot returns a value, with that value.
\<close>

theorem scan_agrees_with_get:
  assumes "flush_ok (en_pc env) (ek_fe e) s" and "script s = []" and "view_single (view (en_pc env) (ek_fe e) s)"
    and "settled snap cf start end_key (disk_view (en_pc env) (fe_l2 (ek_fe e)) s)"
    and "settled snap cf start end_key (disk_view (en_pc env) (fe_l3 (ek_fe e)) s)"
  shows "\<exists>out e'. scan_at env snap cf start end_key e s = (Inr out, e', s) \<and> sorted_wrt (<) (map fst out) \<and>
    (\<forall>k v. (k, v) \<in> set out \<longleftrightarrow> in_range start end_key k \<and> fst (get_at env snap cf k e s) = Inr (Some v))"
proof -
  let ?V = "view (en_pc env) (ek_fe e) s" and ?vis = "\<lambda>t. is_visible snap t None"
  from scan_at_parts [OF assms(1,2), of snap cf start end_key] obtain best fe' where
    b: "scan_at env snap cf start end_key e s = (Inr (List.map_filter (\<lambda>(k, _, v). map_option (Pair k) v) best), e\<lparr>ek_fe := fe'\<rparr>, s)"
    and sel: "\<And>V2 V3. covers (versions_in (filter (\<lambda>(_, e). snap_visible snap e)
         (range_patch cf start end_key (layer_contents (en_pc env) (fe_l2 (ek_fe e)) s cf) []))) V2 \<Longrightarrow>
       covers (versions_in (filter (\<lambda>(_, e). snap_visible snap e)
         (range_patch cf start end_key (layer_contents (en_pc env) (fe_l3 (ek_fe e)) s cf) []))) V3 \<Longrightarrow>
       selects id best (in_scan cf start end_key ?vis (stored_of ` mem_versions (fe_l1 (ek_fe e)) \<union>
         stored_of ` rf_versions (fe_recent (ek_fe e))) \<union> V2 \<union> V3)" by blast
  have "selects id best (in_scan cf start end_key ?vis ?V)"
    using sel [OF scan_disk [OF assms(4)] scan_disk [OF assms(5)]] unfolding view_layers in_scan_Un by (simp add: Un_ac)
  note s = selected_values [OF this] and d = selectsD [OF this]
  have "hm_get best k = Some (t, v) \<longleftrightarrow> in_range start end_key k \<and> newest ?vis ?V (Z1Key cf k) t v" for k t v
  proof
    assume a: "hm_get best k = Some (t, v)"
    from d(3,4) [OF a] show "in_range start end_key k \<and> newest ?vis ?V (Z1Key cf k) t v"
      by (auto simp: in_scan_def newest_def)
  next
    assume n: "in_range start end_key k \<and> newest ?vis ?V (Z1Key cf k) t v"
    then have "(k, t, v) \<in> in_scan cf start end_key ?vis ?V" by (simp add: in_scan_def newest_def)
    from d(2) [OF this] obtain a where a: "hm_get best k = Some a" by blast
    have "newest ?vis ?V (Z1Key cf k) (fst a) (snd a)" using d(3,4) [OF a] by (auto simp: in_scan_def newest_def)
    then have "fst a = t \<and> snd a = v" using newest_unique [OF assms(3)] n by blast
    then have "a = (t, v)" by (simp add: prod_eq_iff)
    with a show "hm_get best k = Some (t, v)" by simp
  qed
  then have "(k, v) \<in> set (List.map_filter (\<lambda>(k, _, v). map_option (Pair k) v) best) \<longleftrightarrow>
      in_range start end_key k \<and> fst (get_at env snap cf k e s) = Inr (Some v)" for k v
    unfolding s(2) get_at_value [OF assms(1-3)] by blast
  with b s(1) show ?thesis by blast
qed

theorem scan_agrees_with_get_witness:
  "\<exists>out e'. scan_at sample_env (mgr_snapshot SnapshotLevel sample_history) 0 [] None
     (sample_engine\<lparr>ek_fe := sample_stack\<rparr>) quiet_fs = (Inr out, e', quiet_fs) \<and> ([1], [7]) \<in> set out"
proof -
  let ?e = "sample_engine\<lparr>ek_fe := sample_stack\<rparr>" and ?snap = "mgr_snapshot SnapshotLevel sample_history"
  have v: "view (en_pc sample_env) (ek_fe ?e) quiet_fs = {(Z1Key 0 [1], 1, Some [7])}" by (simp add: sample_stack_view)
  have ok: "flush_ok (en_pc sample_env) (ek_fe ?e) quiet_fs" "script quiet_fs = []"
      "view_single (view (en_pc sample_env) (ek_fe ?e) quiet_fs)"
    unfolding v by (simp_all add: sample_stack_ok quiet_fs_def view_single_def)
  have "newest (\<lambda>t. is_visible ?snap t None) (view (en_pc sample_env) (ek_fe ?e) quiet_fs) (Z1Key 0 [1]) 1 (Some [7])"
    unfolding v newest_def using sample_history_sees by simp
  then have g: "fst (get_at sample_env ?snap 0 [1] ?e quiet_fs) = Inr (Some [7])" unfolding get_at_value [OF ok] by blast
  have "settled ?snap 0 [] None (disk_view (en_pc sample_env) d quiet_fs)" if "d = empty_layer l" for d l
    unfolding that by (simp add: settled_def newest_def empty_layer_def disk_view_def layer_contents_def entries_at_def)
  then show ?thesis
    using scan_agrees_with_get [OF ok, of ?snap 0 "[]" None] g
    by (fastforce simp: sample_stack_def empty_stack_def with_l3_def in_range_def)
qed

text \<open>
  C16. Scans lose keys. When the newest version of a key in the second layer is one the snapshot
  does not see, and all versions of the key are in that layer, a scan over the key leaves it
  out although the point read at the same snapshot returns a value: the layer reduces each
  key to its newest version before visibility is looked at.
\<close>

theorem scan_misses_shadowed_key:
  assumes "flush_ok (en_pc env) (ek_fe e) s" and "script s = []" and "view_single (view (en_pc env) (ek_fe e) s)"
    and "in_range start end_key k" and "newest (\<lambda>t. is_visible snap t None) (view (en_pc env) (ek_fe e) s) (Z1Key cf k) t (Some v)"
    and "newest (\<lambda>_. True) (disk_view (en_pc env) (fe_l2 (ek_fe e)) s) (Z1Key cf k) u x" and "\<not> is_visible snap u None"
    and "\<forall>y. (Z1Key cf k, y) \<notin> stored_of ` mem_versions (fe_l1 (ek_fe e)) \<union> stored_of ` rf_versions (fe_recent (ek_fe e)) \<union>
      disk_view (en_pc env) (fe_l3 (ek_fe e)) s"
  shows "\<exists>out e'. scan_at env snap cf start end_key e s = (Inr out, e', s) \<and> k \<notin> fst ` set out \<and>
    fst (get_at env snap cf k e s) = Inr (Some v)"
proof -
  let ?x = "\<lambda>d. filter (\<lambda>(_, e). snap_visible snap e) (range_patch cf start end_key (layer_contents (en_pc env) d s cf) [])"
  let ?L2 = "fe_l2 (ek_fe e)" and ?L3 = "fe_l3 (ek_fe e)"
  from scan_at_parts [OF assms(1,2), of snap cf start end_key] obtain best fe' where
    b: "scan_at env snap cf start end_key e s = (Inr (List.map_filter (\<lambda>(k, _, v). map_option (Pair k) v) best), e\<lparr>ek_fe := fe'\<rparr>, s)"
    and sel: "\<And>V2 V3. covers (versions_in (?x ?L2)) V2 \<Longrightarrow> covers (versions_in (?x ?L3)) V3 \<Longrightarrow>
       selects id best (in_scan cf start end_key (\<lambda>t. is_visible snap t None) (stored_of ` mem_versions (fe_l1 (ek_fe e)) \<union>
         stored_of ` rf_versions (fe_recent (ek_fe e))) \<union> V2 \<union> V3)" by blast
  note s = sel [OF covers_refl covers_refl]
  have layer: "newest (\<lambda>_. True) (disk_view (en_pc env) d s) (Z1Key cf k) t' v' \<and> is_visible snap t' None"
    if w: "(k, t', v') \<in> versions_in (?x d)" for d t' v'
  proof -
    note r = selectsD [OF scan_layer_contents [of cf start end_key "en_pc env" d s]]
    obtain a where a: "(k, a) \<in> set (range_patch cf start end_key (layer_contents (en_pc env) d s cf) [])"
        "snap_visible snap a" "version_of a = (t', v')" using w by auto
    then have "hm_get (range_patch cf start end_key (layer_contents (en_pc env) d s cf) []) k = Some a" using r(1) by (simp add: map_laws)
    from r(3,4) [OF this] a(2,3) assms(4) show ?thesis by (auto simp: in_scan_def newest_def snap_visible_txn)
  qed
  have "(k, t', v') \<notin> versions_in (?x ?L2)" for t' v'
  proof
    assume "(k, t', v') \<in> versions_in (?x ?L2)"
    from layer [OF this] have "t' = u" "is_visible snap t' None" using assms(6) unfolding newest_def by (blast intro: order.antisym)+
    with assms(7) show False by simp
  qed
  moreover have "(k, t', v') \<notin> versions_in (?x ?L3)" for t' v'
  proof
    assume "(k, t', v') \<in> versions_in (?x ?L3)"
    from layer [OF this] assms(8) show False by (simp add: newest_def)
  qed
  ultimately have "hm_get best k \<noteq> Some a" for a
    using selectsD(3) [OF s, of k a] assms(8) by (cases a) (auto simp: in_scan_def)
  then have "k \<notin> fst ` set (List.map_filter (\<lambda>(k, _, v). map_option (Pair k) v) best)"
    using selected_values(2) [OF s, of k] by force
  moreover have "fst (get_at env snap cf k e s) = Inr (Some v)" unfolding get_at_value [OF assms(1-3)] using assms(5) by blast
  ultimately show ?thesis using b by blast
qed

text \<open>The example: a patch with a committed version of a key and a newer one whose transaction is
  still running.\<close>

definition shadow_patch :: "patch_entry list" where
  "shadow_patch = [\<lparr>pe_key = [1], pe_value = Some [7], pe_txn_id = 1\<rparr>, \<lparr>pe_key = [1], pe_value = Some [8], pe_txn_id = 2\<rparr>]"

definition shadow_env :: engine_env where
  "shadow_env = sample_env\<lparr>en_pc := table_codec [(Sparse shadow_patch, [42])]\<rparr>"

lemma shadow_layer_written:
  assumes ser: "pc_ser c (Sparse shadow_patch) = Some [42]" and serde: "serde_ok (pc_ser c) (pc_de c)"
  shows "\<exists>d s. append_patch c (0, 1, 2) 0 shadow_patch 1 (empty_layer L2) quiet_fs = (Inr (), d, s) \<and> script s = [] \<and>
     flush_ok c (empty_stack\<lparr>fe_l2 := d, fe_next_patch_id := 2\<rparr>) s \<and>
     disk_view c d s = {(Z1Key 0 [1], 1, Some [7]), (Z1Key 0 [1], 2, Some [8])}"
proof -
  have sorted: "sort_key patch_order shadow_patch = shadow_patch" by (simp add: shadow_patch_def patch_order_def)
  obtain r d s where a: "append_patch c (0, 1, 2) 0 shadow_patch 1 (empty_layer L2) quiet_fs = (r, d, s)" by (metis prod.exhaust)
  have r: "r = Inr ()" "script s = []"
    using a ser by (auto simp: append_patch_def sparse_def sorted to_disk_bytes_def empty_layer_def
      quiet_fs_def sys_defs write_durable_def write_durable_once_def write_to_temp_def fsync_data_def
      fsync_file_def writer_commit_def atomic_rename_def fsync_parent_dir_def Let_def name_changes_def
      put_bytes_def hm_insert_def u32_max_nat_def split: if_splits)
  have "disk_ok c (empty_layer L2) quiet_fs" "disk_ok c (empty_layer L3) quiet_fs" by (simp_all add: empty_layer_def empty_layer_ok)
  moreover have "ids_below (empty_layer l) n" for l n by (simp add: ids_below_def empty_layer_def indexed_paths_def)
  moreover have "dl_layer (empty_layer L2) \<noteq> dl_layer (empty_layer L3)" by (simp add: empty_layer_def)
  ultimately have n: "disk_ok c d s" "disk_ok c (empty_layer L3) s" "dl_layer d = L2" "ids_below d 2" "ids_below (empty_layer L3) 2"
      "disk_view c d s = disk_view c (empty_layer L2) quiet_fs \<union> stored_in 0 ` set shadow_patch"
    using append_next_ok [OF _ _ serde _ _ _ _ a, of "empty_layer L3"] r(1) by (simp_all add: empty_layer_def)
  have "flush_ok c (empty_stack\<lparr>fe_l2 := d, fe_next_patch_id := 2\<rparr>) s"
    using empty_stack_ok [of c s] n by (simp add: flush_ok_def empty_stack_def with_l3_def empty_layer_def)
  moreover have "disk_view c d s = {(Z1Key 0 [1], 1, Some [7]), (Z1Key 0 [1], 2, Some [8])}"
    unfolding n(6) by (simp add: disk_view_def layer_contents_def entries_at_def empty_layer_def shadow_patch_def stored_in_def)
  ultimately show ?thesis using a r by blast
qed

lemma shadow_layer:
  "\<exists>d s. append_patch (en_pc shadow_env) (0, 1, 2) 0 shadow_patch 1 (empty_layer L2) quiet_fs = (Inr (), d, s) \<and> script s = [] \<and>
     flush_ok (en_pc shadow_env) (empty_stack\<lparr>fe_l2 := d, fe_next_patch_id := 2\<rparr>) s \<and>
     disk_view (en_pc shadow_env) d s = {(Z1Key 0 [1], 1, Some [7]), (Z1Key 0 [1], 2, Some [8])}"
  by (rule shadow_layer_written) (simp_all add: shadow_env_def table_codec_ok, simp add: table_codec_def)

definition shadow_snapshot :: txn_snapshot where
  "shadow_snapshot = mgr_snapshot SnapshotLevel (sample_history\<lparr>active_txns := [(2, txn_meta_new 2)]\<rparr>)"

lemma shadow_snapshot_sees: "is_visible shadow_snapshot t None \<longleftrightarrow> t = 1"
  unfolding shadow_snapshot_def by (subst visible_in_snapshot) (auto simp: vis_wf_def new_with_config_def txn_meta_new_def)

lemma stack_rest [simp]:
  "mem_versions (fe_l1 empty_stack) = {}" "rf_versions (fe_recent empty_stack) = {}" "disk_view c (fe_l3 empty_stack) s = {}"
  by (simp_all add: empty_stack_def with_l3_def mem_new_def mem_versions_def rf_new_def empty_layer_def disk_view_def
      layer_contents_def entries_at_def)

theorem scan_misses_shadowed_key_witness:
  "let (r, d, s) = append_patch (en_pc shadow_env) (0, 1, 2) 0 shadow_patch 1 (empty_layer L2) quiet_fs;
       e = sample_engine\<lparr>ek_fe := empty_stack\<lparr>fe_l2 := d, fe_next_patch_id := 2\<rparr>\<rparr>
   in \<exists>out e'. scan_at shadow_env shadow_snapshot 0 [] None e s = (Inr out, e', s) \<and> [1] \<notin> fst ` set out \<and>
        fst (get_at shadow_env shadow_snapshot 0 [1] e s) = Inr (Some [7])"
proof -
  let ?k = "Z1Key 0 [1]"
  obtain d s where a: "append_patch (en_pc shadow_env) (0, 1, 2) 0 shadow_patch 1 (empty_layer L2) quiet_fs = (Inr (), d, s)" "script s = []"
    and ok: "flush_ok (en_pc shadow_env) (empty_stack\<lparr>fe_l2 := d, fe_next_patch_id := 2\<rparr>) s"
    and dv: "disk_view (en_pc shadow_env) d s = {(?k, 1, Some [7]), (?k, 2, Some [8])}" using shadow_layer by blast
  let ?fe = "empty_stack\<lparr>fe_l2 := d, fe_next_patch_id := 2\<rparr>"
  let ?e = "sample_engine\<lparr>ek_fe := ?fe\<rparr>"
  have v: "view (en_pc shadow_env) ?fe s = {(?k, 1, Some [7]), (?k, 2, Some [8])}" unfolding view_layers using dv by simp
  have "newest (\<lambda>t. is_visible shadow_snapshot t None) (view (en_pc shadow_env) ?fe s) ?k 1 (Some [7])"
    unfolding v newest_def shadow_snapshot_sees by simp
  moreover have "newest (\<lambda>_. True) (disk_view (en_pc shadow_env) (fe_l2 ?fe) s) ?k 2 (Some [8])" by (auto simp: dv newest_def)
  moreover have "view_single (view (en_pc shadow_env) ?fe s)" unfolding v by (simp add: view_single_def)
  ultimately have "\<exists>out e'. scan_at shadow_env shadow_snapshot 0 [] None ?e s = (Inr out, e', s) \<and> [1] \<notin> fst ` set out \<and>
      fst (get_at shadow_env shadow_snapshot 0 [1] ?e s) = Inr (Some [7])"
    using ok a(2) by (intro scan_misses_shadowed_key [where u = 2 and x = "Some [8]" and t = 1]) (simp_all add: shadow_snapshot_sees in_range_def)
  then show ?thesis unfolding Let_def a(1) prod.case .
qed

end
