(* ===== verification/Isolation.thy ===== *)
theory Isolation
  imports Sessions Scans
begin

section \<open>Isolation of running transactions\<close>

text \<open>
  What a running transaction reads while others begin, write, commit and roll back: its pinned
  snapshot stays the one taken at its begin, and no version it can see appears or disappears.
\<close>

fun client_call :: "engine_op \<Rightarrow> bool" where
  "client_call EFlush = False"
| "client_call EFlushNow = False"
| "client_call (ECompact _) = False"
| "client_call (ECheckpoint _) = False"
| "client_call _ = True"

fun ends_txn :: "engine_op \<Rightarrow> txn_id \<Rightarrow> bool" where
  "ends_txn (ECommit _ u) t = (u = t)"
| "ends_txn (ERollback u) t = (u = t)"
| "ends_txn _ t = False"

subsection \<open>Pinned snapshots stay\<close>

lemma commit_snapshots:
  assumes "engine_commit env clock u e s = (r, e', s')"
  shows "ek_txn_snapshots e' = ek_txn_snapshots e \<or> ek_txn_snapshots e' = hm_remove u (ek_txn_snapshots e)"
proof -
  obtain ins ts now nck where clock: "clock = (ins, ts, now, nck)" by (rule prod_cases4)
  obtain rw w s1 where a: "append_durable (en_wc env) u (WalCommit u ins) (ek_wal e) s = (rw, w, s1)" by (rule prod_cases3)
  obtain rc m where c: "commit_txn u ins ts now (ek_mvcc e) = (rc, m)" by fastforce
  let ?e2 = "e\<lparr>ek_wal := w, ek_mvcc := m, ek_cache := cache_invalidate (ek_cache e), ek_txn_snapshots := hm_remove u (ek_txn_snapshots e)\<rparr>"
  obtain rm e3 s3 where mt: "maybe_auto_maintain env nck ?e2 s1 = (rm, e3, s3)" by (rule prod_cases3)
  have "ek_txn_snapshots e3 = hm_remove u (ek_txn_snapshots e)" using same_txns_maintain [OF mt] by (simp add: same_txns_def)
  then show ?thesis
    using assms a c mt by (cases "get_begin_ts u (ek_mvcc e)"; cases rw; cases rc)
      (auto simp: engine_commit_def ensure_active_txn_def clock apply_commit_ops)
qed

lemma rollback_snapshots:
  assumes "engine_rollback env u e s = (r, e', s')"
  shows "ek_txn_snapshots e' = ek_txn_snapshots e \<or> ek_txn_snapshots e' = hm_remove u (ek_txn_snapshots e)"
  using assms by (auto simp: engine_rollback_def Let_def split: sum.splits prod.splits)

lemma snapshot_kept:
  assumes ok: "session_ok e" and pin: "hm_get (ek_txn_snapshots e) t = Some snap"
    and x: "engine_exec env op (e, s) = (e', s')" and others: "\<not> ends_txn op t"
  shows "hm_get (ek_txn_snapshots e') t = Some snap"
proof -
  have same: ?thesis if "same_txns e2 e'" "ek_txn_snapshots e2 = ek_txn_snapshots e" for e2
    using that pin by (simp add: same_txns_def)
  have remove: "hm_get (hm_remove u (ek_txn_snapshots e)) t = Some snap" if "u \<noteq> t" for u
    using pin that by (simp add: map_laws del: map_of_eq_Some_iff)
  show ?thesis
  proof (cases op)
    case EBegin
    show ?thesis
    proof (cases "ek_txn_counter e = u64_max")
      case True
      with x EBegin begin_txn_exhausted [OF True] pin show ?thesis by simp
    next
      case False
      have "t \<in> fst ` set (ek_txn_snapshots e)" using pin by (metis domI dom_map_of_conv_image_fst)
      then have "t \<in> fst ` set (active_txns (ek_mvcc e))" using ok by (simp add: session_ok_def pinned_ok_def)
      then have "t \<noteq> ek_txn_counter e" using ok unfolding session_ok_def ids_ahead_def by blast
      moreover have "ids_ahead e" using ok by (simp add: session_ok_def)
      ultimately show ?thesis using x EBegin begin_txn_eq [OF _ False] pin
        by (auto simp: Let_def map_laws simp del: map_of_eq_Some_iff)
    qed
  next
    case (ECommit clock u)
    then obtain r where "engine_commit env clock u e s = (r, e', s')" using x by (auto dest: snd_whole)
    from commit_snapshots [OF this] show ?thesis using remove [of u] pin others ECommit by auto
  next
    case (ERollback u)
    then obtain r where "engine_rollback env u e s = (r, e', s')" using x by (auto dest: snd_whole)
    from rollback_snapshots [OF this] show ?thesis using remove [of u] pin others ERollback by auto
  next
    case (EPut now cf k v u)
    then show ?thesis using x pin same [OF same_txns_l1_put]
      by (auto simp: engine_put_def dest!: snd_whole split: sum.splits)
  next
    case (EDelete now cf k u)
    then show ?thesis using x pin same [OF same_txns_l1_put]
      by (auto simp: engine_delete_def dest!: snd_whole split: sum.splits)
  next
    case (EGet cf k)
    then show ?thesis using x pin same [OF same_txns_get_at]
      by (auto simp: engine_get_def engine_snapshot_def dest!: snd_whole split: prod.splits)
  next
    case (EGetTxn cf k u)
    then show ?thesis using x pin same [OF same_txns_get_at]
      by (auto simp: get_for_txn_def dest!: snd_whole split: option.splits)
  next
    case (EScan cf a b)
    then show ?thesis using x pin same [OF same_txns_scan_at]
      by (auto simp: engine_scan_def engine_snapshot_def dest!: snd_whole split: prod.splits)
  qed (use x in \<open>auto dest!: snd_whole same_txns_flush same_txns_checkpoint intro: same [of e]\<close>)
qed

subsection \<open>Other transactions' versions stay\<close>

text \<open>The stored versions are the same except for those of some transactions.\<close>

definition same_but :: "engine_env \<Rightarrow> txn_id set \<Rightarrow> z1kv \<Rightarrow> fs \<Rightarrow> z1kv \<Rightarrow> fs \<Rightarrow> bool" where
  "same_but env U e s e' s' \<longleftrightarrow> flush_ok (en_pc env) (ek_fe e') s' \<and> script s' = [] \<and>
     (\<forall>k u x. u \<notin> U \<longrightarrow> (k, u, x) \<in> view (en_pc env) (ek_fe e') s' \<longleftrightarrow> (k, u, x) \<in> view (en_pc env) (ek_fe e) s)"

lemma same_but_refl:
  "flush_ok (en_pc env) (ek_fe e) s \<Longrightarrow> script s = [] \<Longrightarrow> ek_fe e' = ek_fe e \<Longrightarrow> same_but env U e s e' s"
  by (simp add: same_but_def)

lemma same_but_log:
  assumes "flush_ok (en_pc env) (ek_fe e) s" "wal_only s s'" "script s' = []" "ek_fe e' = ek_fe e"
  shows "same_but env U e s e' s'"
  using wal_only_layers [OF assms(1,2)] assms by (simp add: same_but_def flush_ok_def view_layers)

lemma put_others:
  assumes ok: "flush_ok c fe s" and p: "mem_put wc y (fe_l1 fe) (Some w) s = (r, m, w', s')" and u: "u \<noteq> e_txn_id y"
  shows "(k, u, x) \<in> view c (fe\<lparr>fe_l1 := m\<rparr>) s' \<longleftrightarrow> (k, u, x) \<in> view c fe s"
proof -
  note l = mem_put_layers(2,3) [OF ok p]
  have b: "buffer_ok (hot (fe_l1 fe))" using ok by (simp add: flush_ok_def mem_ok_def)
  have m: "hot m = (case r of Inl _ \<Rightarrow> hot (fe_l1 fe) | Inr _ \<Rightarrow> buffer_insert y (hot (fe_l1 fe)))"
      "cold m = cold (fe_l1 fe)" "snap_buf m = snap_buf (fe_l1 fe)"
    using p by (auto simp: mem_put_def mem_insert_def split: prod.splits sum.splits dest!: put_wal_frame)
  have "(k, u, x) \<in> stored_of ` buffer_versions (buffer_insert y (hot (fe_l1 fe))) \<longleftrightarrow> (k, u, x) \<in> stored_of ` buffer_versions (hot (fe_l1 fe))"
    unfolding versions_insert [OF b] using u by (force simp: stored_of_def version_id_def)
  then have "(k, u, x) \<in> stored_of ` mem_versions m \<longleftrightarrow> (k, u, x) \<in> stored_of ` mem_versions (fe_l1 fe)"
    unfolding mem_versions_def m image_Un by (cases r) simp_all
  then show ?thesis using l unfolding view_layers by simp
qed

lemma l1_put_others:
  assumes "flush_ok (en_pc env) (ek_fe e) s" "script s = []" "l1_put env y e s = (r, e', s')"
  shows "same_but env {e_txn_id y} e s e' s'"
proof -
  obtain r1 m w s1 where p: "mem_put (en_wc env) y (fe_l1 (ek_fe e)) (Some (ek_wal e)) s = (r1, m, w, s1)" by (rule prod_cases4)
  have e': "ek_fe e' = (ek_fe e)\<lparr>fe_l1 := m\<rparr>" "s' = s1" using assms(3) p by (auto simp: l1_put_def)
  show ?thesis
    unfolding same_but_def e' using mem_put_layers(1) [OF assms(1) p] quiet_put [OF p assms(2)] put_others [OF assms(1) p] by simp
qed

lemma get_at_others:
  assumes "flush_ok (en_pc env) (ek_fe e) s" "script s = []" "get_at env snap cf k e s = (r, e', s')"
  shows "same_but env U e s e' s'"
  using get_at_candidates [OF assms(1,2), of snap cf k] assms(2,3) by (auto simp: same_but_def)

lemma scan_at_others:
  assumes "flush_ok (en_pc env) (ek_fe e) s" "script s = []" "scan_at env snap cf a b e s = (r, e', s')"
  shows "same_but env U e s e' s'"
  using scan_at_parts [OF assms(1,2), of snap cf a b] assms(2,3) by (auto simp: same_but_def)

lemma commit_others:
  assumes ok: "flush_ok (en_pc env) (ek_fe e) s" "script s = []" and off: "maintenance_off e"
    and com: "engine_commit env clock u e s = (r, e', s')"
  shows "same_but env U e s e' s'"
proof (cases "get_begin_ts u (ek_mvcc e)")
  case None
  with com ok show ?thesis by (auto simp: engine_commit_def ensure_active_txn_def same_but_refl split: prod.splits)
next
  case (Some b)
  obtain ins ts now nck where clock: "clock = (ins, ts, now, nck)" by (rule prod_cases4)
  obtain rw w s1 where a: "append_durable (en_wc env) u (WalCommit u ins) (ek_wal e) s = (rw, w, s1)" by (rule prod_cases3)
  have "s' = s1 \<and> ek_fe e' = ek_fe e"
  proof (cases rw)
    case (Inl err)
    with com a Some show ?thesis by (auto simp: engine_commit_def ensure_active_txn_def clock)
  next
    case (Inr x)
    with engine_commit_cases [OF com [unfolded clock] _ off] a Some show ?thesis by simp
  qed
  with same_but_log [OF ok(1) wal_only_calls(2) [OF a] quiet_log(1) [OF a ok(2)]] show ?thesis by simp
qed

lemma rollback_others:
  assumes ok: "flush_ok (en_pc env) (ek_fe e) s" "script s = []" and rb: "engine_rollback env u e s = (r, e', s')"
  shows "same_but env U e s e' s'"
proof (cases "get_begin_ts u (ek_mvcc e)")
  case None
  with rb ok show ?thesis by (simp add: engine_rollback_def ensure_active_txn_def same_but_refl)
next
  case (Some b)
  obtain rw w s1 where a: "wal_append (en_wc env) u WalRollback (ek_wal e) s = (rw, w, s1)" by (rule prod_cases3)
  have "s' = s1 \<and> ek_fe e' = ek_fe e" using rb a Some by (cases rw) (auto simp: engine_rollback_def ensure_active_txn_def)
  with same_but_log [OF ok(1) wal_only_calls(1) [OF a] quiet_log(2) [OF a ok(2)]] show ?thesis by simp
qed

lemma write_others:
  assumes ok: "flush_ok (en_pc env) (ek_fe e) s" "script s = []" and "e_txn_id y = u"
    and w: "(case ensure_active_txn u e of Inl err \<Rightarrow> (Inl err, e, s)
      | Inr _ \<Rightarrow> l1_put env y (e\<lparr>ek_mvcc := m\<rparr>) s) = (r, e', s')"
  shows "same_but env (fst ` set (active_txns (ek_mvcc e))) e s e' s'"
proof (cases "get_begin_ts u (ek_mvcc e)")
  case None
  with w ok show ?thesis by (simp add: ensure_active_txn_def same_but_refl)
next
  case (Some b)
  then have "u \<in> fst ` set (active_txns (ek_mvcc e))"
    unfolding get_begin_ts_def by (metis map_of_eq_None_iff option.distinct(1) option.map_disc_iff)
  moreover have "same_but env {u} (e\<lparr>ek_mvcc := m\<rparr>) s e' s'"
    using l1_put_others [of env "e\<lparr>ek_mvcc := m\<rparr>" s y r e' s'] ok w Some assms(3) by (simp add: ensure_active_txn_def)
  ultimately show ?thesis unfolding same_but_def by fastforce
qed

lemma client_others:
  assumes ok: "flush_ok (en_pc env) (ek_fe e) s" "script s = []" and off: "maintenance_off e"
    and x: "engine_exec env op (e, s) = (e', s')" and client: "client_call op"
  shows "same_but env (fst ` set (active_txns (ek_mvcc e))) e s e' s'"
proof (cases op)
  case EBegin
  have "ek_fe (snd (begin_attempts n e0)) = ek_fe e0" for n e0
    by (induction n arbitrary: e0) (auto simp: next_txn_id_def Let_def split: prod.splits sum.splits)
  with x EBegin ok show ?thesis by (auto simp: begin_txn_def same_but_refl)
next
  case (EPut now cf k v u)
  then show ?thesis using x write_others [OF ok, of "entry_put (Z1Key cf k) u v (ucast now)" u]
    by (auto simp: engine_put_def entry_put_def dest!: snd_whole)
next
  case (EDelete now cf k u)
  then show ?thesis using x write_others [OF ok, of "entry_tombstone (Z1Key cf k) u (ucast now)" u]
    by (auto simp: engine_delete_def entry_tombstone_def dest!: snd_whole)
next
  case (EGet cf k)
  obtain snap c where c: "cache_snapshot (ek_mvcc e) (ek_cache e) = (snap, c)" by fastforce
  from EGet x c ok show ?thesis using get_at_others [of env "e\<lparr>ek_cache := c\<rparr>" s snap cf k]
    by (auto simp: engine_get_def engine_snapshot_def same_but_def dest!: snd_whole)
next
  case (EScan cf a b)
  obtain snap c where c: "cache_snapshot (ek_mvcc e) (ek_cache e) = (snap, c)" by fastforce
  from EScan x c ok show ?thesis using scan_at_others [of env "e\<lparr>ek_cache := c\<rparr>" s snap cf a b]
    by (auto simp: engine_scan_def engine_snapshot_def same_but_def dest!: snd_whole)
next
  case (EGetTxn cf k u)
  from EGetTxn x ok show ?thesis using get_at_others [of env "e\<lparr>ek_mvcc := record_read u (conflict_key cf k) (ek_mvcc e)\<rparr>" s _ cf k]
    by (auto simp: get_for_txn_def same_but_refl same_but_def dest!: snd_whole split: option.splits)
qed (use x client ok in \<open>auto dest!: snd_whole intro: commit_others [OF ok off] rollback_others [OF ok]\<close>)

subsection \<open>Repeatable reads\<close>

lemma get_at_same_visible:
  assumes "flush_ok (en_pc env) (ek_fe e) s" "script s = []" "view_single (view (en_pc env) (ek_fe e) s)"
    "flush_ok (en_pc env) (ek_fe e') s'" "script s' = []"
    "visible_of snap (view (en_pc env) (ek_fe e') s') (Z1Key cf k) = visible_of snap (view (en_pc env) (ek_fe e) s) (Z1Key cf k)"
  shows "fst (get_at env snap cf k e' s') = fst (get_at env snap cf k e s)"
proof -
  let ?k = "Z1Key cf k" and ?V = "view (en_pc env) (ek_fe e) s" and ?vis = "\<lambda>t. is_visible snap t None"
  from get_at_candidates [OF assms(1,2), of snap cf k] obtain xs fe1 where
    xs: "get_at env snap cf k e s = (Inr (read_value xs), e\<lparr>ek_fe := fe1\<rparr>, s)" "stored_of ` set xs = visible_of snap ?V ?k" by blast
  from get_at_candidates [OF assms(4,5), of snap cf k] obtain ys fe2 where
    ys: "get_at env snap cf k e' s' = (Inr (read_value ys), e'\<lparr>ek_fe := fe2\<rparr>, s')" "stored_of ` set ys = visible_of snap ?V ?k"
    unfolding assms(6) by blast
  have "read_value ys = read_value xs"
    using read_value_newest [OF xs(2) assms(3)] read_value_newest [OF ys(2) assms(3)] by metis
  with xs(1) ys(1) show ?thesis by simp
qed

lemma pinned_blind:
  assumes "session_ok e" "hm_get (ek_txn_snapshots e) t = Some snap" "u \<in> fst ` set (active_txns (ek_mvcc e))"
  shows "\<not> is_visible snap u None"
proof
  assume "is_visible snap u None"
  then have "u \<in> fst ` set (commit_ts_map snap)"
    by (auto simp: is_visible_def is_row_visible_manager_iff simp del: map_of_eq_Some_iff) (metis domI dom_map_of_conv_image_fst)
  moreover have "(t, snap) \<in> set (ek_txn_snapshots e)" using assms(2) by (rule map_of_SomeD)
  ultimately show False using assms(1,3) unfolding session_ok_def pinned_ok_def by blast
qed



end
