(* ===== verification/Restart.thy ===== *)
theory Restart
  imports Isolation
begin

section \<open>Restarting from a checkpoint\<close>

text \<open>
  A checkpoint carries the committed history over a restart: the log before it may be gone. The
  chain is the one of the code: the checkpoint file and its pointer are durable before the log
  is marked and truncated, none of the later calls touches them, and opening reads them before
  the log.
\<close>

subsection \<open>Files that opening leaves alone\<close>

text \<open>A file is left alone, no directory is removed, and working I/O stays so.\<close>

definition kept :: "path \<Rightarrow> fs \<Rightarrow> fs \<Rightarrow> bool" where
  "kept q s s' \<longleftrightarrow> hm_get (files s') q = hm_get (files s) q \<and> (script s = [] \<longrightarrow> script s' = []) \<and> set (dirs s) \<subseteq> set (dirs s')"

lemma kept_trans [trans]: "kept q a b \<Longrightarrow> kept q b c \<Longrightarrow> kept q a c"
  by (auto simp: kept_def)

lemma kept_create_dir: "sys_create_dir_all d s = (r, s') \<Longrightarrow> kept q s s'"
  by (auto simp: sys_create_dir_all_def kept_def next_io_def set_insert_dirs split: list.splits io_outcome.splits)

lemma kept_ckpt_new: "kept q s (ckpt_new s)"
  unfolding ckpt_new_def by (metis kept_create_dir prod.collapse)

lemma kept_lock: "lock_acquire held s = (r, held', s') \<Longrightarrow> q \<noteq> LockFile \<Longrightarrow> kept q s s'"
  by (auto simp: lock_acquire_def kept_def next_io_def name_changes_def map_laws Let_def
      simp del: map_of_eq_Some_iff split: list.splits io_outcome.splits if_splits option.splits)

lemma kept_open_latest:
  assumes "open_latest_segment False s = (r, s')" "segment_seq q = None"
  shows "kept q s s'"
  using assms
  by (auto simp: open_latest_segment_def rotate_open_def kept_def sys_read_dir_def sys_open_def sys_read_def sys_create_def next_io_def
      name_changes_def map_laws Let_def simp del: map_of_eq_Some_iff
      split: list.splits io_outcome.splits if_splits option.splits prod.splits sum.splits)

lemma kept_wal_open:
  assumes "wal_open cfg s = (r, s')" "segment_seq q = None"
  shows "kept q s s'"
proof -
  obtain r1 s1 where 1: "sys_create_dir_all WalDir s = (r1, s1)" by fastforce
  obtain r2 s2 where 2: "open_latest_segment False s1 = (r2, s2)" by fastforce
  note k = kept_create_dir [OF 1, of q] kept_open_latest [OF 2 assms(2)]
  from assms(1) 1 2 have "s' = s1 \<or> s' = s2" by (auto simp: wal_open_def cfg_windows_def split: sum.splits prod.splits)
  with k kept_trans [OF k] show ?thesis by blast
qed

lemma kept_index_dir: "index_dir c ps es s = (r, s') \<Longrightarrow> kept q s s'"
proof (induction ps arbitrary: es s)
  case (Cons p ps)
  obtain r1 s1 where 1: "sys_read p s = (r1, s1)" by fastforce
  have "kept q s s1" using 1 by (auto simp: sys_read_def kept_def next_io_def split: list.splits io_outcome.splits option.splits)
  moreover have "kept q s1 s'" using Cons 1 by (auto split: sum.splits prod.splits)
  ultimately show ?case by (rule kept_trans)
qed (simp add: kept_def)

lemma kept_index_cfs: "index_cfs c l cfs idx s = (r, s') \<Longrightarrow> kept q s s'"
proof (induction cfs arbitrary: idx s)
  case (Cons cf cfs)
  obtain r1 s1 where 1: "sys_read_dir (CfDir l cf) s = (r1, s1)" by fastforce
  have k1: "kept q s s1" using 1 by (auto simp: sys_read_dir_def kept_def next_io_def split: list.splits io_outcome.splits if_splits)
  show ?case
  proof (cases r1)
    case (Inl e)
    with Cons 1 have "kept q s1 s'" by simp
    with k1 show ?thesis by (rule kept_trans)
  next
    case (Inr ps)
    obtain es s2 where 2: "index_dir c ps [] s1 = (es, s2)" by fastforce
    have "kept q s2 s'" using Cons 1 2 Inr by simp
    with kept_trans [OF k1 kept_index_dir [OF 2]] show ?thesis by (rule kept_trans)
  qed
qed (simp add: kept_def)

lemma kept_disk_new:
  assumes "disk_new c l s = (d, s')"
  shows "kept q s s'"
proof -
  obtain r1 s1 where 1: "sys_create_dir_all (LayerDir l) s = (r1, s1)" by fastforce
  obtain idx s2 where 2: "rebuild_index c l s1 = (idx, s2)" by fastforce
  have "s' = s2" using assms 1 2 by (auto simp: disk_new_def)
  moreover have "kept q s1 s2"
    using 2 by (auto simp: rebuild_index_def next_io_def kept_def split: list.splits io_outcome.splits if_splits
        dest!: kept_index_cfs [where q = q])
  ultimately show ?thesis using kept_trans [OF kept_create_dir [OF 1]] by blast
qed

text \<open>Until the checkpoint is read, opening changes no file but the lock and the log.\<close>

lemma opened_history:
  assumes o: "open_with_config env config now held counts s0 = (Inr e, held', counts', s)" and quiet: "script s0 = []"
    and found: "latest_from (en_cc env) (map_option fdata (hm_get (files s0) LatestPointer))
      (\<lambda>i. map_option fdata (hm_get (files s0) (CheckpointFile i))) = Some st"
  shows "ck_committed_txn st \<le> committed_txn (ek_mvcc e)"
    "t \<in> fst ` set (ck_committed_history st) \<Longrightarrow> hm_contains (committed_history (ek_mvcc e)) t"
proof -
  obtain s1 h2 s2 w s3 l2 s4 l3 s5 base s7 ct ch l1 and res :: recovery_result where
    st: "sys_create_dir_all DataDir s0 = (Inr (), s1)" "lock_acquire held s1 = (Inr (), h2, s2)"
      "wal_open engine_wal_config s2 = (Inr w, s3)" "disk_new (en_pc env) L2 s3 = (l2, s4)" "disk_new (en_pc env) L3 s4 = (l3, s5)"
    and base: "recovery_baseline (en_cc env) (ckpt_new s5) = (base, s7)" "unwrap_or (0, []) base = (ct, ch)"
    and e: "e = \<lparr>ek_config = config, ek_wal = w,
       ek_mvcc = recovered_manager (visibility config)
         (fold (\<lambda>p. hm_insert (fst p) (snd p)) (rr_commit_ts_map res) (fold (\<lambda>p. hm_insert (fst p) (snd p)) ch []))
         (rr_inserted_at_map res) now (rr_replay_watermark res) (max ct (max_seen_committed_txn res)),
       ek_cache = cache_new, ek_txn_snapshots = [],
       ek_fe = with_l3 l1 l2 l3 rf_new 0 (max (max_patch_id l2) (max_patch_id l3) + 1),
       ek_txn_counter = saturating_add (max ct (max_seen_committed_txn res)) 1\<rparr>"
      "replay_committed_ops (en_wc env) (strict_mode config) (en_json env) replay_apply (mem_new 67108864 Async) counts s7 =
         (Inr res, l1, counts', s)"
    by (rule open_stages [OF o])
  let ?h = "fold (\<lambda>p. hm_insert (fst p) (snd p)) (rr_commit_ts_map res) (fold (\<lambda>p. hm_insert (fst p) (snd p)) ch [])"
  have k: "kept q s0 (ckpt_new s5)" if "q \<noteq> LockFile" "segment_seq q = None" for q
    using kept_create_dir [OF st(1)] kept_lock [OF st(2) that(1)] kept_wal_open [OF st(3) that(2)] kept_disk_new [OF st(4)]
      kept_disk_new [OF st(5)] kept_ckpt_new by (meson kept_trans)
  have "script (ckpt_new s5) = []" "hm_get (files (ckpt_new s5)) LatestPointer = hm_get (files s0) LatestPointer"
      "\<And>i. hm_get (files (ckpt_new s5)) (CheckpointFile i) = hm_get (files s0) (CheckpointFile i)"
    using quiet k [of LatestPointer] k [of "CheckpointFile _"] by (simp_all add: kept_def)
  then have "load_latest (en_cc env) (ckpt_new s5) = (Some st, ckpt_new s5)" using found by (simp add: load_latest_from)
  then have c: "ct = ck_committed_txn st" "ch = ck_committed_history st" using base by (auto simp: recovery_baseline_def)
  have m: "ek_mvcc e = recovered_manager (visibility config) ?h (rr_inserted_at_map res) now (rr_replay_watermark res)
      (max ct (max_seen_committed_txn res))" unfolding e(1) by simp
  have keys: "fst ` set ch \<subseteq> fst ` set ?h" by (simp add: keys_insert_all)
  have "committed_txn (ek_mvcc e) = fold (\<lambda>p c. if fst p > c then fst p else c) ?h (max ct (max_seen_committed_txn res))"
    unfolding m by (simp add: set_replay_watermark_def recover_committed_history_with_config_def set_committed_txn_def)
  with fold_max_ge [of "max ct (max_seen_committed_txn res)" ?h] show "ck_committed_txn st \<le> committed_txn (ek_mvcc e)"
    unfolding c(1) [symmetric] by (metis max.bounded_iff)
  have "fst ` set (committed_history (ek_mvcc e)) = fst ` set ?h"
    unfolding m by (simp add: set_replay_watermark_def recover_committed_history_with_config_def set_committed_txn_def keys_insert_all)
  with keys c(2) show "t \<in> fst ` set (ck_committed_history st) \<Longrightarrow> hm_contains (committed_history (ek_mvcc e)) t" by blast
qed

subsection \<open>Files that the rest of a checkpoint leaves alone\<close>

lemma remove_segments_only: "remove_segments pos ps n s = (r, s') \<Longrightarrow> wal_only s s'"
proof (induction pos ps n s rule: remove_segments.induct)
  case (2 pos p ps removed s)
  show ?case
  proof (cases "\<exists>q. segment_seq p = Some q \<and> q < pos")
    case True
    then obtain q where q: "segment_seq p = Some q" "q < pos" by blast
    obtain r1 s1 where 1: "sys_remove p s = (r1, s1)" by fastforce
    have "wal_only s s1" using 1 q(1)
      by (auto simp: sys_remove_def wal_only_def next_io_def name_changes_def map_laws simp del: map_of_eq_Some_iff
          split: list.splits io_outcome.splits option.splits if_splits)
    moreover have "wal_only s1 s'" using 2 q 1 by (cases r1) auto
    ultimately show ?thesis by (rule wal_only_trans)
  next
    case False
    with 2 show ?thesis by (auto split: option.splits)
  qed
qed simp

lemma truncate_only: "truncate_before pos w s = (r, s') \<Longrightarrow> wal_only s s'"
proof -
  assume t: "truncate_before pos w s = (r, s')"
  obtain r1 s1 where 1: "sys_read_dir WalDir s = (r1, s1)" by fastforce
  have "wal_only s s1" using 1
    by (auto simp: sys_read_dir_def wal_only_def next_io_def split: list.splits io_outcome.splits if_splits)
  moreover have "s' = s \<or> s' = s1 \<or> wal_only s1 s'"
    using t 1 by (auto simp: truncate_before_def split: if_splits sum.splits dest: remove_segments_only)
  ultimately show ?thesis using wal_only_trans by (metis wal_only_refl)
qed

lemma checkpoint_durable:
  assumes "engine_checkpoint env now e s = (Inr (), e', s')" and "crash_of s' s''" and "serde_ok (ck_ser (en_cc env)) (ck_de (en_cc env))"
  shows "latest_from (en_cc env) (map_option fdata (hm_get (files s'') LatestPointer))
      (\<lambda>i. map_option fdata (hm_get (files s'') (CheckpointFile i))) =
    Some \<lparr>checkpoint_id = committed_txn (ek_mvcc e), ck_committed_txn = committed_txn (ek_mvcc e), timestamp_ms = now,
      ck_committed_history = committed_history_entries (ek_mvcc e)\<rparr>"
proof -
  let ?c = "en_cc env" and ?id = "committed_txn (ek_mvcc e)"
  let ?st = "\<lparr>checkpoint_id = ?id, ck_committed_txn = ?id, timestamp_ms = now,
      ck_committed_history = committed_history_entries (ek_mvcc e)\<rparr>"
  obtain r1 fe s1 where 1: "flush_l1_to_l2 (en_pc env) (en_uuids env) (ek_fe e) s = (r1, fe, s1)" by (rule prod_cases3)
  obtain r2 w s2 where 2: "flush_and_sync (en_wc env) (ek_wal e) s1 = (r2, w, s2)" by (rule prod_cases3)
  obtain r3 s3 where 3: "ckpt_write ?c (fst (en_ck_uuids env)) (snd (en_ck_uuids env)) ?st (ckpt_new s2) = (r3, s3)" by fastforce
  obtain r4 w4 s4 where 4: "append_durable (en_wc env) ?id (WalCheckpoint ?id) w s3 = (r4, w4, s4)" by (rule prod_cases3)
  obtain r5 s5 where 5: "truncate_before (wal_position w4) w4 s4 = (r5, s5)" by fastforce
  have r: "r3 = Inr () \<and> s' = s5"
    using assms(1) by (cases r1; cases r2; cases r3; cases r4; cases r5)
      (auto simp: engine_checkpoint_def ckpt_checkpoint_def 1 2 3 4 5 Let_def)
  have "wal_only s3 s'" using r wal_only_trans [OF wal_only_calls(2) [OF 4] truncate_only [OF 5]] by simp
  then have same: "hm_get (files s') LatestPointer = hm_get (files s3) LatestPointer"
      "\<And>i. hm_get (files s') (CheckpointFile i) = hm_get (files s3) (CheckpointFile i)" by (simp_all add: wal_only_def)
  from ckpt_write_views(3) [OF 3, of "()"] r obtain ev where ev: "ckpt_envelope ?c ?st = Inr ev"
      "\<And>x. crash_view s3 (CheckpointFile ?id) x \<longleftrightarrow> x = Some ev" "\<And>x. crash_view s3 LatestPointer x \<longleftrightarrow> x = Some (u64_to_le ?id)"
      "map_option fdata (hm_get (files s3) (CheckpointFile ?id)) = Some ev" "map_option fdata (hm_get (files s3) LatestPointer) = Some (u64_to_le ?id)"
    by auto
  have after: "map_option fdata (hm_get (files s'') p) = Some d"
    if p: "hm_get (files s') p = hm_get (files s3) p" "map_option fdata (hm_get (files s3) p) = Some d" "\<And>x. crash_view s3 p x \<Longrightarrow> x = Some d" for p d
  proof -
    obtain n where n: "hm_get (files s3) p = Some n" using p(2) by auto
    then obtain n' where n': "hm_get (files s'') p = Some n'" "crash_node n (fdata n')" using assms(2) p(1) unfolding crash_of_def by metis
    have "crash_view s3 p (Some (fdata n'))" using n n'(2) by (auto simp: crash_view_def crash_entry_def)
    with p(3) n'(1) show ?thesis by simp
  qed
  have "map_option fdata (hm_get (files s'') LatestPointer) = Some (u64_to_le ?id)" by (rule after) (use same(1) ev in auto)
  moreover have "map_option fdata (hm_get (files s'') (CheckpointFile ?id)) = Some ev" by (rule after) (use same(2) ev in auto)
  ultimately show ?thesis using decode_encode_envelope [OF assms(3) ev(1), of "[]"] by (auto simp: latest_from_def)
qed

text \<open>
  Checkpoints carry the history. When a checkpoint of the engine has returned success, every
  engine opened after a crash has every transaction of the committed history of that moment in
  its own, and its last committed transaction is not older, whatever is left of the log.
\<close>

lemma checkpoint_restored:
  assumes "serde_ok (ck_ser (en_cc env)) (ck_de (en_cc env))" and "engine_checkpoint env now e s = (Inr (), e', s')"
    and "crash_of s' s''" and "open_with_config env config clock held counts s'' = (Inr e1, held', counts', s1)"
  shows "committed_txn (ek_mvcc e) \<le> committed_txn (ek_mvcc e1) \<and>
    (\<forall>t. hm_contains (committed_history (ek_mvcc e)) t \<longrightarrow> hm_contains (committed_history (ek_mvcc e1)) t)"
proof -
  have "script s'' = []" using assms(3) by (simp add: crash_of_def)
  note h = opened_history [OF assms(4) this checkpoint_durable [OF assms(2,3,1)]]
  have "fst ` set (committed_history_entries (ek_mvcc e)) = fst ` set (committed_history (ek_mvcc e))"
    unfolding committed_history_entries_def by (simp add: image_image split_beta)
  with h show ?thesis by simp
qed

text \<open>The example: an engine with one committed transaction writes a checkpoint.\<close>

definition mark_entry :: wal_entry where
  "mark_entry = \<lparr>we_txn_id = 1, we_record = WalCheckpoint 1\<rparr>"

definition ck_env :: engine_env where
  "ck_env = sample_env\<lparr>en_wc := \<lparr>wc_ser = (\<lambda>x. if x = mark_entry then Some [9] else None),
       wc_de = (\<lambda>b. if b = [9] then Some mark_entry else None), wc_crc = (\<lambda>_. 0)\<rparr>,
     en_cc := \<lparr>ck_ser = (\<lambda>st. if ck_committed_history st = [(1, 6)] \<and> ck_committed_txn st = 1 \<and> checkpoint_id st = 1 \<and> timestamp_ms st = 0
         then Some [5] else None),
       ck_de = (\<lambda>_. Some \<lparr>checkpoint_id = 1, ck_committed_txn = 1, timestamp_ms = 0, ck_committed_history = [(1, 6)]\<rparr>),
       ck_crc = (\<lambda>_. 0)\<rparr>\<rparr>"

definition ck_engine :: z1kv where
  "ck_engine = sample_engine\<lparr>ek_mvcc := sample_history\<rparr>"

lemma ck_serde: "serde_ok (ck_ser (en_cc ck_env)) (ck_de (en_cc ck_env))"
  by (auto simp: serde_ok_def ck_env_def split: if_splits)

definition ck_fs :: fs where
  "ck_fs = \<lparr>files = [(WalSegment 0, \<lparr>fdata = u32_to_le 1 @ u32_to_le 0 @ [9], fdurable = u32_to_le 1 @ u32_to_le 0 @ [9]\<rparr>),
       (CheckpointFile 1, \<lparr>fdata = ckpt_magic @ ckpt_version # u32_to_le 0 @ u32_to_le 1 @ [5],
          fdurable = ckpt_magic @ ckpt_version # u32_to_le 0 @ u32_to_le 1 @ [5]\<rparr>),
       (LatestPointer, \<lparr>fdata = u64_to_le 1, fdurable = u64_to_le 1\<rparr>)],
     unsynced = [(WalSegment 0, None)], dirs = [CheckpointDir, DataDir, WalDir], script = [], mono_clock = 0\<rparr>"

lemma ck_written: "\<exists>e'. engine_checkpoint ck_env 0 ck_engine (fresh_fs \<lparr>fdata = [], fdurable = []\<rparr>) = (Inr (), e', ck_fs)"
  by (simp add: engine_checkpoint_def ck_env_def ck_engine_def sample_engine_def sample_env_def fresh_fs_def fresh_writer_def
    flush_l1_to_l2_def swap_and_drain_def empty_stack_def with_l3_def mem_new_def rf_new_def cache_merge_def
    rf_get_all_def rf_clear_def increment_epoch_def ckpt_checkpoint_def ckpt_write_def ckpt_envelope_def wal_eval ckpt_new_def
    committed_history_entries_def new_with_config_def flush_and_sync_def flush_queue_def encode_record_def max_wal_record_len_def
    wal_position_def truncate_before_def write_durable_def write_durable_once_def write_to_temp_def fsync_data_def fsync_file_def
    writer_commit_def atomic_rename_def fsync_parent_dir_def name_changes_def put_bytes_def hm_insert_def hm_remove_def
    u32_max_nat_def sys_defs mark_entry_def ck_fs_def Let_def)

lemma ck_crash: "crash_of ck_fs ck_fs"
proof -
  have "crash_node n (fdata n)" for n
    by (auto simp: crash_node_def is_prefix_def intro!: exI [of _ "length (fdata n)"]) (metis length_take min.cobounded1)
  then show ?thesis by (simp add: crash_of_def) (simp add: ck_fs_def)
qed

lemma ck_opens: "\<exists>e h c s. open_with_config ck_env default_z1_config 9 False [] ck_fs = (Inr e, h, c, s)"
proof -
  define s6 where "s6 = ck_fs\<lparr>files := files ck_fs @ [(LockFile, \<lparr>fdata = [], fdurable = []\<rparr>)],
    unsynced := [(WalSegment 0, None), (LockFile, None)], dirs := [LayerDir L3, LayerDir L2, CheckpointDir, DataDir, WalDir]\<rparr>"
  obtain w s3 where 3: "wal_open engine_wal_config (snd (snd (lock_acquire False (snd (sys_create_dir_all DataDir ck_fs))))) = (Inr w, s3)"
      "s3 = s6\<lparr>dirs := [CheckpointDir, DataDir, WalDir]\<rparr>"
    by (simp add: s6_def ck_fs_def lock_acquire_def wal_open_def open_latest_segment_def cfg_windows_def sys_defs name_changes_def
        hm_insert_def dir_files_def Let_def engine_wal_config_def)
  have 4: "disk_new (en_pc ck_env) L2 s3 = (\<lparr>dl_layer = L2, dl_index = [], dl_content = []\<rparr>, s6\<lparr>dirs := [LayerDir L2, CheckpointDir, DataDir, WalDir]\<rparr>)"
    unfolding 3(2) by (simp add: s6_def ck_fs_def disk_new_def rebuild_index_def sys_defs map_filter_simps)
  have 5: "disk_new (en_pc ck_env) L3 (s6\<lparr>dirs := [LayerDir L2, CheckpointDir, DataDir, WalDir]\<rparr>) =
      (\<lparr>dl_layer = L3, dl_index = [], dl_content = []\<rparr>, s6)"
    by (simp add: s6_def ck_fs_def disk_new_def rebuild_index_def sys_defs map_filter_simps)
  have 6: "ckpt_new s6 = s6" by (simp add: s6_def ck_fs_def ckpt_new_def sys_defs)
  have quiet: "script s6 = []" by (simp add: s6_def ck_fs_def)
  then obtain base where 7: "recovery_baseline (en_cc ck_env) s6 = (base, s6)" by (simp add: recovery_baseline_def load_latest_from)
  have cd: "codec_ok (en_wc ck_env)" by (auto simp: serde_ok_def ck_env_def split: if_splits)
  have "encodable (en_wc ck_env) mark_entry" "enc (en_wc ck_env) mark_entry = u32_to_le 1 @ u32_to_le 0 @ [9]"
    by (simp_all add: encodable_def enc_def encode_record_def ck_env_def max_wal_record_len_def)
  note seg = replay_segment_encoded [OF cd this(1) quiet, of True "[]" "[]", unfolded this(2)]
  have rep: "replay_all (en_wc ck_env) s6 = (Inr [mark_entry], s6)"
    using seg quiet by (simp add: replay_all_def s6_def ck_fs_def sys_defs dir_files_def map_filter_simps)
  from recovered_store_full [OF rep, of "strict_mode default_z1_config" "en_json ck_env" 67108864 Async "[]"] obtain res l1 where
    8: "replay_committed_ops (en_wc ck_env) (strict_mode default_z1_config) (en_json ck_env) replay_apply (mem_new 67108864 Async) [] s6 =
        (Inr res, l1, [], s6)" by blast
  obtain ct ch where b: "unwrap_or (0, []) base = (ct, ch)" by fastforce
  have 1: "sys_create_dir_all DataDir ck_fs = (Inr (), snd (sys_create_dir_all DataDir ck_fs))" by (simp add: ck_fs_def sys_defs)
  have 2: "lock_acquire False (snd (sys_create_dir_all DataDir ck_fs)) = (Inr (), True, snd (snd (lock_acquire False (snd (sys_create_dir_all DataDir ck_fs)))))"
    by (simp add: ck_fs_def sys_defs lock_acquire_def)
  show ?thesis unfolding open_with_config_def
    by (subst 1, simp only: prod.case sum.case, subst 2) (auto simp: 3(1) 4 5 6 7 b 8 Let_def)
qed

lemma checkpoint_restored_example:
  "\<exists>e h c s. open_with_config ck_env default_z1_config 9 False [] ck_fs = (Inr e, h, c, s) \<and>
     hm_contains (committed_history (ek_mvcc e)) 1 \<and> 1 \<le> committed_txn (ek_mvcc e)"
proof -
  obtain e' where w: "engine_checkpoint ck_env 0 ck_engine (fresh_fs \<lparr>fdata = [], fdurable = []\<rparr>) = (Inr (), e', ck_fs)"
    using ck_written by blast
  obtain e h c s where o: "open_with_config ck_env default_z1_config 9 False [] ck_fs = (Inr e, h, c, s)" using ck_opens by blast
  from checkpoint_restored [OF ck_serde w ck_crash o] o show ?thesis by (auto simp: ck_engine_def)
qed

end
