(* ===== verification/Runs.thy ===== *)
theory Runs
  imports Restart "HOL-Library.Code_Target_Numeral"
begin

section \<open>Runs of the engine from an empty directory\<close>

text \<open>
  Complete sessions, evaluated: the engine is opened on an empty data directory with working I/O
  and driven through its public operations. Each run shows what a client observes when
  flushing, compaction and restarts meet the transactions of other clients. The thresholds of
  the configuration are set so that a commit compacts as soon as the second layer holds a patch.
\<close>

definition run_engine :: "engine_env \<Rightarrow> z1_config \<Rightarrow> engine_op list \<Rightarrow> fs \<Rightarrow> (z1kv \<times> fs) option" where
  "run_engine env config ops s =
     (case open_with_config env config 0 False [] s of
        (Inl _, _) \<Rightarrow> None
      | (Inr e, _, _, s1) \<Rightarrow>
          if committed_txn (ek_mvcc e) < ek_txn_counter e then Some (fold (engine_exec env) ops (e, s1)) else None)"

lemma exec_all_reachable:
  "engine_reachable env e s \<Longrightarrow> fold (engine_exec env) ops (e, s) = (e', s') \<Longrightarrow> engine_reachable env e' s'"
proof (induction ops arbitrary: e s)
  case (Cons op ops)
  obtain e1 s1 where x: "engine_exec env op (e, s) = (e1, s1)" by fastforce
  from Cons.IH [OF called [OF Cons.prems(1) x]] Cons.prems(2) x show ?case by simp
qed simp

lemma run_engine_reachable:
  assumes "run_engine env config ops s = Some (e, s')"
  shows "engine_reachable env e s'"
proof -
  obtain r held counts s1 where o: "open_with_config env config 0 False [] s = (r, held, counts, s1)" by (rule prod_cases4)
  with assms obtain e1 where e1: "r = Inr e1" "committed_txn (ek_mvcc e1) < ek_txn_counter e1"
      "fold (engine_exec env) ops (e1, s1) = (e, s')"
    by (auto simp: run_engine_def split: sum.splits if_splits)
  show ?thesis by (rule exec_all_reachable [OF opened [OF o [unfolded e1(1)] e1(2)] e1(3)])
qed

text \<open>The codecs of the runs: tables of the records and patches that occur in them.\<close>

definition run_log :: "(wal_entry \<times> bytes) list" where
  "run_log =
     [(\<lparr>we_txn_id = 1, we_record = WalPut 0 [1] (Some [7])\<rparr>, [1]), (\<lparr>we_txn_id = 1, we_record = WalCommit 1 2\<rparr>, [2]),
      (\<lparr>we_txn_id = 2, we_record = WalPut 0 [1] (Some [8])\<rparr>, [3]), (\<lparr>we_txn_id = 2, we_record = WalCommit 2 7\<rparr>, [4]),
      (\<lparr>we_txn_id = 2, we_record = WalRollback\<rparr>, [5]), (\<lparr>we_txn_id = 1, we_record = WalRollback\<rparr>, [6]),
      (\<lparr>we_txn_id = 1, we_record = WalPut 0 [2] (Some [9])\<rparr>, [7]), (\<lparr>we_txn_id = 3, we_record = WalCommit 3 7\<rparr>, [8])]"

definition run_wc :: wal_codec where
  "run_wc = \<lparr>wc_ser = map_of run_log, wc_de = map_of (map prod.swap run_log), wc_crc = (\<lambda>_. 0)\<rparr>"

definition run_patches :: "(z1_patch_format \<times> bytes) list" where
  "run_patches = [(Sparse shadow_patch, [42]), (Sparse (drop 1 shadow_patch), [43]), (Sparse (take 1 shadow_patch), [44])]"

definition run_env :: engine_env where
  "run_env = sample_env\<lparr>en_wc := run_wc, en_pc := table_codec run_patches\<rparr>"

definition run_config :: z1_config where
  "run_config = with_l2_compaction_threshold 1 (with_checkpoint_wal_size_threshold 0 default_z1_config)"

lemma run_codecs_ok: "codec_ok (en_wc run_env)" "serde_ok (pc_ser (en_pc run_env)) (pc_de (en_pc run_env))"
proof -
  show "codec_ok (en_wc run_env)" by (auto simp: serde_ok_def run_env_def run_wc_def run_log_def split: if_splits)
  show "serde_ok (pc_ser (en_pc run_env)) (pc_de (en_pc run_env))"
    unfolding run_env_def by (simp add: run_patches_def shadow_patch_def table_codec_ok)
qed

text \<open>What a read of the key returns, inside transaction 3 and outside any transaction; the next
  commit; a restart on the files that are there.\<close>

fun seen_in_3 :: "(z1kv \<times> fs) option \<Rightarrow> bytes option z1result option" where
  "seen_in_3 None = None"
| "seen_in_3 (Some (e, s)) = Some (fst (get_for_txn run_env 0 [1] 3 e s))"

fun seen :: "(z1kv \<times> fs) option \<Rightarrow> bytes option z1result option" where
  "seen None = None"
| "seen (Some (e, s)) = Some (fst (engine_get run_env 0 [1] e s))"

fun committed :: "txn_id \<Rightarrow> (z1kv \<times> fs) option \<Rightarrow> (z1kv \<times> fs) option" where
  "committed t None = None"
| "committed t (Some st) = Some (engine_exec run_env (ECommit (7, 8, 9, 10) t) st)"

fun restarted :: "engine_op list \<Rightarrow> (z1kv \<times> fs) option \<Rightarrow> (z1kv \<times> fs) option" where
  "restarted ops None = None"
| "restarted ops (Some (e, s)) = run_engine run_env run_config ops s"

lemma run_from: "seen_in_3 r = Some x \<Longrightarrow> \<exists>e s. r = Some (e, s)" "seen r = Some x \<Longrightarrow> \<exists>e s. r = Some (e, s)"
  by (cases r; auto)+

subsection \<open>Compaction under running transactions\<close>

definition overlapping_ops :: "engine_op list" where
  "overlapping_ops =
     [EBegin, EPut 1 0 [1] [7] 1, ECommit (2, 3, 4, 5) 1,
      EBegin, EBegin, EPut 6 0 [1] [8] 2, EFlushNow, EFlushNow]"

lemma overlapping_before: "seen_in_3 (run_engine run_env run_config overlapping_ops empty_fs) = Some (Inr (Some [7]))"
  by code_simp

lemma overlapping_after: "seen_in_3 (committed 2 (run_engine run_env run_config overlapping_ops empty_fs)) = Some (Inr None)"
  by code_simp


subsection \<open>Compaction after a rollback\<close>

definition rolled_back_ops :: "engine_op list" where
  "rolled_back_ops =
     [EBegin, EPut 1 0 [1] [7] 1, ECommit (2, 3, 4, 5) 1,
      EBegin, EPut 6 0 [1] [8] 2, ERollback 2, EFlushNow, EFlushNow, EBegin]"

lemma rolled_back_before: "seen (run_engine run_env run_config rolled_back_ops empty_fs) = Some (Inr (Some [7]))"
  by code_simp

lemma rolled_back_after: "seen (committed 3 (run_engine run_env run_config rolled_back_ops empty_fs)) = Some (Inr None)"
  by code_simp

text \<open>
  C10. A committed value is lost. Transaction 1 has committed a value of the key, transaction 2
  overwrote it and was rolled back, and the versions are flushed. A read returns the committed
  value until the next commit compacts: the collector keeps the rolled-back version as the
  newest one below the watermark and drops the committed one.
\<close>

theorem compaction_loses_committed_value:
  "\<exists>e s e' s'. run_engine run_env run_config rolled_back_ops empty_fs = Some (e, s) \<and> engine_reachable run_env e s \<and>
     engine_exec run_env (ECommit (7, 8, 9, 10) 3) (e, s) = (e', s') \<and>
     fst (engine_get run_env 0 [1] e s) = Inr (Some [7]) \<and> fst (engine_get run_env 0 [1] e' s') = Inr None"
proof -
  obtain e s where r: "run_engine run_env run_config rolled_back_ops empty_fs = Some (e, s)"
    using run_from(2) [OF rolled_back_before] by blast
  obtain e' s' where x: "engine_exec run_env (ECommit (7, 8, 9, 10) 3) (e, s) = (e', s')" by fastforce
  show ?thesis using rolled_back_before rolled_back_after r x run_engine_reachable [OF r] by simp
qed

subsection \<open>Restart after a rollback\<close>

definition aborted_ops :: "engine_op list" where
  "aborted_ops = [EBegin, EPut 1 0 [1] [7] 1, EFlushNow, ERollback 1]"

definition restarted_ops :: "engine_op list" where
  "restarted_ops = [EBegin, EPut 1 0 [2] [9] 1, ECommit (2, 3, 4, 5) 1]"

lemma aborted_before: "seen (run_engine run_env run_config aborted_ops empty_fs) = Some (Inr None)"
  by code_simp

lemma aborted_after:
  "seen (restarted restarted_ops (run_engine run_env run_config aborted_ops empty_fs)) = Some (Inr (Some [7]))"
  by code_simp

text \<open>
  C11. A rolled-back write resurfaces. A transaction writes a key, the version is flushed, and the
  transaction is rolled back: the key reads as absent. After a restart the first transaction
  gets the same id, because the counter starts after the highest committed one; it writes
  another key and commits, and with it the flushed version of the rolled-back transaction
  becomes visible.
\<close>

theorem rolled_back_write_resurfaces:
  "\<exists>e s e' s'. run_engine run_env run_config aborted_ops empty_fs = Some (e, s) \<and>
     run_engine run_env run_config restarted_ops s = Some (e', s') \<and> engine_reachable run_env e' s' \<and>
     fst (engine_get run_env 0 [1] e s) = Inr None \<and> fst (engine_get run_env 0 [1] e' s') = Inr (Some [7])"
proof -
  obtain e s where r: "run_engine run_env run_config aborted_ops empty_fs = Some (e, s)"
    using run_from(2) [OF aborted_before] by blast
  obtain e' s' where r': "run_engine run_env run_config restarted_ops s = Some (e', s')"
    using run_from(2) [OF aborted_after] r by auto
  show ?thesis using aborted_before aborted_after r r' run_engine_reachable [OF r'] by simp
qed

subsection \<open>A write that never reached the log\<close>

fun put_and_commit :: "(z1kv \<times> fs) option \<Rightarrow> (unit z1result \<times> unit z1result \<times> z1kv \<times> fs) option" where
  "put_and_commit None = None"
| "put_and_commit (Some (e, s)) =
     (case engine_put run_env 1 0 [1] [7] 1 e (s\<lparr>script := [IoFail OtherIo 0]\<rparr>) of
        (r1, e1, s1) \<Rightarrow> (case engine_commit run_env (2, 3, 4, 5) 1 e1 s1 of (r2, e2, s2) \<Rightarrow> Some (r1, r2, e2, s2)))"

fun put_report :: "(unit z1result \<times> unit z1result \<times> z1kv \<times> fs) option \<Rightarrow>
    (unit z1result \<times> unit z1result \<times> bytes option z1result option \<times> bytes option z1result option) option" where
  "put_report None = None"
| "put_report (Some (r1, r2, e, s)) = Some (r1, r2, seen (Some (e, s)), seen (restarted [] (Some (e, s))))"

lemma unlogged_report:
  "put_report (put_and_commit (run_engine run_env run_config [EBegin] empty_fs)) =
     Some (Inr (), Inr (), Some (Inr (Some [7])), Some (Inr None))"
  by code_simp

text \<open>
  C12. An acknowledged write is lost. The engine opens its memory store without waiting for the
  log, so a write whose log record could not be written reports success; the commit of its
  transaction reports success as well and the value is read back, but after a restart it is gone.
\<close>

theorem acknowledged_write_lost:
  "\<exists>e s e1 s1 e2 s2 e3 s3. run_engine run_env run_config [EBegin] empty_fs = Some (e, s) \<and>
     engine_put run_env 1 0 [1] [7] 1 e (s\<lparr>script := [IoFail OtherIo 0]\<rparr>) = (Inr (), e1, s1) \<and>
     engine_commit run_env (2, 3, 4, 5) 1 e1 s1 = (Inr (), e2, s2) \<and> fst (engine_get run_env 0 [1] e2 s2) = Inr (Some [7]) \<and>
     run_engine run_env run_config [] s2 = Some (e3, s3) \<and> fst (engine_get run_env 0 [1] e3 s3) = Inr None"
proof -
  obtain e s where r: "run_engine run_env run_config [EBegin] empty_fs = Some (e, s)"
    using unlogged_report by (cases "run_engine run_env run_config [EBegin] empty_fs") auto
  obtain r1 e1 s1 where p: "engine_put run_env 1 0 [1] [7] 1 e (s\<lparr>script := [IoFail OtherIo 0]\<rparr>) = (r1, e1, s1)" by (rule prod_cases3)
  obtain r2 e2 s2 where c: "engine_commit run_env (2, 3, 4, 5) 1 e1 s1 = (r2, e2, s2)" by (rule prod_cases3)
  have rep: "r1 = Inr ()" "r2 = Inr ()" "fst (engine_get run_env 0 [1] e2 s2) = Inr (Some [7])"
      "seen (run_engine run_env run_config [] s2) = Some (Inr None)"
    using unlogged_report r p c by simp_all
  obtain e3 s3 where r3: "run_engine run_env run_config [] s2 = Some (e3, s3)" using run_from(2) [OF rep(4)] by blast
  show ?thesis using r p c rep r3 by simp
qed

end
