(* ===== verification/Maintenance.thy ===== *)
theory Maintenance
  imports Runs
begin

section \<open>Maintenance under running transactions\<close>

text \<open>
  What flushing, compacting and writing a checkpoint do to the versions of an engine in use: the
  exact result of a compaction, and which reads of running transactions stay as they were.
\<close>

subsection \<open>The result of a compaction\<close>

lemma no_index_no_contents: "cf \<notin> set (list_cfs d) \<Longrightarrow> layer_contents c d s cf = []"
proof -
  assume "cf \<notin> set (list_cfs d)"
  then have "hm_get (dl_index d) cf = None" by (simp add: list_cfs_def map_of_eq_None_iff)
  then show ?thesis by (simp add: layer_contents_def entries_at_def)
qed

lemma compact_collects:
  assumes ok: "flush_ok c fe s" "serde_ok (pc_ser c) (pc_de c)" "script s = []"
    and bound: "unat (fe_next_patch_id fe) + length (list_cfs (fe_l2 fe)) < 2 ^ 64"
    and run: "compact_l2_to_l3 c uuids w fe s = (Inr n, fe', s')"
  shows "collected c w (set (list_cfs (fe_l2 fe))) fe s fe' s'"
proof -
  obtain r1 fe1 s1 where 1: "compact_cfs c uuids w (list_cfs (fe_l2 fe)) (0, 0) fe s = (r1, fe1, s1)" by (rule prod_cases3)
  have res: "\<exists>m. r1 = Inr m" "s' = s1" "fe' = fe1 \<or> fe' = fe1\<lparr>fe_flush_epoch := fe_flush_epoch fe1 + 1\<rparr>"
    using run 1 by (auto simp: compact_l2_to_l3_def split: sum.splits prod.splits if_splits)
  have "distinct (list_cfs (fe_l2 fe))" using ok(1) by (auto simp: flush_ok_def disk_ok_def list_cfs_def dest: bt_wf_distinct)
  with compact_cfs_collects [OF ok _ bound] 1 res(1) have "collected c w (set (list_cfs (fe_l2 fe))) fe s fe1 s1" by blast
  with res(2,3) show ?thesis by (elim disjE) (simp_all add: collected_def)
qed

text \<open>
  C17. The result of a compaction. With working I/O a compaction that reports success leaves
  nothing in the second layer, adds to the third exactly what the collector retains of each
  column family, leaves the memory and the recent-flush cache alone and keeps the invariant.
\<close>

theorem compaction_exact:
  assumes "flush_ok c fe s" and "serde_ok (pc_ser c) (pc_de c)" and "script s = []" and "view_single (base_view c fe s)"
    and "unat (fe_next_patch_id fe) + length (list_cfs (fe_l2 fe)) < 2 ^ 64"
    and "compact_l2_to_l3 c uuids w fe s = (Inr n, fe', s')"
  shows "disk_view c (fe_l2 fe') s' = {} \<and>
    disk_view c (fe_l3 fe') s' = disk_view c (fe_l3 fe) s \<union>
      (\<Union>cf. stored_in cf ` set (fst (gc_entries (layer_contents c (fe_l2 fe) s cf) w))) \<and>
    fe_l1 fe' = fe_l1 fe \<and> fe_recent fe' = fe_recent fe \<and> flush_ok c fe' s'"
proof -
  let ?cfs = "set (list_cfs (fe_l2 fe))"
  note col = compact_collects [OF assms(1-3,5,6)]
  have "layer_contents c (fe_l2 fe') s' cf = []" for cf
    using col no_index_no_contents [of cf "fe_l2 fe" c s] by (auto simp: collected_def)
  moreover have "(\<Union>cf \<in> ?cfs. F cf) = (\<Union>cf. F cf)" if f: "F = (\<lambda>cf. stored_in cf ` set (fst (gc_entries (layer_contents c (fe_l2 fe) s cf) w)))" for F
  proof -
    have "F cf = {}" if "cf \<notin> ?cfs" for cf using no_index_no_contents [OF that, of c s] by (simp add: f)
    then show ?thesis by blast
  qed
  ultimately show ?thesis
    using col compact_keeps_reads [OF assms] by (simp add: collected_def disk_view_def)
qed

text \<open>The example: one patch with two versions of a key, collected with watermark 3.\<close>

fun stack_of :: "unit z1result \<times> disk_layer \<times> fs \<Rightarrow> flush_engine \<times> fs" where
  "stack_of (_, d, s) = (empty_stack\<lparr>fe_l2 := d, fe_next_patch_id := 2\<rparr>, s)"

definition collected_example :: "(nat \<times> nat) z1result \<times> flush_engine \<times> fs" where
  "collected_example =
     (case stack_of (append_patch (en_pc run_env) (0, 1, 2) 0 shadow_patch 1 (empty_layer L2) quiet_fs) of
        (fe, s) \<Rightarrow> compact_l2_to_l3 (en_pc run_env) (en_uuids run_env) 3 fe s)"

lemma collected_example_result: "fst collected_example = Inr (1, 1)"
  by code_simp

lemma run_patch_layer:
  "\<exists>d s. append_patch (en_pc run_env) (0, 1, 2) 0 shadow_patch 1 (empty_layer L2) quiet_fs = (Inr (), d, s) \<and> script s = [] \<and>
     flush_ok (en_pc run_env) (empty_stack\<lparr>fe_l2 := d, fe_next_patch_id := 2\<rparr>) s \<and>
     disk_view (en_pc run_env) d s = {(Z1Key 0 [1], 1, Some [7]), (Z1Key 0 [1], 2, Some [8])}"
  by (rule shadow_layer_written) (simp add: run_env_def table_codec_def run_patches_def, rule run_codecs_ok(2))

lemma stack_view:
  "view c (empty_stack\<lparr>fe_l2 := d, fe_next_patch_id := n\<rparr>) s = disk_view c d s"
  "base_view c (empty_stack\<lparr>fe_l2 := d, fe_next_patch_id := n\<rparr>) s = disk_view c d s"
proof -
  show "view c (empty_stack\<lparr>fe_l2 := d, fe_next_patch_id := n\<rparr>) s = disk_view c d s" by (simp add: view_layers)
  have "hot (fe_l1 empty_stack) = []" "cold (fe_l1 empty_stack) = []" by (simp_all add: empty_stack_def with_l3_def mem_new_def)
  then show "base_view c (empty_stack\<lparr>fe_l2 := d, fe_next_patch_id := n\<rparr>) s = disk_view c d s"
    by (simp add: base_view_def pending_view_def)
qed

theorem compaction_exact_witness:
  "case collected_example of (r, fe, s) \<Rightarrow> disk_view (en_pc run_env) (fe_l2 fe) s = {} \<and> flush_ok (en_pc run_env) fe s"
proof -
  let ?c = "en_pc run_env"
  obtain d s where a: "append_patch ?c (0, 1, 2) 0 shadow_patch 1 (empty_layer L2) quiet_fs = (Inr (), d, s)" "script s = []"
    and ok: "flush_ok ?c (empty_stack\<lparr>fe_l2 := d, fe_next_patch_id := 2\<rparr>) s"
    and dv: "disk_view ?c d s = {(Z1Key 0 [1], 1, Some [7]), (Z1Key 0 [1], 2, Some [8])}" using run_patch_layer by blast
  let ?fe = "empty_stack\<lparr>fe_l2 := d, fe_next_patch_id := 2\<rparr>"
  obtain fe' s' where x: "compact_l2_to_l3 ?c (en_uuids run_env) 3 ?fe s = (Inr (1, 1), fe', s')" "collected_example = (Inr (1, 1), fe', s')"
    using collected_example_result a(1) by (cases collected_example) (auto simp: collected_example_def)
  have "view_single (base_view ?c ?fe s)" by (simp add: stack_view dv view_single_def)
  moreover have "length (list_cfs d) \<le> 1" using a(1)
    by (auto simp: append_patch_def empty_layer_def list_cfs_def Let_def split: prod.splits sum.splits if_splits)
  ultimately show ?thesis
    using compaction_exact [OF ok run_codecs_ok(2) a(2) _ _ x(1)] unfolding x(2) prod.case by simp
qed

subsection \<open>Checkpoints leave the layers alone\<close>

text \<open>No file of a disk layer changes and no directory is removed.\<close>

definition patches_kept :: "fs \<Rightarrow> fs \<Rightarrow> bool" where
  "patches_kept s s' \<longleftrightarrow> set (dirs s) \<subseteq> set (dirs s') \<and> (script s = [] \<longrightarrow> script s' = []) \<and>
     (\<forall>q. patch_owner q \<noteq> None \<longrightarrow> hm_get (files s') q = hm_get (files s) q)"

lemma patches_kept_trans [trans]: "patches_kept a b \<Longrightarrow> patches_kept b c \<Longrightarrow> patches_kept a c"
  unfolding patches_kept_def by (elim conjE, intro conjI) (blast, simp, simp)

lemma patches_kept_log:
  assumes "wal_only s s'" "script s = [] \<longrightarrow> script s' = []"
  shows "patches_kept s s'"
  using assms patch_owner_not_segment unfolding wal_only_def patches_kept_def by (metis not_Some_eq subset_refl)

lemma patches_kept_ckpt_new: "patches_kept s (ckpt_new s)"
proof -
  obtain r s1 where 1: "sys_create_dir_all CheckpointDir s = (r, s1)" by fastforce
  note undisturbed_create_dir [OF 1] and kept_create_dir [OF 1]
  then show ?thesis using 1 by (auto simp: patches_kept_def ckpt_new_def undisturbed_def kept_def)
qed

lemma patches_kept_write:
  assumes "write_durable u p bs s = (r, s')" "patch_owner p = None"
  shows "patches_kept s s'"
proof -
  have own: "patch_owner (TempFile p i) = None" for i using assms(2) by simp
  have "undisturbed q s s'" if "patch_owner q \<noteq> None" for q
    by (rule write_durable_other [OF assms(1)]) (use that assms(2) own in metis)+
  then have "\<forall>q. patch_owner q \<noteq> None \<longrightarrow> undisturbed q s s'" by blast
  moreover have "undisturbed (PatchFile L2 0 0) s s'" using calculation by simp
  ultimately show ?thesis using quiet_write_durable [OF _ assms(1)] unfolding patches_kept_def undisturbed_def by blast
qed

lemma patches_kept_ckpt_write:
  assumes "ckpt_write c u1 u2 st s = (r, s')"
  shows "patches_kept s s'"
  using assms
proof (cases rule: ckpt_write_cases)
  case encode
  then show ?thesis by (simp add: patches_kept_def)
next
  case (first e env)
  show ?thesis by (rule patches_kept_write [OF first(3)]) simp
next
  case (both env s1 q r2)
  have "patches_kept s s1" by (rule patches_kept_write [OF both(2)]) simp
  also have "patches_kept s1 s'" by (rule patches_kept_write [OF both(3)]) simp
  finally show ?thesis .
qed

lemma quiet_truncate: "truncate_before pos w s = (r, s') \<Longrightarrow> script s = [] \<Longrightarrow> script s' = []"
proof -
  have "remove_segments pos ps n s = (r, s') \<Longrightarrow> script s = [] \<Longrightarrow> script s' = []" for ps n s
  proof (induction pos ps n s rule: remove_segments.induct)
    case (2 pos p ps n s)
    then show ?case by (auto simp: sys_remove_def split: option.splits if_splits prod.splits sum.splits)
  qed simp
  then show "truncate_before pos w s = (r, s') \<Longrightarrow> script s = [] \<Longrightarrow> script s' = []"
    by (auto simp: truncate_before_def sys_read_dir_def split: if_splits)
qed

lemma patches_kept_checkpoint:
  assumes "ckpt_checkpoint c wc u1 u2 now cid ctxn history w s = (r, w', s')"
  shows "patches_kept s s'"
proof -
  let ?st = "\<lparr>checkpoint_id = cid, ck_committed_txn = ctxn, timestamp_ms = now, ck_committed_history = history\<rparr>"
  obtain r1 s1 where 1: "ckpt_write c u1 u2 ?st s = (r1, s1)" by fastforce
  obtain r2 w2 s2 where 2: "append_durable wc ctxn (WalCheckpoint cid) w s1 = (r2, w2, s2)" by (rule prod_cases3)
  obtain r3 s3 where 3: "truncate_before (wal_position w2) w2 s2 = (r3, s3)" by fastforce
  have k1: "patches_kept s s1" by (rule patches_kept_ckpt_write [OF 1])
  have k2: "patches_kept s1 s2" using wal_only_calls(2) [OF 2] quiet_log(1) [OF 2] by (intro patches_kept_log) auto
  have k3: "patches_kept s2 s3" using truncate_only [OF 3] quiet_truncate [OF 3] by (intro patches_kept_log) auto
  have "s' = s1 \<or> s' = s2 \<or> s' = s3"
    using assms by (cases r1; cases r2; cases r3) (auto simp: ckpt_checkpoint_def 1 2 3 Let_def)
  with k1 patches_kept_trans [OF k1 k2] patches_kept_trans [OF patches_kept_trans [OF k1 k2] k3] show ?thesis by blast
qed

lemma patches_kept_layers:
  assumes "flush_ok c fe s" "patches_kept s s'"
  shows "flush_ok c fe s'" "disk_view c (fe_l2 fe) s' = disk_view c (fe_l2 fe) s" "disk_view c (fe_l3 fe) s' = disk_view c (fe_l3 fe) s"
    "view c fe s' = view c fe s" "base_view c fe s' = base_view c fe s"
proof -
  have same: "hm_get (files s') q = hm_get (files s) q" if "ids_below d n" "q \<in> layer_paths d" for d n q
    using that assms(2) unfolding ids_below_def patches_kept_def by (metis option.distinct(1))
  have ids: "ids_below (fe_l2 fe) (unat (fe_next_patch_id fe))" "ids_below (fe_l3 fe) (unat (fe_next_patch_id fe))"
      "disk_ok c (fe_l2 fe) s" "disk_ok c (fe_l3 fe) s"
    using assms(1) by (simp_all add: flush_ok_def)
  note l2 = disk_ok_cong [OF ids(3) same [OF ids(1)]] and l3 = disk_ok_cong [OF ids(4) same [OF ids(2)]]
  show "flush_ok c fe s'" using assms(1) l2(1) l3(1) by (simp add: flush_ok_def)
  show "disk_view c (fe_l2 fe) s' = disk_view c (fe_l2 fe) s" "disk_view c (fe_l3 fe) s' = disk_view c (fe_l3 fe) s"
    using disk_view_cong l2(2) l3(2) by blast+
  then show "view c fe s' = view c fe s" "base_view c fe s' = base_view c fe s" by (simp_all add: view_def base_view_def)
qed

text \<open>After its flush a checkpoint changes no patch, whether it succeeds or fails.\<close>

lemma checkpoint_stages:
  assumes "engine_checkpoint env now e s = (r, e', s')"
  obtains r1 s1 where "flush_l1_to_l2 (en_pc env) (en_uuids env) (ek_fe e) s = (r1, ek_fe e', s1)" "patches_kept s1 s'"
    "r = Inr x \<Longrightarrow> \<exists>n. r1 = Inr n"
proof -
  obtain r1 fe s1 where 1: "flush_l1_to_l2 (en_pc env) (en_uuids env) (ek_fe e) s = (r1, fe, s1)" by (rule prod_cases3)
  obtain r2 w s2 where 2: "flush_and_sync (en_wc env) (ek_wal e) s1 = (r2, w, s2)" by (rule prod_cases3)
  obtain r3 w3 s3 where 3: "ckpt_checkpoint (en_cc env) (en_wc env) (fst (en_ck_uuids env)) (snd (en_ck_uuids env)) now
      (committed_txn (ek_mvcc e)) (committed_txn (ek_mvcc e)) (committed_history_entries (ek_mvcc e)) w (ckpt_new s2) = (r3, w3, s3)"
    by (rule prod_cases3)
  have k2: "patches_kept s1 s2" using wal_only_calls(3) [OF 2] quiet_log(3) [OF 2] by (intro patches_kept_log) auto
  also have "patches_kept s2 (ckpt_new s2)" by (rule patches_kept_ckpt_new)
  also have "patches_kept (ckpt_new s2) s3" by (rule patches_kept_checkpoint [OF 3])
  finally have k3: "patches_kept s1 s3" .
  have "patches_kept s1 s1" by (simp add: patches_kept_def)
  with k2 k3 have "ek_fe e' = fe \<and> patches_kept s1 s' \<and> (r = Inr x \<longrightarrow> (\<exists>n. r1 = Inr n))"
    using assms by (cases r1; cases r2) (auto simp: engine_checkpoint_def 1 2 3 Let_def)
  with 1 show thesis by (intro that [of r1 s1]) auto
qed

subsection \<open>Reads across maintenance\<close>

lemma quiet_flush:
  assumes "flush_l1_to_l2 c uuids fe s = (r, fe', s')" "script s = []"
  shows "script s' = []"
proof -
  have "append_groups c uuids groups fe s = (r, fe', s') \<Longrightarrow> script s = [] \<Longrightarrow> script s' = []" for groups fe s r fe' s'
    by (induction groups arbitrary: fe s) (auto simp: Let_def split: prod.splits sum.splits dest!: append_patch_quiet)
  then show ?thesis using assms by (auto simp: flush_l1_to_l2_def Let_def split: prod.splits sum.splits)
qed

fun gc_mark :: "engine_op \<Rightarrow> txn_id" where
  "gc_mark (ECompact w) = w"
| "gc_mark _ = 0"

lemma maintenance_view:
  assumes ok: "flush_ok (en_pc env) (ek_fe e) s" and serde: "serde_ok (pc_ser (en_pc env)) (pc_de (en_pc env))" and quiet: "script s = []"
    and single: "view_single (view (en_pc env) (ek_fe e) s)" and all: "view (en_pc env) (ek_fe e) s = base_view (en_pc env) (ek_fe e) s"
    and bound: "unat (fe_next_patch_id (ek_fe e)) + length (hot (fe_l1 (ek_fe e))) + length (rf_cache (fe_recent (ek_fe e))) +
      length (list_cfs (fe_l2 (ek_fe e))) < 2 ^ 64"
    and x: "engine_exec env op (e, s) = (e', s')" and call: "\<not> client_call op"
  shows "flush_ok (en_pc env) (ek_fe e') s' \<and> script s' = [] \<and>
    gc_step (gc_mark op) (view (en_pc env) (ek_fe e) s) (view (en_pc env) (ek_fe e') s')"
proof -
  let ?c = "en_pc env" and ?fe = "ek_fe e"
  have single': "view_single (base_view ?c ?fe s)" using single all by simp
  have flush: "flush_ok ?c fe1 s1 \<and> script s1 = [] \<and> view ?c fe1 s1 = view ?c ?fe s"
    if f: "flush_l1_to_l2 ?c (en_uuids env) ?fe s = (r, fe1, s1)" for r fe1 s1
    using flush_keeps_base [OF ok serde single' _ f] quiet_flush [OF f quiet] bound all by simp
  show ?thesis
  proof (cases op)
    case EFlush
    obtain r fe1 s1 where f: "flush_l1_to_l2 ?c (en_uuids env) ?fe s = (r, fe1, s1)" by (rule prod_cases3)
    have "ek_fe e' = ?fe \<and> s' = s \<or> ek_fe e' = fe1 \<and> s' = s1"
      using x EFlush f by (auto simp: engine_flush_def try_flush_def split: sum.splits if_splits)
    with flush [OF f] ok quiet EFlush show ?thesis by auto
  next
    case EFlushNow
    then show ?thesis using x flush by (auto simp: flush_now_def split: prod.splits)
  next
    case (ECheckpoint now)
    then obtain r where "engine_checkpoint env now e s = (r, e', s')" using x by (auto dest: snd_whole)
    from checkpoint_stages [OF this] obtain r1 s1 where
      f: "flush_l1_to_l2 ?c (en_uuids env) ?fe s = (r1, ek_fe e', s1)" "patches_kept s1 s'" by metis
    with flush [OF f(1)] patches_kept_layers [OF _ f(2), of ?c "ek_fe e'"] ECheckpoint show ?thesis
      by (simp add: patches_kept_def)
  next
    case (ECompact w)
    obtain r fe1 s1 where f: "compact_l2_to_l3 ?c (en_uuids env) w ?fe s = (r, fe1, s1)" by (rule prod_cases3)
    have e': "ek_fe e' = fe1" "s' = s1" using x ECompact f by (auto simp: engine_compact_def)
    note k = compact_keeps_reads [OF ok serde quiet single' _ f]
    have g: "gc_step w (base_view ?c ?fe s) (base_view ?c fe1 s1)" using k bound by simp
    have "view ?c fe1 s1 \<subseteq> base_view ?c ?fe s"
      using k bound g all unfolding view_def gc_step_def by auto
    then have "gc_step w (view ?c ?fe s) (view ?c fe1 s1)"
      unfolding all by (intro gc_step_between [OF g]) (simp_all add: view_def)
    with k bound ECompact e' show ?thesis by simp
  qed (use call in simp_all)
qed

lemma get_at_same_newest:
  assumes "flush_ok (en_pc env) (ek_fe e) s" "script s = []" "view_single (view (en_pc env) (ek_fe e) s)"
    "flush_ok (en_pc env) (ek_fe e') s'" "script s' = []" "view_single (view (en_pc env) (ek_fe e') s')"
    and same: "\<And>u v. newest (\<lambda>t. is_visible snap t None) (view (en_pc env) (ek_fe e') s') (Z1Key cf k) u v \<longleftrightarrow>
      newest (\<lambda>t. is_visible snap t None) (view (en_pc env) (ek_fe e) s) (Z1Key cf k) u v"
  shows "fst (get_at env snap cf k e' s') = fst (get_at env snap cf k e s)"
proof -
  let ?V = "view (en_pc env) (ek_fe e) s" and ?V' = "view (en_pc env) (ek_fe e') s'"
  from get_at_candidates [OF assms(1,2), of snap cf k] obtain xs fe1 where
    xs: "get_at env snap cf k e s = (Inr (read_value xs), e\<lparr>ek_fe := fe1\<rparr>, s)" "stored_of ` set xs = visible_of snap ?V (Z1Key cf k)" by blast
  from get_at_candidates [OF assms(4,5), of snap cf k] obtain ys fe2 where
    ys: "get_at env snap cf k e' s' = (Inr (read_value ys), e'\<lparr>ek_fe := fe2\<rparr>, s')" "stored_of ` set ys = visible_of snap ?V' (Z1Key cf k)" by blast
  have "read_value ys = read_value xs"
    using read_value_newest [OF xs(2) assms(3)] read_value_newest [OF ys(2) assms(6)] same by metis
  with xs(1) ys(1) show ?thesis by simp
qed



end
