(* ===== verification/Survival.thy ===== *)
theory Survival
  imports Maintenance
begin

section \<open>Data that survives a restart\<close>

text \<open>
  Versions on disk survive a crash: a patch is indexed only after its file was replaced durably,
  and nothing but the removal of its column family touches it afterwards. Together with the
  checkpoint, which flushes the memory first, this gives that every version stored before
  a successful checkpoint is in the layers of every engine opened later.
\<close>

subsection \<open>Durable layers\<close>

text \<open>Every indexed patch is synced and its directory is there.\<close>

definition layer_durable :: "disk_layer \<Rightarrow> fs \<Rightarrow> bool" where
  "layer_durable d s \<longleftrightarrow> (\<forall>p \<in> indexed_paths d.
     (\<exists>n. hm_get (files s) p = Some n \<and> fdurable n = fdata n) \<and> parent_dir p \<in> set (dirs s))"

lemma layer_durable_frame:
  assumes "layer_durable d s" "set (dirs s) \<subseteq> set (dirs s')" "\<And>p. p \<in> indexed_paths d \<Longrightarrow> hm_get (files s') p = hm_get (files s) p"
  shows "layer_durable d s'"
  using assms unfolding layer_durable_def by (metis subsetD)

lemma append_patch_cases:
  assumes "append_patch c uuids cf entries pid d s = (r, d', s')"
  shows "set (dirs s) \<subseteq> set (dirs s') \<and> (d' = d \<or> r = Inr () \<and> indexed_paths d' \<subseteq> insert (PatchFile (dl_layer d) cf pid) (indexed_paths d) \<and>
    (\<exists>bs. hm_get (files s') (PatchFile (dl_layer d) cf pid) = Some \<lparr>fdata = bs, fdurable = bs\<rparr>) \<and> CfDir (dl_layer d) cf \<in> set (dirs s'))"
proof (cases "entries = []")
  case True
  with assms show ?thesis by (simp add: append_patch_def)
next
  case False
  let ?p = "PatchFile (dl_layer d) cf pid"
  obtain r1 s1 where 1: "sys_create_dir_all (CfDir (dl_layer d) cf) s = (r1, s1)" by fastforce
  have d1: "set (dirs s) \<subseteq> set (dirs s1)" using undisturbed_create_dir [OF 1] by (simp add: undisturbed_def)
  have w: "set (dirs s1) \<subseteq> set (dirs s2)" if "write_durable uuids ?p bs s1 = (r2, s2)" for bs r2 s2
    using write_durable_other [OF that, of LockFile] by (simp add: undisturbed_def)
  show ?thesis
  proof (cases r1)
    case (Inl e)
    with assms False d1 show ?thesis by (auto simp: append_patch_def 1)
  next
    case (Inr x)
    have cf: "CfDir (dl_layer d) cf \<in> set (dirs s1)" using create_dir_Inr(2) [OF 1 [unfolded Inr]] .
    show ?thesis
    proof (cases "to_disk_bytes patch_v4 (pc_crc c) (pc_ser c) (sparse entries)")
      case (Inl e)
      with assms False d1 \<open>r1 = Inr x\<close> show ?thesis by (auto simp: append_patch_def 1 Let_def)
    next
      case bs: (Inr bs)
      obtain r2 s2 where 2: "write_durable uuids ?p bs s1 = (r2, s2)" by fastforce
      have d2: "set (dirs s) \<subseteq> set (dirs s2)" "CfDir (dl_layer d) cf \<in> set (dirs s2)" using d1 cf w [OF 2] by auto
      from assms False \<open>r1 = Inr x\<close> bs 2 d2 write_durable_Inr [of uuids ?p bs s1] show ?thesis
        by (cases r2) (auto simp: append_patch_def 1 Let_def dest: subsetD [OF pushed_paths])
    qed
  qed
qed

lemma append_patch_durable:
  assumes ap: "append_patch c uuids cf entries pid d s = (r, d', s')" and dur: "layer_durable d s" "layer_durable d2 s"
    and ids: "ids_below d (unat pid)" "ids_below d2 (unat pid)" and lay: "dl_layer d \<noteq> dl_layer d2"
  shows "layer_durable d' s'" "layer_durable d2 s'"
proof -
  let ?p = "PatchFile (dl_layer d) cf pid"
  note ac = append_patch_cases [OF ap]
  have same: "hm_get (files s') q = hm_get (files s) q" if "q \<in> indexed_paths d0" "fresh_for d0 ?p uuids" for q d0
    using append_patch_frame(1) [OF ap, of q] that by (auto simp: fresh_for_def undisturbed_def split: prod.splits)
  have fr: "fresh_for d ?p uuids" "fresh_for d2 ?p uuids"
    by (rule fresh_for_ids [OF ids(1)], simp) (rule fresh_for_ids [OF ids(2)], simp)
  show "layer_durable d2 s'" using ac same [OF _ fr(2)] by (intro layer_durable_frame [OF dur(2)]) auto
  have old: "layer_durable d s'" using ac same [OF _ fr(1)] by (intro layer_durable_frame [OF dur(1)]) auto
  show "layer_durable d' s'"
  proof (cases "d' = d")
    case False
    have new: "\<exists>n. hm_get (files s') ?p = Some n \<and> fdurable n = fdata n" using ac False by fastforce
    have sub: "indexed_paths d' \<subseteq> insert ?p (indexed_paths d)" using ac False by simp
    have cf: "parent_dir ?p \<in> set (dirs s')" using ac False by simp
    from old new cf show ?thesis unfolding layer_durable_def using sub by blast
  qed (use old in simp)
qed

abbreviation durable :: "flush_engine \<Rightarrow> fs \<Rightarrow> bool" where
  "durable fe s \<equiv> layer_durable (fe_l2 fe) s \<and> layer_durable (fe_l3 fe) s"

lemma append_groups_durable:
  assumes "flush_ok c fe s" "serde_ok (pc_ser c) (pc_de c)" "unat (fe_next_patch_id fe) + length groups < 2 ^ 64"
    "append_groups c uuids groups fe s = (r, fe', s')" "durable fe s"
  shows "durable fe' s'"
  using assms(1,3-)
proof (induction groups arbitrary: fe s)
  case (Cons g groups)
  obtain cf entries where g: "g = (cf, entries)" by fastforce
  let ?pid = "fe_next_patch_id fe"
  obtain r1 d s1 where ap: "append_patch c (uuids ?pid) cf entries ?pid (fe_l2 fe) s = (r1, d, s1)" by (rule prod_cases3)
  let ?fe = "fe\<lparr>fe_next_patch_id := ?pid + 1, fe_l2 := d\<rparr>"
  have f: "disk_ok c (fe_l2 fe) s" "disk_ok c (fe_l3 fe) s" "ids_below (fe_l2 fe) (unat ?pid)" "ids_below (fe_l3 fe) (unat ?pid)"
      "dl_layer (fe_l2 fe) \<noteq> dl_layer (fe_l3 fe)"
    using Cons.prems(1) by (simp_all add: flush_ok_def)
  have dur: "durable ?fe s1" using append_patch_durable [OF ap _ _ f(3-5)] Cons.prems(4) by simp
  show ?case
  proof (cases r1)
    case (Inl e)
    with Cons.prems(3) ap dur show ?thesis by (simp add: Let_def g)
  next
    case (Inr x)
    have "flush_ok c ?fe s1"
      using append_next_ok [OF f(1,2) assms(2) f(3-5) _ ap] Cons.prems(1,2) by (simp add: flush_ok_def)
    moreover have "unat (fe_next_patch_id ?fe) + length groups < 2 ^ 64" using Cons.prems(2) unat_succ [of ?pid] by simp
    moreover have "append_groups c uuids groups ?fe s1 = (r, fe', s')" using Cons.prems(3) ap Inr by (simp add: Let_def g)
    ultimately show ?thesis using Cons.IH dur by blast
  qed
qed simp

lemma flush_durable:
  assumes ok: "flush_ok c fe s" and serde: "serde_ok (pc_ser c) (pc_de c)"
    and bound: "unat (fe_next_patch_id fe) + length (hot (fe_l1 fe)) + length (rf_cache (fe_recent fe)) < 2 ^ 64"
    and fl: "flush_l1_to_l2 c uuids fe s = (r, fe', s')" and dur: "durable fe s"
  shows "durable fe' s'"
proof -
  let ?m = "fold buffer_insert (map snd (hot (fe_l1 fe))) (rf_cache (fe_recent fe))"
  let ?fe = "fe\<lparr>fe_l1 := snd (swap_and_drain (fe_l1 fe)), fe_recent := cache_merge (map snd (hot (fe_l1 fe))) (fe_recent fe)\<rparr>"
  define groups where "groups = fold group_push (map snd ?m) []"
  have "flush_ok c ?fe s" using ok mem_ok_ops(3) rf_ok_ops(4) by (simp add: flush_ok_def)
  moreover have "length groups \<le> length (hot (fe_l1 fe)) + length (rf_cache (fe_recent fe))"
    using groups_of [of "[]" "map snd ?m"] length_insert_all [of "map snd (hot (fe_l1 fe))" "rf_cache (fe_recent fe)"]
    by (simp add: groups_def groups_view_def)
  then have "unat (fe_next_patch_id ?fe) + length groups < 2 ^ 64" using bound by simp
  moreover obtain r1 fe2 s1 where ap: "append_groups c uuids groups ?fe s = (r1, fe2, s1)" by (rule prod_cases3)
  ultimately have "durable fe2 s1" using append_groups_durable [OF _ serde _ ap] dur by simp
  moreover have "fe_l2 fe' = fe_l2 fe2 \<and> fe_l3 fe' = fe_l3 fe2 \<and> s' = s1"
    using fl ap by (cases r1)
      (auto simp: flush_l1_to_l2_def swap_and_drain_def groups_def rf_get_all_def cache_merge_def Let_def)
  ultimately show ?thesis by simp
qed

lemma durable_kept:
  assumes "flush_ok c fe s" "patches_kept s s'" "durable fe s"
  shows "durable fe s'"
proof -
  have "hm_get (files s') q = hm_get (files s) q" if "ids_below d n" "q \<in> indexed_paths d" for d n q
    using that assms(2) unfolding ids_below_def patches_kept_def by (metis UnI1 option.distinct(1))
  moreover have "ids_below (fe_l2 fe) (unat (fe_next_patch_id fe))" "ids_below (fe_l3 fe) (unat (fe_next_patch_id fe))"
    using assms(1) by (simp_all add: flush_ok_def)
  moreover have "set (dirs s) \<subseteq> set (dirs s')" using assms(2) by (simp add: patches_kept_def)
  ultimately show ?thesis using assms(3) layer_durable_frame by metis
qed

subsection \<open>After a crash\<close>

lemma durable_crash:
  assumes "layer_durable d s" "crash_of s s'" "p \<in> indexed_paths d"
  shows "patch_at c s' p = patch_at c s p" "parent_dir p \<in> set (dirs s')"
proof -
  obtain n where n: "hm_get (files s) p = Some n" "fdurable n = fdata n" "parent_dir p \<in> set (dirs s)"
    using assms(1,3) unfolding layer_durable_def by blast
  then obtain n' where n': "hm_get (files s') p = Some n'" "crash_node n (fdata n')"
    using assms(2) unfolding crash_of_def by metis
  have "fdata n' = fdata n" using n'(2) n(2) by (auto simp: crash_node_def is_prefix_def)
  with n(1) n'(1) show "patch_at c s' p = patch_at c s p" by (simp add: patch_at_def del: map_of_eq_Some_iff)
  show "parent_dir p \<in> set (dirs s')" using n(3) assms(2) by (simp add: crash_of_def)
qed

lemma indexed_contents:
  assumes "disk_ok c d s" "pe \<in> set (layer_contents c d s cf)"
  obtains p es where "p \<in> indexed_paths d" "parent_dir p = CfDir (dl_layer d) cf" "patch_at c s p = Some es" "pe \<in> set es"
proof -
  obtain xs where xs: "hm_get (dl_index d) cf = Some xs"
    using assms(2) by (cases "hm_get (dl_index d) cf") (auto simp: layer_contents_def entries_at_def)
  then obtain mn mx p where p: "(mn, mx, p) \<in> set xs" "pe \<in> set (unwrap_or [] (patch_at c s p))"
    using assms(2) by (auto simp: layer_contents_def entries_at_def simp del: map_of_eq_Some_iff)
  have "index_ok c s (dl_layer d) cf xs" by (rule disk_ok_index [OF assms(1) xs])
  then obtain es where "patch_at c s p = Some es" "parent_dir p = CfDir (dl_layer d) cf" using p(1) by (fastforce simp: index_ok_def)
  moreover have "p \<in> indexed_paths d" using map_of_SomeD [OF xs] p(1) unfolding indexed_paths_def by blast
  ultimately show thesis using p(2) by (intro that) auto
qed

lemma quiet_replay_segment: "script s = [] \<Longrightarrow> snd (replay_segment c final bs out s) = s"
proof (induction c final bs out s rule: replay_segment.induct)
  case (1 c final bs out s)
  have r: "snd (read_one_record c bs s) = s" using 1(2) by (simp add: read_one_record_def Let_def split: option.splits)
  obtain x s1 where x: "read_one_record c bs s = (x, s1)" by fastforce
  with r have "s1 = s" by simp
  then show ?case using 1 x by (subst replay_segment.simps) (auto split: sum.splits option.splits)
qed

lemma quiet_replay: "script s = [] \<Longrightarrow> snd (replay_all c s) = s"
proof -
  assume q: "script s = []"
  have "snd (replay_segments c qs out s) = s" for qs out
    using q
  proof (induction qs arbitrary: out)
    case (Cons p qs)
    have seg: "snd (replay_segment c (qs = []) d out s) = s" for d by (rule quiet_replay_segment [OF q])
    show ?case
    proof (cases "hm_get (files s) (WalSegment p)")
      case (Some n)
      obtain x s1 where x: "replay_segment c (qs = []) (fdata n) out s = (x, s1)" by fastforce
      with seg [of "fdata n"] have "s1 = s" by simp
      with Some x Cons q show ?thesis by (auto simp: sys_read_def simp del: map_of_eq_Some_iff split: sum.splits)
    qed (use q in \<open>simp add: sys_read_def\<close>)
  qed simp
  then show ?thesis using q by (simp add: replay_all_def sys_read_dir_def)
qed

text \<open>The layers of an opened engine hold what the patch files held that the engine was opened on.\<close>

lemma opened_layers:
  assumes o: "open_with_config env config now held counts s0 = (Inr e, held', counts', s)" and quiet: "script s0 = []"
  shows "dl_layer (fe_l2 (ek_fe e)) = L2" "dl_layer (fe_l3 (ek_fe e)) = L3"
    "\<lbrakk>parent_dir p = CfDir l cf; CfDir l cf \<in> set (dirs s0); patch_at (en_pc env) s0 p = Some es; pe \<in> set es\<rbrakk> \<Longrightarrow>
     pe \<in> set (layer_contents (en_pc env) (case l of L2 \<Rightarrow> fe_l2 (ek_fe e) | L3 \<Rightarrow> fe_l3 (ek_fe e)) s cf)"
proof -
  obtain s1 h2 s2 w s3 l2 s4 l3 s5 base s7 ct ch l1 and res :: recovery_result where
    st: "sys_create_dir_all DataDir s0 = (Inr (), s1)" "lock_acquire held s1 = (Inr (), h2, s2)"
      "wal_open engine_wal_config s2 = (Inr w, s3)" and l: "disk_new (en_pc env) L2 s3 = (l2, s4)" "disk_new (en_pc env) L3 s4 = (l3, s5)"
    and base: "recovery_baseline (en_cc env) (ckpt_new s5) = (base, s7)" and ct: "unwrap_or (0, []) base = (ct, ch)"
    and e: "e = \<lparr>ek_config = config, ek_wal = w,
       ek_mvcc = recovered_manager (visibility config)
         (fold (\<lambda>p. hm_insert (fst p) (snd p)) (rr_commit_ts_map res) (fold (\<lambda>p. hm_insert (fst p) (snd p)) ch []))
         (rr_inserted_at_map res) now (rr_replay_watermark res) (max ct (max_seen_committed_txn res)),
       ek_cache = cache_new, ek_txn_snapshots = [],
       ek_fe = with_l3 l1 l2 l3 rf_new 0 (max (max_patch_id l2) (max_patch_id l3) + 1),
       ek_txn_counter = saturating_add (max ct (max_seen_committed_txn res)) 1\<rparr>"
    and rep: "replay_committed_ops (en_wc env) (strict_mode config) (en_json env) replay_apply (mem_new 67108864 Async) counts s7 =
       (Inr res, l1, counts', s)"
    by (rule open_stages [OF o])
  have k: "kept q s0 s3" if "q \<noteq> LockFile" "segment_seq q = None" for q
    using kept_create_dir [OF st(1)] kept_lock [OF st(2) that(1)] kept_wal_open [OF st(3) that(2)] by (meson kept_trans)
  have q3: "script s3 = []" using k [of LatestPointer] quiet by (simp add: kept_def)
  note n2 = disk_new_eq [OF q3 l(1)] and n3 = disk_new_eq [OF disk_new_eq(2) [OF q3 l(1)] l(2)]
  have c6: "files (ckpt_new s5) = files s5" using create_dir_frame [of CheckpointDir s5] by (simp add: ckpt_new_def) (metis prod.collapse)
  have q6: "script (ckpt_new s5) = []" using kept_ckpt_new [of LatestPointer s5] n3(2) by (simp add: kept_def)
  have s7: "s7 = ckpt_new s5" using base q6 by (simp add: recovery_baseline_def load_latest_from)
  obtain rr s8 where rr: "replay_all (en_wc env) s7 = (rr, s8)" by fastforce
  have "s8 = s7" using quiet_replay [of s7 "en_wc env"] rr q6 s7 by simp
  moreover obtain log where log: "rr = Inr log" using rep rr by (cases rr) (simp_all add: replay_committed_ops_def)
  from recovered_store_full [OF rr [unfolded log], of "strict_mode config" "en_json env" 67108864 Async counts] rep
  have "s = s8" by auto
  ultimately have fs: "files s = files s3" using s7 c6 n2(1) n3(1) by simp
  show "dl_layer (fe_l2 (ek_fe e)) = L2" "dl_layer (fe_l3 (ek_fe e)) = L3" using n2(4) n3(4) by (simp_all add: e with_l3_def)
  assume p: "parent_dir p = CfDir l cf" "CfDir l cf \<in> set (dirs s0)" "patch_at (en_pc env) s0 p = Some es" "pe \<in> set es"
  have kp: "kept p s0 s3" using p(1) by (intro k; cases p) auto
  have at: "patch_at (en_pc env) s3 p = Some es" "CfDir l cf \<in> set (dirs s3)"
    using kp p(2,3) patch_at_cong [of s3 p s0 "en_pc env"] by (auto simp: kept_def)
  have lc: "layer_contents (en_pc env) d s cf = layer_contents (en_pc env) d s' cf" if "files s' = files s3" for d s'
    using patch_at_same_files [of s s' "en_pc env"] fs that by (simp add: layer_contents_def entries_at_def)
  show "pe \<in> set (layer_contents (en_pc env) (case l of L2 \<Rightarrow> fe_l2 (ek_fe e) | L3 \<Rightarrow> fe_l3 (ek_fe e)) s cf)"
  proof (cases l)
    case L2
    with disk_new_contents [OF q3 l(1), of cf] at p(1,4) lc [of s4 l2] n2(1) show ?thesis by (auto simp: e with_l3_def)
  next
    case L3
    have "patch_at (en_pc env) s4 p = Some es" "CfDir l cf \<in> set (dirs s4)"
      using at n2(3) patch_at_same_files [OF n2(1)] by auto
    with L3 disk_new_contents [OF n2(2) l(2), of cf] p(1,4) lc [of s5 l3] n2(1) n3(1) show ?thesis by (auto simp: e with_l3_def)
  qed
qed

lemma layer_restored:
  assumes d: "disk_ok (en_pc env) d s" "layer_durable d s" and crash: "crash_of s s0"
    and o: "open_with_config env config now held counts s0 = (Inr e, held', counts', s1)"
  shows "disk_view (en_pc env) d s \<subseteq> disk_view (en_pc env) (case dl_layer d of L2 \<Rightarrow> fe_l2 (ek_fe e) | L3 \<Rightarrow> fe_l3 (ek_fe e)) s1"
proof -
  have "set (layer_contents (en_pc env) d s cf) \<subseteq>
      set (layer_contents (en_pc env) (case dl_layer d of L2 \<Rightarrow> fe_l2 (ek_fe e) | L3 \<Rightarrow> fe_l3 (ek_fe e)) s1 cf)" for cf
  proof
    fix pe
    assume "pe \<in> set (layer_contents (en_pc env) d s cf)"
    from indexed_contents [OF d(1) this] obtain p es where
      p: "p \<in> indexed_paths d" "parent_dir p = CfDir (dl_layer d) cf" "patch_at (en_pc env) s p = Some es" "pe \<in> set es" by metis
    have "script s0 = []" using crash by (simp add: crash_of_def)
    from opened_layers(3) [OF o this p(2) _ _ p(4)] durable_crash(1) [OF d(2) crash p(1), of "en_pc env"]
      durable_crash(2) [OF d(2) crash p(1)] p(2,3)
    show "pe \<in> set (layer_contents (en_pc env) (case dl_layer d of L2 \<Rightarrow> fe_l2 (ek_fe e) | L3 \<Rightarrow> fe_l3 (ek_fe e)) s1 cf)" by simp
  qed
  then show ?thesis unfolding disk_view_def by blast
qed

text \<open>
  C6. Data survives a checkpoint. Take an engine whose layers are in their invariant and durable,
  with one value per key and transaction. When a checkpoint has returned success, every engine
  opened after a crash holds every version that was stored before the checkpoint, in memory
  or on disk, in its disk layers, and its committed history has every transaction committed
  before the checkpoint: nothing depends on the log before it.
\<close>

theorem checkpoint_keeps_data:
  assumes "flush_ok (en_pc env) (ek_fe e) s" and "durable (ek_fe e) s" and "cold (fe_l1 (ek_fe e)) = []"
    and "serde_ok (pc_ser (en_pc env)) (pc_de (en_pc env))" and "serde_ok (ck_ser (en_cc env)) (ck_de (en_cc env))"
    and "view_single (base_view (en_pc env) (ek_fe e) s)"
    and "unat (fe_next_patch_id (ek_fe e)) + length (hot (fe_l1 (ek_fe e))) + length (rf_cache (fe_recent (ek_fe e))) < 2 ^ 64"
    and "engine_checkpoint env now e s = (Inr (), e', s')" and "crash_of s' s0"
    and "open_with_config env config clock held counts s0 = (Inr e1, held', counts', s1)"
  shows "base_view (en_pc env) (ek_fe e) s \<subseteq> disk_view (en_pc env) (fe_l2 (ek_fe e1)) s1 \<union> disk_view (en_pc env) (fe_l3 (ek_fe e1)) s1 \<and>
    (\<forall>t. hm_contains (committed_history (ek_mvcc e)) t \<longrightarrow> hm_contains (committed_history (ek_mvcc e1)) t)"
proof -
  let ?c = "en_pc env" and ?fe = "ek_fe e'"
  from checkpoint_stages [OF assms(8)] obtain n r1 sf where
    f: "flush_l1_to_l2 ?c (en_uuids env) (ek_fe e) s = (r1, ?fe, sf)" "patches_kept sf s'" "r1 = Inr n" by metis
  note fb = flush_keeps_base [OF assms(1,4,6,7) f(1)]
  have ok: "flush_ok ?c ?fe sf" "flush_ok ?c ?fe s'" and base: "base_view ?c ?fe s' = base_view ?c (ek_fe e) s"
    using fb patches_kept_layers [OF _ f(2), of ?c ?fe] by simp_all
  have dur: "durable ?fe s'" by (rule durable_kept [OF ok(1) f(2) flush_durable [OF assms(1,4,7) f(1) assms(2)]])
  have "pending_view ?fe = {}" using fb f(3) assms(3) by (simp add: pending_view_def)
  then have "base_view ?c ?fe s' = disk_view ?c (fe_l2 ?fe) s' \<union> disk_view ?c (fe_l3 ?fe) s'" by (simp add: base_view_def)
  then have "base_view ?c (ek_fe e) s = disk_view ?c (fe_l2 ?fe) s' \<union> disk_view ?c (fe_l3 ?fe) s'" unfolding base .
  moreover have d: "disk_ok ?c (fe_l2 ?fe) s'" "disk_ok ?c (fe_l3 ?fe) s'" "dl_layer (fe_l2 ?fe) = L2" "dl_layer (fe_l3 ?fe) = L3"
    using ok(2) by (simp_all add: flush_ok_def)
  then have "disk_view ?c (fe_l2 ?fe) s' \<subseteq> disk_view ?c (fe_l2 (ek_fe e1)) s1" "disk_view ?c (fe_l3 ?fe) s' \<subseteq> disk_view ?c (fe_l3 (ek_fe e1)) s1"
    using layer_restored [OF d(1) _ assms(9,10)] layer_restored [OF d(2) _ assms(9,10)] dur by simp_all
  ultimately have "base_view ?c (ek_fe e) s \<subseteq> disk_view ?c (fe_l2 (ek_fe e1)) s1 \<union> disk_view ?c (fe_l3 (ek_fe e1)) s1" by blast
  moreover have "script s0 = []" using assms(9) by (simp add: crash_of_def)
  note h = opened_history [OF assms(10) this checkpoint_durable [OF assms(8,9,5)]]
  have "fst ` set (committed_history_entries (ek_mvcc e)) = fst ` set (committed_history (ek_mvcc e))"
    unfolding committed_history_entries_def by (simp add: image_image split_beta)
  with h(2) have "\<forall>t. hm_contains (committed_history (ek_mvcc e)) t \<longrightarrow> hm_contains (committed_history (ek_mvcc e1)) t" by simp
  ultimately show ?thesis by blast
qed

text \<open>The example: an engine with one committed version in memory writes a checkpoint.\<close>

definition data_env :: engine_env where
  "data_env = ck_env\<lparr>en_pc := table_codec run_patches\<rparr>"

definition data_engine :: z1kv where
  "data_engine = ck_engine\<lparr>ek_fe := sample_stack\<rparr>"

abbreviation data_fs :: fs where
  "data_fs \<equiv> fresh_fs \<lparr>fdata = [], fdurable = []\<rparr>"

fun reopens_synced :: "unit z1result \<times> z1kv \<times> fs \<Rightarrow> bool" where
  "reopens_synced (Inl _, _) = False"
| "reopens_synced (Inr _, e, s) =
     (script s = [] \<and> list_all (\<lambda>x. fdurable (snd x) = fdata (snd x)) (files s) \<and>
      (case open_with_config data_env default_z1_config 9 False [] s of (Inl _, _) \<Rightarrow> False | (Inr _, _) \<Rightarrow> True))"

lemma data_reopens: "reopens_synced (engine_checkpoint data_env 0 data_engine data_fs)"
  by code_simp

lemma reopens_syncedE:
  assumes "reopens_synced p"
  obtains e' s' e1 h c s1 where "p = (Inr (), e', s')" "crash_of s' s'"
    "open_with_config data_env default_z1_config 9 False [] s' = (Inr e1, h, c, s1)"
proof -
  obtain r e' s' where p: "p = (r, e', s')" by (rule prod_cases3)
  obtain r1 h c s1 where o: "open_with_config data_env default_z1_config 9 False [] s' = (r1, h, c, s1)" by (rule prod_cases4)
  have "r = Inr ()" "script s' = []" "list_all (\<lambda>x. fdurable (snd x) = fdata (snd x)) (files s')" "\<exists>e1. r1 = Inr e1"
    using assms p o by (cases r; cases r1; simp)+
  moreover from this have "crash_of s' s'" by (intro crash_of_synced) (auto simp: list_all_iff)
  ultimately show thesis using that p o by blast
qed

theorem checkpoint_keeps_data_witness:
  "\<exists>e' s' e1 h c s1. engine_checkpoint data_env 0 data_engine data_fs = (Inr (), e', s') \<and>
     open_with_config data_env default_z1_config 9 False [] s' = (Inr e1, h, c, s1) \<and>
     (Z1Key 0 [1], 1, Some [7]) \<in> disk_view (en_pc data_env) (fe_l2 (ek_fe e1)) s1 \<union> disk_view (en_pc data_env) (fe_l3 (ek_fe e1)) s1 \<and>
     hm_contains (committed_history (ek_mvcc e1)) 1"
proof -
  obtain e' s' e1 h c s1 where r: "engine_checkpoint data_env 0 data_engine data_fs = (Inr (), e', s')" "crash_of s' s'"
      "open_with_config data_env default_z1_config 9 False [] s' = (Inr e1, h, c, s1)"
    using reopens_syncedE [OF data_reopens] by metis
  have fe: "ek_fe data_engine = sample_stack" by (simp add: data_engine_def)
  have v: "base_view c sample_stack s = {(Z1Key 0 [1], 1, Some [7])}" for c s
    by (simp add: sample_stack_def empty_stack_def with_l3_def empty_layer_def mem_new_def rf_new_def base_view_def mem_insert_def
      pending_view_def disk_view_def layer_contents_def entries_at_def buffer_insert_def stored_of_def entry_put_def)
  have "layer_durable (fe_l2 sample_stack) s" "layer_durable (fe_l3 sample_stack) s" "cold (fe_l1 sample_stack) = []"
      "length (hot (fe_l1 sample_stack)) = 1" "length (rf_cache (fe_recent sample_stack)) = 0" "fe_next_patch_id sample_stack = 0" for s
    by (simp_all add: sample_stack_def empty_stack_def with_l3_def empty_layer_def mem_new_def rf_new_def mem_insert_def
      buffer_insert_def layer_durable_def indexed_paths_def)
  moreover have "serde_ok (pc_ser (en_pc data_env)) (pc_de (en_pc data_env))" "serde_ok (ck_ser (en_cc data_env)) (ck_de (en_cc data_env))"
    using run_codecs_ok(2) ck_serde by (simp_all add: data_env_def run_env_def)
  ultimately have k: "base_view (en_pc data_env) (ek_fe data_engine) data_fs \<subseteq>
      disk_view (en_pc data_env) (fe_l2 (ek_fe e1)) s1 \<union> disk_view (en_pc data_env) (fe_l3 (ek_fe e1)) s1 \<and>
    (\<forall>t. hm_contains (committed_history (ek_mvcc data_engine)) t \<longrightarrow> hm_contains (committed_history (ek_mvcc e1)) t)"
    by (intro checkpoint_keeps_data [OF _ _ _ _ _ _ _ r]) (simp_all add: fe sample_stack_ok v view_single_def)
  have "hm_contains (committed_history (ek_mvcc data_engine)) 1" by (simp add: data_engine_def ck_engine_def)
  then have h: "hm_contains (committed_history (ek_mvcc e1)) 1" using conjunct2 [OF k] by blast
  have "(Z1Key 0 [1], 1, Some [7]) \<in> base_view (en_pc data_env) (ek_fe data_engine) data_fs" unfolding fe v by simp
  note m = subsetD [OF conjunct1 [OF k] this]
  show ?thesis by (intro exI conjI) (rule r(1), rule r(3), rule m, rule h)
qed

end
